(* ===== verification/Prelude.thy ===== *)
theory Prelude
  imports Complex_Main "HOL-Library.Multiset" "HOL-Library.AList" "HOL-Library.Product_Lexorder"
begin

text \<open>
  Shared vocabulary of the development: the exceptions of the Python sources as values
  (\<open>py_error\<close>, results of type \<open>'a result\<close>), dictionaries with Python's insertion order
  (association lists updated in place by \<^term>\<open>AList.update\<close>), the grouping idiom
  \<open>defaultdict(list)\<close>, \<open>max(..., default=d)\<close>, and generic list lemmas. Component
  theories add their own facts to the named collections declared here.
\<close>

named_theorems ledger_defs \<open>unfolding rules of the ledger's atomic sections\<close>
named_theorems dict_simps \<open>what a lookup returns after a dictionary operation\<close>

section \<open>Exceptions as values\<close>

datatype py_error =
    KeyError string
  | IndexError
  | ValueError
  | TypeError
  | StopIteration
  | TimeoutError
  | ZeroDivisionError
  | IntegrityError
  | OperationalError
  | StatisticsError
  | FileNotFoundError
  | RuntimeError
  | AssertionError
  | SystemExit

type_synonym 'a result = "py_error + 'a"

definition bindR :: "'a result \<Rightarrow> ('a \<Rightarrow> 'b result) \<Rightarrow> 'b result" where
  "bindR r f = (case r of Inl e \<Rightarrow> Inl e | Inr x \<Rightarrow> f x)"

lemma bindR_simps [simp]: "bindR (Inl e) f = Inl e" "bindR (Inr x) f = f x"
  by (simp_all add: bindR_def)

lemma bindR_Inr_iff: "bindR r f = Inr y \<longleftrightarrow> (\<exists>x. r = Inr x \<and> f x = Inr y)"
  by (cases r) auto

lemma bindR_exists: "\<exists>x. r = Inr x \<Longrightarrow> (\<And>x. \<exists>y. f x = Inr y) \<Longrightarrow> \<exists>y. bindR r f = Inr y"
  by (cases r) auto

lemma bindR_assoc: "bindR (bindR r f) g = bindR r (\<lambda>x. bindR (f x) g)"
  by (cases r) auto

text \<open>A list comprehension whose element expression may raise: the first exception wins.\<close>

primrec mapR :: "('a \<Rightarrow> 'b result) \<Rightarrow> 'a list \<Rightarrow> 'b list result" where
  "mapR f [] = Inr []"
| "mapR f (x # xs) = bindR (f x) (\<lambda>y. bindR (mapR f xs) (\<lambda>ys. Inr (y # ys)))"

lemma mapR_Inr_iff:
  "mapR f xs = Inr ys \<longleftrightarrow> list_all2 (\<lambda>x y. f x = Inr y) xs ys"
  by (induction xs arbitrary: ys)
    (auto simp: bindR_Inr_iff list_all2_Cons1)

lemma mapR_total: "(\<And>x. x \<in> set xs \<Longrightarrow> f x = Inr (g x)) \<Longrightarrow> mapR f xs = Inr (map g xs)"
  by (induction xs) auto

lemma mapR_exists: "(\<And>x. x \<in> set xs \<Longrightarrow> \<exists>y. f x = Inr y) \<Longrightarrow> \<exists>ys. mapR f xs = Inr ys"
  by (induction xs) (force simp: bindR_Inr_iff)+

lemma mapR_range: "mapR f xs = Inr ys \<Longrightarrow> y \<in> set ys \<Longrightarrow> \<exists>x \<in> set xs. f x = Inr y"
  by (induction xs arbitrary: ys) (auto simp: bindR_Inr_iff)

lemma mapR_cong:
  "(\<And>x. x \<in> set xs \<Longrightarrow> f x = g x) \<Longrightarrow> mapR f xs = mapR g xs"
  by (induction xs) auto

lemma mapR_map: "mapR f (map g xs) = mapR (\<lambda>x. f (g x)) xs"
  by (induction xs) auto

text \<open>\<open>d[k]\<close> on an optional field: a missing key raises.\<close>

definition need :: "string \<Rightarrow> 'a option \<Rightarrow> 'a result" where
  "need k v = (case v of None \<Rightarrow> Inl (KeyError k) | Some x \<Rightarrow> Inr x)"

lemma need_simps [simp]: "need k None = Inl (KeyError k)" "need k (Some x) = Inr x"
  by (simp_all add: need_def)

lemma need_Inr_iff [simp]: "need k v = Inr x \<longleftrightarrow> v = Some x"
  by (cases v) auto

text \<open>\<open>xs[i]\<close> for a non-negative index.\<close>

definition py_get :: "'a list \<Rightarrow> nat \<Rightarrow> 'a result" where
  "py_get xs i = (if i < length xs then Inr (xs ! i) else Inl IndexError)"

section \<open>Dictionaries in insertion order\<close>

text \<open>\<open>defaultdict(list)\<close>: \<open>d[k].append(v)\<close>.\<close>

definition dict_append :: "'k \<Rightarrow> 'v \<Rightarrow> ('k \<times> 'v list) list \<Rightarrow> ('k \<times> 'v list) list" where
  "dict_append k v d =
     AList.update k ((case map_of d k of None \<Rightarrow> [] | Some vs \<Rightarrow> vs) @ [v]) d"

definition group_by :: "('a \<Rightarrow> 'k) \<Rightarrow> ('a \<Rightarrow> 'v) \<Rightarrow> 'a list \<Rightarrow> ('k \<times> 'v list) list" where
  "group_by f g xs = fold (\<lambda>x. dict_append (f x) (g x)) xs []"

text \<open>A dict comprehension \<open>{f(x): g(x) for x in xs}\<close>: a repeated key keeps its place and
  takes the last value.\<close>

definition dict_of :: "('a \<Rightarrow> 'k) \<Rightarrow> ('a \<Rightarrow> 'v) \<Rightarrow> 'a list \<Rightarrow> ('k \<times> 'v) list" where
  "dict_of f g xs = fold (\<lambda>x. AList.update (f x) (g x)) xs []"

lemma map_of_dict_append [dict_simps]:
  "map_of (dict_append k v d) = (map_of d)(k \<mapsto> (case map_of d k of None \<Rightarrow> [] | Some vs \<Rightarrow> vs) @ [v])"
  by (simp add: dict_append_def update_conv')

lemma distinct_dict_append: "distinct (map fst d) \<Longrightarrow> distinct (map fst (dict_append k v d))"
  by (simp add: dict_append_def distinct_update)

lemma fold_dict_append_lookup:
  "map_of (fold (\<lambda>x. dict_append (f x) (g x)) xs d) k =
     (case map g (filter (\<lambda>x. f x = k) xs) of
        [] \<Rightarrow> map_of d k
      | vs \<Rightarrow> Some ((case map_of d k of None \<Rightarrow> [] | Some us \<Rightarrow> us) @ vs))"
proof (induction xs arbitrary: d)
  case (Cons x xs)
  show ?case
    by (auto simp: Cons.IH map_of_dict_append split: list.split option.split)
qed simp

lemma group_by_lookup [dict_simps]:
  "map_of (group_by f g xs) k =
     (if k \<in> f ` set xs then Some (map g (filter (\<lambda>x. f x = k) xs)) else None)"
proof (cases "map g (filter (\<lambda>x. f x = k) xs)")
  case Nil
  then show ?thesis by (auto simp: group_by_def fold_dict_append_lookup filter_empty_conv)
next
  case (Cons v vs)
  then have "k \<in> f ` set xs" by (metis (mono_tags, lifting) Nil_is_map_conv filter_False image_eqI list.distinct(1))
  with Cons show ?thesis by (simp add: group_by_def fold_dict_append_lookup)
qed

lemma distinct_group_by [simp]: "distinct (map fst (group_by f g xs))"
proof -
  have "distinct (map fst d) \<Longrightarrow> distinct (map fst (fold (\<lambda>x. dict_append (f x) (g x)) xs d))" for d
    by (induction xs arbitrary: d) (simp_all add: distinct_dict_append)
  then show ?thesis by (simp add: group_by_def)
qed

lemma set_group_by:
  "set (group_by f g xs) = (\<lambda>k. (k, map g (filter (\<lambda>x. f x = k) xs))) ` f ` set xs"
proof (rule set_eqI)
  fix p :: "'a \<times> 'b list"
  obtain k vs where p: "p = (k, vs)" by (cases p)
  have "(k, vs) \<in> set (group_by f g xs) \<longleftrightarrow> map_of (group_by f g xs) k = Some vs"
    by (simp add: map_of_eq_Some_iff)
  with p show "p \<in> set (group_by f g xs) \<longleftrightarrow>
      p \<in> (\<lambda>k. (k, map g (filter (\<lambda>x. f x = k) xs))) ` f ` set xs"
    by (auto simp: group_by_lookup image_iff)
qed

lemma fst_set_group_by [simp]: "fst ` set (group_by f g xs) = f ` set xs"
  by (simp add: set_group_by image_image)

text \<open>Grouping commutes with a function on the grouped values.\<close>

lemma update_map_values:
  "AList.update k (h v) (map (\<lambda>(k, v). (k, h v)) d) = map (\<lambda>(k, v). (k, h v)) (AList.update k v d)"
  by (induction d) auto

lemma dict_append_map:
  "dict_append k (h v) (map (\<lambda>(k, vs). (k, map h vs)) d) = map (\<lambda>(k, vs). (k, map h vs)) (dict_append k v d)"
proof -
  have "map_of (map (\<lambda>(k, vs). (k, map h vs)) d) k = map_option (map h) (map_of d k)"
    by (simp add: map_of_map)
  then show ?thesis
    by (cases "map_of d k") (simp_all add: dict_append_def flip: update_map_values)
qed

lemma group_by_map:
  "group_by f (\<lambda>x. h (g x)) xs = map (\<lambda>(k, vs). (k, map h vs)) (group_by f g xs)"
proof -
  have "fold (\<lambda>x. dict_append (f x) (h (g x))) xs (map (\<lambda>(k, vs). (k, map h vs)) d) =
      map (\<lambda>(k, vs). (k, map h vs)) (fold (\<lambda>x. dict_append (f x) (g x)) xs d)" for d
    by (induction xs arbitrary: d) (simp_all add: dict_append_map)
  from this [of "[]"] show ?thesis by (simp add: group_by_def)
qed

lemma dict_of_lookup [dict_simps]:
  "map_of (dict_of f g xs) = map_of (rev (map (\<lambda>x. (f x, g x)) xs))"
proof -
  have "map_of (fold (\<lambda>x. AList.update (f x) (g x)) xs d) =
      map_of d ++ map_of (rev (map (\<lambda>x. (f x, g x)) xs))" for d
    by (induction xs arbitrary: d) (auto simp: update_conv')
  then show ?thesis by (simp add: dict_of_def)
qed

lemma distinct_dict_of [simp]: "distinct (map fst (dict_of f g xs))"
proof -
  have "distinct (map fst d) \<Longrightarrow>
      distinct (map fst (fold (\<lambda>x. AList.update (f x) (g x)) xs d))" for d
    by (induction xs arbitrary: d) (simp_all add: distinct_update)
  then show ?thesis by (simp add: dict_of_def)
qed

lemma dict_of_keys [simp]: "fst ` set (dict_of f g xs) = f ` set xs"
proof -
  have "dom (map_of (dict_of f g xs)) = f ` set xs"
    by (simp add: dict_of_lookup dom_map_of_conv_image_fst image_image)
  then show ?thesis by (simp add: dom_map_of_conv_image_fst)
qed

lemma length_dict_of_le: "length (dict_of f g xs) \<le> length xs"
proof -
  have "length (dict_of f g xs) = card (fst ` set (dict_of f g xs))"
    using distinct_card [OF distinct_dict_of, of f g xs] by simp
  also have "\<dots> \<le> length xs"
    by (simp add: card_image_le [of "set xs" f, THEN order_trans] card_length)
  finally show ?thesis .
qed

lemma length_dict_of_iff: "length (dict_of f g xs) = length xs \<longleftrightarrow> distinct (map f xs)"
proof -
  have "length (dict_of f g xs) = card (set (map f xs))"
    using distinct_card [OF distinct_dict_of, of f g xs] by simp
  then show ?thesis by (metis card_distinct distinct_card length_map)
qed

lemma dict_of_distinct_lookup:
  "distinct (map f xs) \<Longrightarrow> x \<in> set xs \<Longrightarrow> map_of (dict_of f g xs) (f x) = Some (g x)"
proof -
  assume d: "distinct (map f xs)" and x: "x \<in> set xs"
  have "distinct (map fst (rev (map (\<lambda>x. (f x, g x)) xs)))"
    using d by (simp add: comp_def flip: rev_map)
  moreover have "(f x, g x) \<in> set (rev (map (\<lambda>x. (f x, g x)) xs))" using x by simp
  ultimately show ?thesis by (simp add: dict_of_lookup map_of_eq_Some_iff)
qed

lemma dict_of_Some_iff:
  "map_of (dict_of f g xs) k = Some v \<Longrightarrow> \<exists>x \<in> set xs. f x = k \<and> g x = v"
  by (auto simp: dict_of_lookup dest!: map_of_SomeD)

lemma dict_of_distinct_iff:
  "distinct (map f xs) \<Longrightarrow>
    map_of (dict_of f g xs) k = Some v \<longleftrightarrow> (\<exists>x. x \<in> set xs \<and> f x = k \<and> g x = v)"
  using dict_of_distinct_lookup [of f xs _ g] dict_of_Some_iff [of f g xs k v] by fastforce

lemma dict_of_snoc [dict_simps]:
  "map_of (dict_of f g (xs @ [x])) = (map_of (dict_of f g xs))(f x \<mapsto> g x)"
  by (simp add: dict_of_lookup)

lemma option_eqI: "(\<And>v. a = Some v \<longleftrightarrow> b = Some v) \<Longrightarrow> a = b"
  by (cases a; cases b) auto

section \<open>Maxima with a default\<close>

definition max_default :: "'a::linorder \<Rightarrow> 'a list \<Rightarrow> 'a" where
  "max_default d xs = (case xs of [] \<Rightarrow> d | y # ys \<Rightarrow> fold max ys y)"

lemma max_default_Max: "xs \<noteq> [] \<Longrightarrow> max_default d xs = Max (set xs)"
  by (cases xs) (simp_all add: max_default_def Max.set_eq_fold flip: list.set(2))

lemma max_default_le_iff:
  "d \<le> b \<Longrightarrow> max_default d xs \<le> b \<longleftrightarrow> (\<forall>x\<in>set xs. x \<le> b)"
  by (cases "xs = []") (simp_all add: max_default_Max, simp add: max_default_def)

lemma max_default_ge: "x \<in> set xs \<Longrightarrow> x \<le> max_default d xs"
  by (cases "xs = []") (simp_all add: max_default_Max)

lemma max_default_in: "xs \<noteq> [] \<Longrightarrow> max_default d xs \<in> set xs"
  by (simp add: max_default_Max)

section \<open>Sorting and counting\<close>

lemma concat_map_Nil_iff: "concat (map f xs) = [] \<longleftrightarrow> (\<forall>x \<in> set xs. f x = [])"
  by (induction xs) auto

lemma concat_map_if_Nil_iff: "concat (map (\<lambda>x. if P x then [f x] else []) xs) = [] \<longleftrightarrow> (\<forall>x \<in> set xs. \<not> P x)"
  by (induction xs) auto

lemma card_nth_filter: "card {i. i < length xs \<and> P (xs ! i)} = length (filter P xs)"
  by (simp add: length_filter_conv_card)

lemma filter_sort_length: "length (filter P (sort_key f xs)) = length (filter P xs)"
  by (metis mset_filter mset_sort size_mset)

lemma length_filter_mono: "(\<And>x. x \<in> set xs \<Longrightarrow> P x \<Longrightarrow> Q x) \<Longrightarrow> length (filter P xs) \<le> length (filter Q xs)"
  by (induction xs) auto

lemma filter_key_distinct:
  "distinct (map f xs) \<Longrightarrow> x \<in> set xs \<Longrightarrow> filter (\<lambda>y. f y = f x) xs = [x]"
proof (induction xs)
  case (Cons y ys)
  show ?case
  proof (cases "f y = f x")
    case True
    then have "\<forall>z \<in> set ys. f z \<noteq> f x"
      using Cons.prems(1) by (metis distinct.simps(2) image_eqI list.simps(9) set_map)
    then show ?thesis using Cons.prems True by (auto simp: filter_empty_conv)
  next
    case False
    then show ?thesis using Cons by auto
  qed
qed simp

text \<open>A key is injective on a list exactly when no value of it has two elements.\<close>

lemma distinct_map_iff_classes:
  "distinct (map f xs) \<longleftrightarrow> (\<forall>k \<in> f ` set xs. length (filter (\<lambda>x. f x = k) xs) \<le> 1)"
proof
  assume "distinct (map f xs)"
  then show "\<forall>k \<in> f ` set xs. length (filter (\<lambda>x. f x = k) xs) \<le> 1"
    by (auto simp: filter_key_distinct)
next
  show "\<forall>k \<in> f ` set xs. length (filter (\<lambda>x. f x = k) xs) \<le> 1 \<Longrightarrow> distinct (map f xs)"
  proof (induction xs)
    case (Cons x xs)
    have "length (filter (\<lambda>y. f y = f x) xs) = 0" using Cons.prems by force
    then have "f x \<notin> f ` set xs" by (force simp: filter_empty_conv)
    moreover have "\<forall>k \<in> f ` set xs. length (filter (\<lambda>x. f x = k) xs) \<le> 1"
      using Cons.prems by (metis (no_types, lifting) filter.simps(2) image_subset_iff le_Suc_eq
          le_SucI length_Cons list.set_intros(2) not_less_eq_eq image_eqI imageE)
    ultimately show ?case using Cons.IH by simp
  qed simp
qed

lemma sum_list_filter_count:
  "sum_list (map (\<lambda>x. if P x then 1 else (0::int)) xs) = int (length (filter P xs))"
  by (induction xs) auto

end
