(* ===== verification/Contract.thy ===== *)
theory Contract
  imports Prelude
begin

text \<open>
  The event contract shared by every component: the JSON object of one seller operation.
  \<open>body\<close> is such an object as a program reads it, any field possibly absent; \<open>event\<close> is one
  as the generators of \<open>experiments/run.py\<close> (\<open>run_case\<close>) and
  \<open>experiments/isolation/trace.py\<close> (\<open>build\<close>) write it, with every field but the padding.
\<close>

record body =
  b_eventId :: "string option"
  b_runId :: "string option"
  b_sellerId :: "string option"
  b_orderId :: "int option"
  b_sequence :: "int option"
  b_operation :: "string option"
  b_occurredAt :: "int option"
  b_schemaVersion :: "int option"
  b_quantity :: "int option"
  b_price :: "rat option"
  b_padding :: "string option"

record event =
  ev_eventId :: string
  ev_runId :: string
  ev_sellerId :: string
  ev_orderId :: int
  ev_sequence :: int
  ev_operation :: string
  ev_occurredAt :: int
  ev_schemaVersion :: int
  ev_quantity :: int
  ev_price :: rat
  ev_padding :: "string option"

definition body_of :: "event \<Rightarrow> body" where
  "body_of e = \<lparr>b_eventId = Some (ev_eventId e), b_runId = Some (ev_runId e),
     b_sellerId = Some (ev_sellerId e), b_orderId = Some (ev_orderId e), b_sequence = Some (ev_sequence e),
     b_operation = Some (ev_operation e), b_occurredAt = Some (ev_occurredAt e),
     b_schemaVersion = Some (ev_schemaVersion e), b_quantity = Some (ev_quantity e),
     b_price = Some (ev_price e), b_padding = ev_padding e\<rparr>"

lemma body_of_inj: "body_of e = body_of e' \<Longrightarrow> e = e'"
  by (simp add: body_of_def)

definition event_order :: "event \<Rightarrow> string \<times> int" where
  "event_order e = (ev_sellerId e, ev_orderId e)"

text \<open>An event for concrete runs.\<close>

definition sample_event :: "string \<Rightarrow> int \<Rightarrow> string \<Rightarrow> event" where
  "sample_event key sq oper = \<lparr>ev_eventId = key, ev_runId = ''r'', ev_sellerId = ''s'', ev_orderId = 1,
     ev_sequence = sq, ev_operation = oper, ev_occurredAt = 1, ev_schemaVersion = 1, ev_quantity = 2,
     ev_price = 3, ev_padding = None\<rparr>"

end
