(* ===== verification/Ledger.thy ===== *)
theory Ledger
  imports Contract
begin

text \<open>
  The seller API mock's ledger, \<open>experiments/mock-partner-api/server.py\<close>: class \<open>Ledger\<close>
  (in-memory decision state, SQLite tables, the group-committing writer) and the order branch of
  \<open>Handler.do_POST\<close>. Memory, queue and tables are the record \<open>server\<close>; each critical
  section of the handler is one function on it, so that \<open>Ledger_System\<close> can interleave them and
  \<open>serve\<close> can run them in a row.

  A request body is the JSON object of the event contract: each field is present with its type or
  absent (\<open>None\<close>), and reading an absent field raises \<open>KeyError\<close>. \<open>json.dumps\<close> of a body is
  represented by the body itself, so \<open>json.loads(prior) != data\<close> is inequality of bodies. The
  clock, the response delay and failures of SQLite itself are arguments.
\<close>

section \<open>Data\<close>

record policy =
  p_delayMs :: "int option"
  p_failureCount :: "int option"
  p_idempotent :: "bool option"
  p_dropResponse :: "bool option"

definition no_policy :: policy where
  "no_policy = \<lparr>p_delayMs = None, p_failureCount = None, p_idempotent = None, p_dropResponse = None\<rparr>"

definition get_or :: "'a \<Rightarrow> 'a option \<Rightarrow> 'a" where
  "get_or d v = (case v of None \<Rightarrow> d | Some x \<Rightarrow> x)"

lemma get_or_simps [simp]: "get_or d None = d" "get_or d (Some x) = x"
  by (simp_all add: get_or_def)

text \<open>The three tables of \<open>LEDGER_SCHEMA\<close>.\<close>

record effect_row =
  effect_index :: int
  er_event_id :: string
  er_seller_id :: string
  er_order_id :: int
  er_seq :: int
  er_operation :: string
  er_quantity :: int
  er_price :: rat
  er_occurred_at :: int
  er_effect_at :: int
  er_payload :: body

record attempt_row =
  ar_id :: int
  ar_event_id :: string
  ar_seller_id :: string
  ar_order_id :: int
  ar_seq :: int
  ar_start_at :: int
  ar_end_at :: "int option"
  ar_status :: "int option"
  ar_response_lost :: "int option"
  ar_instance :: "string option"

record order_row =
  or_seller_id :: string
  or_order_id :: int
  or_seq :: int
  or_operation :: string
  or_quantity :: int
  or_price :: rat

record tables =
  t_effects :: "effect_row list"
  t_attempts :: "attempt_row list"
  t_orders :: "order_row list"

definition empty_tables :: tables where
  "empty_tables = \<lparr>t_effects = [], t_attempts = [], t_orders = []\<rparr>"

datatype stmt =
    InsertAttempt attempt_row
  | InsertEffect effect_row
  | UpsertOrder order_row
  | UpdateAttempt int int int int  \<comment> \<open>end_at, status, response_lost, id\<close>

record ledger =
  effects :: "string \<rightharpoonup> body"
  orders :: "string \<times> int \<rightharpoonup> int"
  attempt_counts :: "string \<Rightarrow> int"
  next_attempt :: int
  next_effect :: int
  active :: "string \<Rightarrow> int"

text \<open>A queue item is a list of statements with the ticket of its \<open>done\<close> record, or the
  \<open>None\<close> that stops the writer.\<close>

datatype item = Work "stmt list" nat | Stop

record server =
  mem :: ledger
  pending :: "item list"
  db :: tables
  outcomes :: "nat \<Rightarrow> py_error option option"  \<comment> \<open>\<open>done\<close>: unset, or set with its error\<close>
  next_ticket :: nat

section \<open>SQL statements\<close>

fun exec_stmt :: "stmt \<Rightarrow> tables \<Rightarrow> tables result" where
  "exec_stmt (InsertAttempt r) t =
     (if ar_id r \<in> set (map ar_id (t_attempts t)) then Inl IntegrityError
      else Inr (t\<lparr>t_attempts := t_attempts t @ [r]\<rparr>))"
| "exec_stmt (InsertEffect r) t =
     (if effect_index r \<in> set (map effect_index (t_effects t)) then Inl IntegrityError
      else Inr (t\<lparr>t_effects := t_effects t @ [r]\<rparr>))"
| "exec_stmt (UpsertOrder r) t =
     (let same = (\<lambda>x. or_seller_id x = or_seller_id r \<and> or_order_id x = or_order_id r)
      in Inr (t\<lparr>t_orders := (if list_ex same (t_orders t)
                then map (\<lambda>x. if same x then r else x) (t_orders t)
                else t_orders t @ [r])\<rparr>))"
| "exec_stmt (UpdateAttempt end_at status lost i) t =
     Inr (t\<lparr>t_attempts := map (\<lambda>x. if ar_id x = i
        then x\<lparr>ar_end_at := Some end_at, ar_status := Some status, ar_response_lost := Some lost\<rparr>
        else x) (t_attempts t)\<rparr>)"

fun exec_all :: "stmt list \<Rightarrow> tables \<Rightarrow> tables result" where
  "exec_all [] t = Inr t"
| "exec_all (s # ss) t = bindR (exec_stmt s t) (exec_all ss)"

section \<open>Opening a ledger\<close>

definition max_id :: "int list \<Rightarrow> int" where
  "max_id ids = max_default 0 ids"

definition open_ledger :: "tables \<Rightarrow> ledger" where
  "open_ledger t =
     \<lparr>effects = map_of (dict_of er_event_id er_payload (t_effects t)),
      orders = map_of (dict_of (\<lambda>r. (or_seller_id r, or_order_id r)) or_seq (t_orders t)),
      attempt_counts = (\<lambda>k. int (count_list (map ar_event_id (t_attempts t)) k)),
      next_attempt = max_id (map ar_id (t_attempts t)) + 1,
      next_effect = max_id (map effect_index (t_effects t)) + 1,
      active = (\<lambda>_. 0)\<rparr>"

definition open_server :: "tables \<Rightarrow> server" where
  "open_server t =
     \<lparr>mem = open_ledger t, pending = [], db = t, outcomes = (\<lambda>_. None), next_ticket = 0\<rparr>"

section \<open>The writer thread\<close>

definition enqueue :: "stmt list \<Rightarrow> server \<Rightarrow> nat \<times> server" where
  "enqueue ss S =
     (next_ticket S,
      S\<lparr>pending := pending S @ [Work ss (next_ticket S)], next_ticket := next_ticket S + 1\<rparr>)"

text \<open>What is queued joins the batch up to its room; a \<open>None\<close> goes back to the queue's end.\<close>

fun take_batch :: "nat \<Rightarrow> item list \<Rightarrow> (stmt list \<times> nat) list \<times> item list" where
  "take_batch 0 q = ([], q)"
| "take_batch (Suc n) [] = ([], [])"
| "take_batch (Suc n) (Stop # q) = ([], q @ [Stop])"
| "take_batch (Suc n) (Work ss k # q) = (let (b, r) = take_batch n q in ((ss, k) # b, r))"

definition GROUP_LIMIT :: nat where
  "GROUP_LIMIT = 2000"

definition mark :: "(stmt list \<times> nat) list \<Rightarrow> py_error option \<Rightarrow>
    (nat \<Rightarrow> py_error option option) \<Rightarrow> (nat \<Rightarrow> py_error option option)" where
  "mark batch err f = (\<lambda>k. if k \<in> snd ` set batch then Some err else f k)"

text \<open>One turn of \<open>write_loop\<close>; \<open>failure\<close> is an error of SQLite's own (a full disk). \<open>None\<close>:
  the thread waits on an empty queue or has returned.\<close>

definition write_turn :: "py_error option \<Rightarrow> server \<Rightarrow> server option" where
  "write_turn failure S =
     (case pending S of
        [] \<Rightarrow> None
      | Stop # _ \<Rightarrow> None
      | Work _ _ # _ \<Rightarrow>
         (let (batch, rest) = take_batch GROUP_LIMIT (pending S);
              result = (case failure of
                  Some e \<Rightarrow> Inl e
                | None \<Rightarrow> exec_all (concat (map fst batch)) (db S))
          in Some (case result of
               Inr t \<Rightarrow> S\<lparr>pending := rest, db := t, outcomes := mark batch None (outcomes S)\<rparr>
             | Inl e \<Rightarrow> S\<lparr>pending := rest, outcomes := mark batch (Some e) (outcomes S)\<rparr>)))"

section \<open>The critical sections of an order request\<close>

record request =
  r_body :: body
  r_key :: "string option"       \<comment> \<open>Idempotency-Key\<close>
  r_instance :: "string option"  \<comment> \<open>X-Instance\<close>

type_synonym controls = "string \<rightharpoonup> policy"

definition policy_for :: "controls \<Rightarrow> string \<Rightarrow> policy" where
  "policy_for c seller = get_or (get_or no_policy (c ''*'')) (c seller)"

text \<open>Before the first lock: \<open>Some (seller, key)\<close> when the key is the event ID, \<open>None\<close> for the
  400 answer.\<close>

definition orders_guard :: "request \<Rightarrow> (string \<times> string) option result" where
  "orders_guard r =
     bindR (need ''sellerId'' (b_sellerId (r_body r))) (\<lambda>seller.
     bindR (need ''eventId'' (b_eventId (r_body r))) (\<lambda>event.
       Inr (if r_key r \<noteq> Some event then None else Some (seller, event))))"

text \<open>First lock: \<open>(count, attempt)\<close> and the new memory.\<close>

definition admit :: "string \<Rightarrow> string \<Rightarrow> ledger \<Rightarrow> int \<times> int \<times> ledger" where
  "admit seller key L =
     (attempt_counts L key, next_attempt L,
      L\<lparr>active := (active L)(seller := active L seller + 1),
        attempt_counts := (attempt_counts L)(key := attempt_counts L key + 1),
        next_attempt := next_attempt L + 1\<rparr>)"

definition start_stmts ::
    "int \<Rightarrow> string \<Rightarrow> string \<Rightarrow> body \<Rightarrow> int \<Rightarrow> string option \<Rightarrow> stmt list result" where
  "start_stmts attempt key seller data start inst =
     bindR (need ''orderId'' (b_orderId data)) (\<lambda>oid.
     bindR (need ''sequence'' (b_sequence data)) (\<lambda>sq.
       Inr [InsertAttempt \<lparr>ar_id = attempt, ar_event_id = key, ar_seller_id = seller,
              ar_order_id = oid, ar_seq = sq, ar_start_at = start, ar_end_at = None,
              ar_status = None, ar_response_lost = None, ar_instance = inst\<rparr>]))"

definition effect_stmts ::
    "int \<Rightarrow> string \<Rightarrow> string \<Rightarrow> int \<Rightarrow> int \<Rightarrow> body \<Rightarrow> int \<Rightarrow> stmt list result" where
  "effect_stmts index key seller oid sq data effect_at =
     bindR (need ''operation'' (b_operation data)) (\<lambda>oper.
     bindR (need ''quantity'' (b_quantity data)) (\<lambda>qty.
     bindR (need ''price'' (b_price data)) (\<lambda>price.
     bindR (need ''occurredAt'' (b_occurredAt data)) (\<lambda>occ.
       Inr [InsertEffect \<lparr>effect_index = index, er_event_id = key, er_seller_id = seller,
              er_order_id = oid, er_seq = sq, er_operation = oper, er_quantity = qty,
              er_price = price, er_occurred_at = occ, er_effect_at = effect_at, er_payload = data\<rparr>,
            UpsertOrder \<lparr>or_seller_id = seller, or_order_id = oid, or_seq = sq,
              or_operation = oper, or_quantity = qty, or_price = price\<rparr>]))))"

definition next_seq :: "int option \<Rightarrow> int" where
  "next_seq state = (case state of None \<Rightarrow> 1 | Some s \<Rightarrow> if s = 0 then 1 else s + 1)"

record verdict =
  v_status :: int
  v_statements :: "stmt list"
  v_dropped :: bool
  v_prior :: bool   \<comment> \<open>\<open>prior is not None\<close>\<close>

text \<open>The end of the second lock: the attempt's update and the seller's active count.\<close>

definition conclude ::
    "policy \<Rightarrow> string \<Rightarrow> int \<Rightarrow> int \<Rightarrow> int \<Rightarrow> bool \<Rightarrow> int \<Rightarrow> stmt list \<Rightarrow> ledger \<Rightarrow>
     ledger \<times> verdict result" where
  "conclude pol seller cnt attempt end_at prior status ss L =
     (let dropped = (status = 200 \<and> get_or False (p_dropResponse pol) \<and> cnt = 0)
      in (L\<lparr>active := (active L)(seller := active L seller - 1)\<rparr>,
          Inr \<lparr>v_status = status,
               v_statements = ss @ [UpdateAttempt end_at status (if dropped then 1 else 0) attempt],
               v_dropped = dropped, v_prior = prior\<rparr>))"

text \<open>\<open>time.sleep(delayMs / 1000)\<close> between the two locks: a negative delay raises.\<close>

definition nap :: "policy \<Rightarrow> py_error option" where
  "nap pol = (if get_or 0 (p_delayMs pol) < 0 then Some ValueError else None)"

text \<open>Second lock: the decision. An exception leaves what was written to memory before it.\<close>

definition decide ::
    "policy \<Rightarrow> string \<Rightarrow> string \<Rightarrow> body \<Rightarrow> int \<Rightarrow> int \<Rightarrow> int \<Rightarrow> int \<Rightarrow> ledger \<Rightarrow>
     ledger \<times> verdict result" where
  "decide pol seller key data cnt attempt effect_at end_at L =
     (case b_orderId data of
        None \<Rightarrow> (L, Inl (KeyError ''orderId''))
      | Some oid \<Rightarrow>
         (let prior = effects L key; state = orders L (seller, oid);
              fin = conclude pol seller cnt attempt end_at (prior \<noteq> None)
          in if cnt < get_or 0 (p_failureCount pol) then fin 503 [] L
             else if prior \<noteq> None \<and> get_or True (p_idempotent pol)
             then (if prior \<noteq> Some data then fin 409 [] L else fin 200 [] L)
             else (case b_sequence data of
                None \<Rightarrow> (L, Inl (KeyError ''sequence''))
              | Some sq \<Rightarrow>
                 (if sq \<noteq> next_seq state then fin 409 [] L
                  else (let L' = L\<lparr>effects := (effects L)(key \<mapsto> data),
                                    orders := (orders L)((seller, oid) \<mapsto> sq),
                                    next_effect := next_effect L + 1\<rparr>
                        in case effect_stmts (next_effect L) key seller oid sq data effect_at of
                             Inl e \<Rightarrow> (L', Inl e)
                           | Inr ss \<Rightarrow> fin 200 ss L')))))"

datatype response =
    Reply int string bool bool  \<comment> \<open>status, eventId, accepted, duplicate\<close>
  | BadKey                      \<comment> \<open>400\<close>
  | ConnectionDropped
  | Raised py_error             \<comment> \<open>the handler thread ends with the exception\<close>
  | Blocked                     \<comment> \<open>waits for a commit that no writer will make\<close>

definition answer :: "string \<Rightarrow> verdict \<Rightarrow> response" where
  "answer key v =
     (if v_dropped v then ConnectionDropped
      else Reply (v_status v) key (v_status v = 200) (v_prior v))"

section \<open>One request on its own\<close>

record timing =
  t_start :: int
  t_effect :: int
  t_end :: int
  t_start_failure :: "py_error option"    \<comment> \<open>SQLite failing to commit the start record\<close>
  t_outcome_failure :: "py_error option"  \<comment> \<open>SQLite failing to commit the outcome\<close>

definition turn :: "py_error option \<Rightarrow> server \<Rightarrow> server" where
  "turn failure S = get_or S (write_turn failure S)"

definition await :: "nat \<Rightarrow> response \<Rightarrow> server \<Rightarrow> response" where
  "await k res S =
     (case outcomes S k of
        None \<Rightarrow> Blocked
      | Some None \<Rightarrow> res
      | Some (Some e) \<Rightarrow> Raised e)"

text \<open>The order branch of \<open>do_POST\<close> with no other request running: the idle writer takes a turn
  after each enqueue. The start record is not awaited.\<close>

definition serve :: "controls \<Rightarrow> timing \<Rightarrow> request \<Rightarrow> server \<Rightarrow> server \<times> response" where
  "serve c tm r S =
     (case orders_guard r of
        Inl e \<Rightarrow> (S, Raised e)
      | Inr None \<Rightarrow> (S, BadKey)
      | Inr (Some (seller, key)) \<Rightarrow>
         (let (cnt, attempt, L) = admit seller key (mem S); S1 = S\<lparr>mem := L\<rparr>
          in case start_stmts attempt key seller (r_body r) (t_start tm) (r_instance r) of
               Inl e \<Rightarrow> (S1, Raised e)
             | Inr ss \<Rightarrow>
                (let S2 = turn (t_start_failure tm) (snd (enqueue ss S1));
                     pol = policy_for c seller
                 in case nap pol of
                      Some e \<Rightarrow> (S2, Raised e)
                    | None \<Rightarrow>
                       (let (L', d) = decide pol seller key (r_body r) cnt attempt
                                        (t_effect tm) (t_end tm) (mem S2);
                            S3 = S2\<lparr>mem := L'\<rparr>
                        in case d of
                             Inl e \<Rightarrow> (S3, Raised e)
                           | Inr v \<Rightarrow>
                              (let (k, S4) = enqueue (v_statements v) S3;
                                   S5 = turn (t_outcome_failure tm) S4
                               in (S5, await k (answer key v) S5))))))"

fun serve_all :: "controls \<Rightarrow> (timing \<times> request) list \<Rightarrow> server \<Rightarrow> server \<times> response list" where
  "serve_all c [] S = (S, [])"
| "serve_all c ((tm, r) # rs) S =
     (let (S1, x) = serve c tm r S; (S2, xs) = serve_all c rs S1 in (S2, x # xs))"

text \<open>A contract event of one seller, for concrete runs.\<close>

definition sample_body :: "string \<Rightarrow> int \<Rightarrow> body" where
  "sample_body key sq = \<lparr>b_eventId = Some key, b_runId = Some ''run'', b_sellerId = Some ''slow'',
     b_orderId = Some 1, b_sequence = Some sq, b_operation = Some ''CREATE'', b_occurredAt = Some 1,
     b_schemaVersion = Some 1, b_quantity = Some 2, b_price = Some 101, b_padding = None\<rparr>"

definition sample_request :: "string \<Rightarrow> int \<Rightarrow> request" where
  "sample_request key sq = \<lparr>r_body = sample_body key sq, r_key = Some key, r_instance = None\<rparr>"

section \<open>Lemmas on the sections\<close>

lemma admit_simps [simp]:
  "fst (admit seller key L) = attempt_counts L key"
  "fst (snd (admit seller key L)) = next_attempt L"
  "effects (snd (snd (admit seller key L))) = effects L"
  "orders (snd (snd (admit seller key L))) = orders L"
  "next_effect (snd (snd (admit seller key L))) = next_effect L"
  "next_attempt (snd (snd (admit seller key L))) = next_attempt L + 1"
  "attempt_counts (snd (snd (admit seller key L))) =
     (attempt_counts L)(key := attempt_counts L key + 1)"
  by (simp_all add: admit_def)

lemma enqueue_simps [simp]:
  "fst (enqueue ss S) = next_ticket S"
  "mem (snd (enqueue ss S)) = mem S"
  "db (snd (enqueue ss S)) = db S"
  "outcomes (snd (enqueue ss S)) = outcomes S"
  "pending (snd (enqueue ss S)) = pending S @ [Work ss (next_ticket S)]"
  "next_ticket (snd (enqueue ss S)) = next_ticket S + 1"
  by (simp_all add: enqueue_def)

text \<open>Every result of a decision is one of: an exception, an unchanged ledger with a verdict, or
  a new effect. The last is the only one that writes effects and orders.\<close>

lemma decide_cases:
  assumes "decide pol seller key data cnt attempt effect_at end_at L = (L', d)"
  obtains
    (unchanged) "effects L' = effects L" "orders L' = orders L" "next_effect L' = next_effect L"
      "next_attempt L' = next_attempt L" "attempt_counts L' = attempt_counts L"
      "\<And>v r. d = Inr v \<Longrightarrow> InsertEffect r \<notin> set (v_statements v)"
      "\<And>v. d = Inr v \<Longrightarrow> v_status v = 200 \<Longrightarrow> v_prior v \<and> effects L key = Some data"
  | (effect) oid sq where "b_orderId data = Some oid" "b_sequence data = Some sq"
      "sq = next_seq (orders L (seller, oid))"
      "effects L key = None \<or> \<not> get_or True (p_idempotent pol)"
      "effects L' = (effects L)(key \<mapsto> data)" "orders L' = (orders L)((seller, oid) \<mapsto> sq)"
      "next_effect L' = next_effect L + 1"
      "next_attempt L' = next_attempt L" "attempt_counts L' = attempt_counts L"
      "\<And>v. d = Inr v \<Longrightarrow> v_status v = 200 \<and>
         (\<exists>r. InsertEffect r \<in> set (v_statements v) \<and> er_event_id r = key \<and> er_payload r = data \<and>
              er_seller_id r = seller \<and> er_order_id r = oid \<and> er_seq r = sq)"
proof (cases "b_orderId data")
  case None
  then show ?thesis using assms unchanged by (auto simp: decide_def)
next
  case (Some oid)
  define accepts where "accepts \<longleftrightarrow> \<not> cnt < get_or 0 (p_failureCount pol) \<and>
    (effects L key = None \<or> \<not> get_or True (p_idempotent pol)) \<and>
    b_sequence data = Some (next_seq (orders L (seller, oid)))"
  show ?thesis
  proof (cases accepts)
    case False
    then show ?thesis
      using assms Some
      by (intro unchanged)
        (auto simp: decide_def conclude_def Let_def accepts_def split: option.splits if_splits)
  next
    case True
    let ?sq = "next_seq (orders L (seller, oid))"
    let ?es = "effect_stmts (next_effect L) key seller oid ?sq data effect_at"
    show ?thesis
    proof (cases ?es)
      case (Inl e)
      then show ?thesis
        using assms Some True
        by (intro effect [of oid ?sq]) (auto simp: decide_def Let_def accepts_def)
    next
      case (Inr ss)
      then have "\<exists>r. InsertEffect r \<in> set ss \<and> er_event_id r = key \<and> er_payload r = data \<and>
          er_seller_id r = seller \<and> er_order_id r = oid \<and> er_seq r = ?sq"
        by (auto simp: effect_stmts_def bindR_Inr_iff)
      then show ?thesis
        using assms Some True Inr
        by (intro effect [of oid ?sq]) (auto simp: decide_def Let_def accepts_def conclude_def)
    qed
  qed
qed

section \<open>Lemmas on the tables\<close>

lemma exec_stmt_effects: "exec_stmt s t = Inr t' \<Longrightarrow> set (t_effects t) \<subseteq> set (t_effects t')"
  by (cases s) (auto simp: Let_def split: if_splits)

lemma exec_stmt_inserts: "exec_stmt (InsertEffect r) t = Inr t' \<Longrightarrow> r \<in> set (t_effects t')"
  by (auto split: if_splits)

lemma exec_all_effects: "exec_all ss t = Inr t' \<Longrightarrow> set (t_effects t) \<subseteq> set (t_effects t')"
  by (induction ss arbitrary: t) (auto simp: bindR_Inr_iff dest!: exec_stmt_effects)

lemma exec_all_inserts:
  "exec_all ss t = Inr t' \<Longrightarrow> InsertEffect r \<in> set ss \<Longrightarrow> r \<in> set (t_effects t')"
proof (induction ss arbitrary: t)
  case (Cons s ss)
  then obtain u where u: "exec_stmt s t = Inr u" "exec_all ss u = Inr t'"
    by (auto simp: bindR_Inr_iff)
  show ?case
  proof (cases "s = InsertEffect r")
    case True
    then show ?thesis using u exec_stmt_inserts exec_all_effects by blast
  next
    case False
    then show ?thesis using Cons u by auto
  qed
qed simp

text \<open>The effects table only grows, by the inserted rows in order.\<close>

fun effect_rows :: "stmt list \<Rightarrow> effect_row list" where
  "effect_rows [] = []"
| "effect_rows (InsertEffect r # ss) = r # effect_rows ss"
| "effect_rows (_ # ss) = effect_rows ss"

lemma effect_rows_append [simp]: "effect_rows (xs @ ys) = effect_rows xs @ effect_rows ys"
  by (induction xs rule: effect_rows.induct) simp_all

lemma exec_all_effect_rows: "exec_all ss t = Inr t' \<Longrightarrow> t_effects t' = t_effects t @ effect_rows ss"
proof (induction ss arbitrary: t)
  case (Cons s ss)
  then obtain u where "exec_stmt s t = Inr u" "t_effects t' = t_effects u @ effect_rows ss"
    by (auto simp: bindR_Inr_iff)
  then show ?case by (cases s) (auto simp: Let_def split: if_splits)
qed simp

lemma exec_all_append: "exec_all (xs @ ys) t = bindR (exec_all xs t) (exec_all ys)"
proof (induction xs arbitrary: t)
  case (Cons x xs)
  then show ?case by (cases "exec_stmt x t") simp_all
qed simp

end
