(* ===== verification/Ledger_System.thy ===== *)
theory Ledger_System
  imports Ledger
begin

text \<open>
  The seller API mock under concurrent requests: a transition system whose steps are the atomic
  sections of \<open>Handler.do_POST\<close> for \<open>/orders\<close> and \<open>/control\<close> and the turns of
  \<open>Ledger.write_loop\<close>, in any interleaving. Each handler thread is at one of five points
  (\<open>thread\<close>). \<open>history\<close> is an observer's variable: the effects in the order the second lock
  decided them; no step reads it.
\<close>

section \<open>Threads and steps\<close>

record call =
  c_seller :: string
  c_key :: string
  c_data :: body
  c_policy :: policy
  c_instance :: "string option"
  c_start :: int
  c_cnt :: int
  c_attempt :: int

datatype thread =
    Admitted call            \<comment> \<open>left the first lock\<close>
  | Waiting call             \<comment> \<open>start record queued; sleeping for the policy's delay\<close>
  | Judged call verdict      \<comment> \<open>left the second lock\<close>
  | Writing call verdict nat \<comment> \<open>outcome queued; waits for its commit\<close>
  | Finished string body response

type_synonym decision = "string \<times> string \<times> int \<times> int \<times> body"  \<comment> \<open>key, seller, order, sequence, body\<close>

record sys =
  srv :: server
  ctl :: controls
  threads :: "nat \<rightharpoonup> thread"
  history :: "decision list"

datatype label =
    Arrive nat request int          \<comment> \<open>a new handler thread: guard, policy, first lock\<close>
  | QueueStart nat
  | Decide nat int int
  | QueueOutcome nat
  | WriterTurn "py_error option"
  | Respond nat
  | SetControl string policy

definition init_sys :: sys where
  "init_sys = \<lparr>srv = open_server empty_tables, ctl = Map.empty, threads = Map.empty, history = []\<rparr>"

definition set_thread :: "nat \<Rightarrow> thread \<Rightarrow> sys \<Rightarrow> sys" where
  "set_thread i t s = s\<lparr>threads := (threads s)(i \<mapsto> t)\<rparr>"

definition set_mem :: "ledger \<Rightarrow> sys \<Rightarrow> sys" where
  "set_mem L s = s\<lparr>srv := (srv s)\<lparr>mem := L\<rparr>\<rparr>"

text \<open>What the second lock added to the effects, read off the memory before and after.\<close>

definition decided :: "call \<Rightarrow> ledger \<Rightarrow> ledger \<Rightarrow> decision list" where
  "decided c L L' =
     (if next_effect L' = next_effect L then []
      else [(c_key c, c_seller c, get_or 0 (b_orderId (c_data c)), get_or 0 (b_sequence (c_data c)), c_data c)])"

fun sys_step :: "label \<Rightarrow> sys \<Rightarrow> sys option" where
  "sys_step (Arrive i r start) s =
     (if threads s i \<noteq> None then None
      else case orders_guard r of
        Inl e \<Rightarrow> Some (set_thread i (Finished (get_or [] (r_key r)) (r_body r) (Raised e)) s)
      | Inr None \<Rightarrow> Some (set_thread i (Finished (get_or [] (r_key r)) (r_body r) BadKey) s)
      | Inr (Some (seller, key)) \<Rightarrow>
         (let (cnt, attempt, L) = admit seller key (mem (srv s))
          in Some (set_mem L (set_thread i (Admitted
               \<lparr>c_seller = seller, c_key = key, c_data = r_body r, c_policy = policy_for (ctl s) seller,
                c_instance = r_instance r, c_start = start, c_cnt = cnt, c_attempt = attempt\<rparr>) s))))"
| "sys_step (QueueStart i) s =
     (case threads s i of
        Some (Admitted c) \<Rightarrow>
         (case start_stmts (c_attempt c) (c_key c) (c_seller c) (c_data c) (c_start c) (c_instance c) of
            Inl e \<Rightarrow> Some (set_thread i (Finished (c_key c) (c_data c) (Raised e)) s)
          | Inr ss \<Rightarrow> Some (set_thread i
              (case nap (c_policy c) of
                 Some e \<Rightarrow> Finished (c_key c) (c_data c) (Raised e)
               | None \<Rightarrow> Waiting c) (s\<lparr>srv := snd (enqueue ss (srv s))\<rparr>)))
      | _ \<Rightarrow> None)"
| "sys_step (Decide i effect_at end_at) s =
     (case threads s i of
        Some (Waiting c) \<Rightarrow>
         (let L = mem (srv s);
              (L', d) = decide (c_policy c) (c_seller c) (c_key c) (c_data c) (c_cnt c) (c_attempt c)
                          effect_at end_at L;
              s' = (set_mem L' s)\<lparr>history := history s @ decided c L L'\<rparr>
          in Some (set_thread i
               (case d of Inl e \<Rightarrow> Finished (c_key c) (c_data c) (Raised e) | Inr v \<Rightarrow> Judged c v) s'))
      | _ \<Rightarrow> None)"
| "sys_step (QueueOutcome i) s =
     (case threads s i of
        Some (Judged c v) \<Rightarrow>
         (let (k, S) = enqueue (v_statements v) (srv s)
          in Some (set_thread i (Writing c v k) (s\<lparr>srv := S\<rparr>)))
      | _ \<Rightarrow> None)"
| "sys_step (WriterTurn failure) s =
     (case write_turn failure (srv s) of None \<Rightarrow> None | Some S \<Rightarrow> Some (s\<lparr>srv := S\<rparr>))"
| "sys_step (Respond i) s =
     (case threads s i of
        Some (Writing c v k) \<Rightarrow>
         (case outcomes (srv s) k of
            None \<Rightarrow> None
          | Some err \<Rightarrow> Some (set_thread i (Finished (c_key c) (c_data c)
              (case err of None \<Rightarrow> answer (c_key c) v | Some e \<Rightarrow> Raised e)) s))
      | _ \<Rightarrow> None)"
| "sys_step (SetControl seller p) s = Some (s\<lparr>ctl := (ctl s)(seller \<mapsto> p)\<rparr>)"

text \<open>The states reached by steps that satisfy \<open>ok\<close>.\<close>

inductive reachable :: "(label \<Rightarrow> bool) \<Rightarrow> sys \<Rightarrow> bool" for ok where
  init: "reachable ok init_sys"
| step: "reachable ok s \<Longrightarrow> ok l \<Longrightarrow> sys_step l s = Some s' \<Longrightarrow> reachable ok s'"

fun run_labels :: "label list \<Rightarrow> sys \<Rightarrow> sys option" where
  "run_labels [] s = Some s"
| "run_labels (l # ls) s = (case sys_step l s of None \<Rightarrow> None | Some s' \<Rightarrow> run_labels ls s')"

lemma run_labels_reachable:
  "reachable ok s \<Longrightarrow> list_all ok ls \<Longrightarrow> run_labels ls s = Some s' \<Longrightarrow> reachable ok s'"
  by (induction ls arbitrary: s) (auto split: option.splits intro: reachable.step)

definition any_label :: "label \<Rightarrow> bool" where
  "any_label l = True"

text \<open>No control switches the seller's idempotency off.\<close>

fun idempotent_label :: "label \<Rightarrow> bool" where
  "idempotent_label (SetControl _ p) = get_or True (p_idempotent p)"
| "idempotent_label _ = True"

text \<open>Every commit that SQLite is asked for succeeds.\<close>

fun reliable_label :: "label \<Rightarrow> bool" where
  "reliable_label (WriterTurn f) = (f = None)"
| "reliable_label _ = True"

section \<open>Invariants by induction over the steps\<close>

locale step_invariant =
  fixes ok :: "label \<Rightarrow> bool" and inv :: "sys \<Rightarrow> bool"
  assumes inv_init: "inv init_sys"
    and inv_step: "inv s \<Longrightarrow> ok l \<Longrightarrow> sys_step l s = Some s' \<Longrightarrow> inv s'"
begin

lemma reachable_inv: "reachable ok s \<Longrightarrow> inv s"
  by (induction rule: reachable.induct) (auto intro: inv_init inv_step)

end

lemma write_turn_mem: "write_turn f S = Some S' \<Longrightarrow> mem S' = mem S"
  by (auto simp: write_turn_def Let_def split: list.splits item.splits prod.splits sum.splits)

text \<open>Only the second lock changes effects and orders, and it adds one decision to the history
  when it does.\<close>

definition quiet :: "sys \<Rightarrow> sys \<Rightarrow> bool" where
  "quiet s s' \<longleftrightarrow> history s' = history s \<and> effects (mem (srv s')) = effects (mem (srv s)) \<and>
     orders (mem (srv s')) = orders (mem (srv s)) \<and> next_effect (mem (srv s')) = next_effect (mem (srv s))"

definition adds_effect :: "sys \<Rightarrow> sys \<Rightarrow> call \<Rightarrow> int \<Rightarrow> int \<Rightarrow> bool" where
  "adds_effect s s' c oid sq \<longleftrightarrow>
     sq = next_seq (orders (mem (srv s)) (c_seller c, oid)) \<and>
     (effects (mem (srv s)) (c_key c) = None \<or> \<not> get_or True (p_idempotent (c_policy c))) \<and>
     history s' = history s @ [(c_key c, c_seller c, oid, sq, c_data c)] \<and>
     effects (mem (srv s')) = (effects (mem (srv s)))(c_key c \<mapsto> c_data c) \<and>
     orders (mem (srv s')) = (orders (mem (srv s)))((c_seller c, oid) \<mapsto> sq) \<and>
     next_effect (mem (srv s')) = next_effect (mem (srv s)) + 1"

lemma sys_step_effect:
  assumes "sys_step l s = Some s'"
  shows "quiet s s' \<or> (\<exists>i c oid sq. threads s i = Some (Waiting c) \<and> adds_effect s s' c oid sq)"
proof (cases l)
  case (Arrive i r start)
  then show ?thesis
    using assms by (auto simp: quiet_def set_thread_def set_mem_def admit_def Let_def
        split: if_splits sum.splits option.splits prod.splits)
next
  case (QueueStart i)
  then show ?thesis
    using assms by (auto simp: quiet_def set_thread_def split: option.splits thread.splits sum.splits)
next
  case (Decide i effect_at end_at)
  then obtain c where c: "threads s i = Some (Waiting c)"
    using assms by (auto split: option.splits thread.splits)
  obtain L' d where d: "decide (c_policy c) (c_seller c) (c_key c) (c_data c) (c_cnt c) (c_attempt c)
      effect_at end_at (mem (srv s)) = (L', d)" by fastforce
  have s': "mem (srv s') = L'" "history s' = history s @ decided c (mem (srv s)) L'"
    using assms Decide c d by (auto simp: set_thread_def set_mem_def)
  from d show ?thesis
  proof (cases rule: decide_cases)
    case unchanged
    then show ?thesis using s' by (simp add: quiet_def decided_def)
  next
    case (effect oid sq)
    then have "adds_effect s s' c oid sq" using s' by (simp add: adds_effect_def decided_def)
    then show ?thesis using c by blast
  qed
next
  case (QueueOutcome i)
  then show ?thesis
    using assms by (auto simp: quiet_def set_thread_def enqueue_def split: option.splits thread.splits)
next
  case (WriterTurn f)
  then show ?thesis
    using assms by (auto simp: quiet_def split: option.splits dest: write_turn_mem)
next
  case (Respond i)
  then show ?thesis
    using assms by (auto simp: quiet_def set_thread_def split: option.splits thread.splits)
next
  case (SetControl seller p)
  then show ?thesis using assms by (auto simp: quiet_def)
qed

section \<open>Order of the effects\<close>

definition order_seqs :: "decision list \<Rightarrow> string \<Rightarrow> int \<Rightarrow> int list" where
  "order_seqs h seller oid =
     map (\<lambda>(_, _, _, sq, _). sq) (filter (\<lambda>(_, s, x, _, _). s = seller \<and> x = oid) h)"

lemma order_seqs_simps [simp]:
  "order_seqs [] seller oid = []"
  "order_seqs (h @ [(k, s, x, sq, d)]) seller oid =
     order_seqs h seller oid @ (if s = seller \<and> x = oid then [sq] else [])"
  by (simp_all add: order_seqs_def)

definition seq_inv :: "sys \<Rightarrow> bool" where
  "seq_inv s \<longleftrightarrow> (\<forall>seller oid.
     order_seqs (history s) seller oid = map int [1 ..< length (order_seqs (history s) seller oid) + 1] \<and>
     orders (mem (srv s)) (seller, oid) =
       (if order_seqs (history s) seller oid = [] then None
        else Some (int (length (order_seqs (history s) seller oid)))))"

lemma seq_inv_adds:
  assumes inv: "seq_inv s" and eff: "adds_effect s s' c oid sq"
  shows "seq_inv s'"
proof -
  let ?old = "order_seqs (history s) (c_seller c) oid"
  have sq: "sq = int (length ?old) + 1"
    using inv eff by (auto simp: seq_inv_def adds_effect_def next_seq_def)
  have "order_seqs (history s') seller x = map int [1 ..< length (order_seqs (history s') seller x) + 1] \<and>
     orders (mem (srv s')) (seller, x) =
       (if order_seqs (history s') seller x = [] then None
        else Some (int (length (order_seqs (history s') seller x))))" for seller x
  proof (cases "seller = c_seller c \<and> x = oid")
    case True
    then have "order_seqs (history s') seller x = ?old @ [sq]"
      using eff by (simp add: adds_effect_def)
    moreover have "?old = map int [1 ..< length ?old + 1]" using inv by (simp add: seq_inv_def)
    ultimately show ?thesis using True sq eff by (simp add: adds_effect_def)
  next
    case False
    then have "order_seqs (history s') seller x = order_seqs (history s) seller x"
      using eff by (auto simp: adds_effect_def)
    then show ?thesis using inv False eff by (auto simp: seq_inv_def adds_effect_def)
  qed
  then show ?thesis by (simp add: seq_inv_def)
qed

interpretation seq: step_invariant any_label seq_inv
proof
  show "seq_inv init_sys"
    by (simp add: seq_inv_def init_sys_def open_server_def open_ledger_def empty_tables_def dict_of_def)
  fix s l s' assume inv: "seq_inv s" and l: "sys_step l s = Some s'"
  from sys_step_effect [OF l] show "seq_inv s'"
  proof
    assume "quiet s s'"
    then show ?thesis using inv by (simp add: quiet_def seq_inv_def)
  qed (use inv seq_inv_adds in blast)
qed

section \<open>One effect per event\<close>

primrec thread_policy_ok :: "thread \<Rightarrow> bool" where
  "thread_policy_ok (Admitted c) = get_or True (p_idempotent (c_policy c))"
| "thread_policy_ok (Waiting c) = get_or True (p_idempotent (c_policy c))"
| "thread_policy_ok (Judged c v) = True"
| "thread_policy_ok (Writing c v k) = True"
| "thread_policy_ok (Finished k d res) = True"

definition once_inv :: "sys \<Rightarrow> bool" where
  "once_inv s \<longleftrightarrow> distinct (map fst (history s)) \<and>
     dom (effects (mem (srv s))) = set (map fst (history s)) \<and>
     (\<forall>i t. threads s i = Some t \<longrightarrow> thread_policy_ok t) \<and>
     (\<forall>seller p. ctl s seller = Some p \<longrightarrow> get_or True (p_idempotent p))"

lemma policy_for_idempotent:
  "\<forall>seller p. c seller = Some p \<longrightarrow> get_or True (p_idempotent p) \<Longrightarrow>
    get_or True (p_idempotent (policy_for c seller))"
  by (cases "c seller"; cases "c ''*''") (auto simp: policy_for_def no_policy_def)

lemma threads_policies_step:
  assumes "once_inv s" "idempotent_label l" "sys_step l s = Some s'"
  shows "(\<forall>i t. threads s' i = Some t \<longrightarrow> thread_policy_ok t) \<and>
    (\<forall>seller p. ctl s' seller = Some p \<longrightarrow> get_or True (p_idempotent p))"
proof (cases l)
  case (Arrive i r start)
  then show ?thesis
    using assms by (auto simp: once_inv_def set_thread_def set_mem_def admit_def Let_def policy_for_idempotent
        split: if_splits sum.splits option.splits prod.splits)
next
  case (Decide i a b)
  then show ?thesis
    using assms by (auto simp: once_inv_def set_thread_def set_mem_def Let_def
        split: if_splits sum.splits option.splits thread.splits prod.splits)
next
  case (QueueStart i)
  then show ?thesis
    using assms by (fastforce simp: once_inv_def set_thread_def
        split: if_splits sum.splits option.splits thread.splits)
qed (use assms in \<open>auto simp: once_inv_def set_thread_def enqueue_def
        split: if_splits option.splits thread.splits\<close>)

interpretation once: step_invariant idempotent_label once_inv
proof
  show "once_inv init_sys"
    by (simp add: once_inv_def init_sys_def open_server_def open_ledger_def empty_tables_def dict_of_def)
  fix s l s' assume inv: "once_inv s" and l: "idempotent_label l" "sys_step l s = Some s'"
  from sys_step_effect [OF l(2)] have "distinct (map fst (history s')) \<and>
      dom (effects (mem (srv s'))) = set (map fst (history s'))"
  proof
    assume "quiet s s'"
    then show ?thesis using inv by (simp add: quiet_def once_inv_def)
  next
    assume "\<exists>i c oid sq. threads s i = Some (Waiting c) \<and> adds_effect s s' c oid sq"
    then obtain i c oid sq where t: "threads s i = Some (Waiting c)" and e: "adds_effect s s' c oid sq"
      by blast
    then have "effects (mem (srv s)) (c_key c) = None"
      using inv by (force simp: once_inv_def adds_effect_def)
    then show ?thesis using inv e by (auto simp: once_inv_def adds_effect_def)
  qed
  then show "once_inv s'" using threads_policies_step [OF inv l] by (simp add: once_inv_def)
qed

section \<open>Durability of a fresh success\<close>

definition tickets :: "item list \<Rightarrow> nat list" where
  "tickets q = concat (map (\<lambda>x. case x of Work _ k \<Rightarrow> [k] | Stop \<Rightarrow> []) q)"

lemma tickets_simps [simp]:
  "tickets [] = []" "tickets (Work ss k # q) = k # tickets q" "tickets (Stop # q) = tickets q"
  "tickets (q @ r) = tickets q @ tickets r"
  by (simp_all add: tickets_def)

lemma tickets_mem: "Work ss k \<in> set q \<Longrightarrow> k \<in> set (tickets q)"
  by (force simp: tickets_def)

lemma take_batch_mset:
  "take_batch n q = (b, r) \<Longrightarrow> mset (tickets q) = mset (map snd b) + mset (tickets r)"
  by (induction n q arbitrary: b r rule: take_batch.induct) (auto split: prod.splits)

lemma take_batch_mem:
  "take_batch n q = (b, r) \<Longrightarrow> Work ss k \<in> set q \<longleftrightarrow> (ss, k) \<in> set b \<or> Work ss k \<in> set r"
  by (induction n q arbitrary: b r rule: take_batch.induct) (auto split: prod.splits)

definition ticket_inv :: "server \<Rightarrow> bool" where
  "ticket_inv S \<longleftrightarrow> distinct (tickets (pending S)) \<and>
     (\<forall>k \<in> set (tickets (pending S)). k < next_ticket S \<and> outcomes S k = None) \<and>
     (\<forall>k. outcomes S k \<noteq> None \<longrightarrow> k < next_ticket S)"

text \<open>What a queued list of statements has come to: still queued, failed, or in the tables.\<close>

definition tracked :: "server \<Rightarrow> stmt list \<Rightarrow> nat \<Rightarrow> bool" where
  "tracked S ss k \<longleftrightarrow> Work ss k \<in> set (pending S) \<or>
     (\<exists>err. outcomes S k = Some err \<and>
       (err = None \<longrightarrow> (\<forall>r. InsertEffect r \<in> set ss \<longrightarrow> r \<in> set (t_effects (db S)))))"

lemma write_turn_cases:
  assumes "write_turn f S = Some S'"
  obtains b r err where "take_batch GROUP_LIMIT (pending S) = (b, r)" "pending S' = r"
    "outcomes S' = mark b err (outcomes S)" "next_ticket S' = next_ticket S"
    "set (t_effects (db S)) \<subseteq> set (t_effects (db S'))"
    "err = None \<Longrightarrow> exec_all (concat (map fst b)) (db S) = Inr (db S')"
    "f = None \<Longrightarrow> err \<noteq> None \<Longrightarrow> exec_all (concat (map fst b)) (db S) = Inl (the err)"
proof -
  obtain b r where br: "take_batch GROUP_LIMIT (pending S) = (b, r)" by fastforce
  define res where "res = (case f of Some e \<Rightarrow> Inl e | None \<Rightarrow> exec_all (concat (map fst b)) (db S))"
  have S': "S' = (case res of
      Inr t \<Rightarrow> S\<lparr>pending := r, db := t, outcomes := mark b None (outcomes S)\<rparr>
    | Inl e \<Rightarrow> S\<lparr>pending := r, outcomes := mark b (Some e) (outcomes S)\<rparr>)"
    using assms br by (auto simp: write_turn_def Let_def res_def split: list.splits item.splits)
  show ?thesis
  proof (cases res)
    case (Inl e)
    then show ?thesis using S' that [OF br, of "Some e"] by (auto simp: res_def split: option.splits)
  next
    case (Inr t)
    then have "exec_all (concat (map fst b)) (db S) = Inr t" by (auto simp: res_def split: option.splits)
    then show ?thesis using S' Inr that [OF br, of None] exec_all_effects by auto
  qed
qed

lemma write_turn_ticket_inv:
  assumes "ticket_inv S" "write_turn f S = Some S'"
  shows "ticket_inv S'"
  using assms(2)
proof (cases rule: write_turn_cases)
  case (1 b r err)
  have m: "mset (tickets (pending S)) = mset (map snd b) + mset (tickets r)"
    using take_batch_mset [OF 1(1)] .
  then have "distinct (map snd b @ tickets r)"
    using assms(1) by (metis mset_append mset_eq_imp_distinct_iff ticket_inv_def)
  moreover have "set (tickets (pending S)) = snd ` set b \<union> set (tickets r)"
    using m by (metis mset_append mset_eq_setD set_append set_map)
  ultimately show ?thesis using assms(1) 1 by (auto simp: ticket_inv_def mark_def)
qed

lemma write_turn_tracked:
  assumes "ticket_inv S" "write_turn f S = Some S'" "tracked S ss k"
  shows "tracked S' ss k"
  using assms(2)
proof (cases rule: write_turn_cases)
  case (1 b r err)
  show ?thesis
  proof (cases "Work ss k \<in> set (pending S)")
    case True
    then consider "(ss, k) \<in> set b" | "Work ss k \<in> set r" using take_batch_mem [OF 1(1)] by blast
    then show ?thesis
    proof cases
      case 2
      then show ?thesis using 1 by (simp add: tracked_def)
    next
      case b: 1
      have "err = None \<Longrightarrow> InsertEffect x \<in> set ss \<Longrightarrow> x \<in> set (t_effects (db S'))" for x
        using 1(6) b by (force intro: exec_all_inserts)
      then show ?thesis using 1(3) b by (force simp: tracked_def mark_def)
    qed
  next
    case False
    then obtain e where e: "outcomes S k = Some e"
        "e = None \<longrightarrow> (\<forall>x. InsertEffect x \<in> set ss \<longrightarrow> x \<in> set (t_effects (db S)))"
      using assms(3) by (auto simp: tracked_def)
    have "k \<notin> snd ` set b"
    proof
      assume "k \<in> snd ` set b"
      then obtain ss' where "Work ss' k \<in> set (pending S)" using take_batch_mem [OF 1(1)] by force
      then show False using assms(1) e tickets_mem by (fastforce simp: ticket_inv_def)
    qed
    then show ?thesis using e 1(3,5) by (auto simp: tracked_def mark_def)
  qed
qed

lemma enqueue_ticket_inv: "ticket_inv S \<Longrightarrow> ticket_inv (snd (enqueue ss S))"
  by (auto simp: ticket_inv_def less_Suc_eq)

lemma enqueue_tracked: "tracked S ss k \<Longrightarrow> tracked (snd (enqueue ss' S)) ss k"
  by (auto simp: tracked_def)

definition fresh_ok :: "call \<Rightarrow> verdict \<Rightarrow> bool" where
  "fresh_ok c v \<longleftrightarrow> (v_status v = 200 \<and> \<not> v_prior v \<longrightarrow>
     (\<exists>r. InsertEffect r \<in> set (v_statements v) \<and> er_event_id r = c_key c \<and> er_payload r = c_data c))"

definition has_effect :: "tables \<Rightarrow> string \<Rightarrow> body \<Rightarrow> bool" where
  "has_effect t key data \<longleftrightarrow> list_ex (\<lambda>r. er_event_id r = key \<and> er_payload r = data) (t_effects t)"

primrec thread_durable :: "server \<Rightarrow> thread \<Rightarrow> bool" where
  "thread_durable S (Admitted c) = True"
| "thread_durable S (Waiting c) = True"
| "thread_durable S (Judged c v) = fresh_ok c v"
| "thread_durable S (Writing c v k) = (fresh_ok c v \<and> tracked S (v_statements v) k)"
| "thread_durable S (Finished key data res) =
     (\<forall>k acc. res = Reply 200 k acc False \<longrightarrow> has_effect (db S) k data)"

definition durable_inv :: "sys \<Rightarrow> bool" where
  "durable_inv s \<longleftrightarrow> ticket_inv (srv s) \<and>
     (\<forall>i t. threads s i = Some t \<longrightarrow> thread_durable (srv s) t)"

lemma durable_invD: "durable_inv s \<Longrightarrow> threads s i = Some t \<Longrightarrow> thread_durable (srv s) t"
  by (simp add: durable_inv_def)

lemma has_effect_mono:
  "set (t_effects t) \<subseteq> set (t_effects t') \<Longrightarrow> has_effect t k d \<Longrightarrow> has_effect t' k d"
  by (auto simp: has_effect_def list_ex_iff)

lemma thread_durable_enqueue: "thread_durable S t \<Longrightarrow> thread_durable (snd (enqueue ss S)) t"
  by (cases t) (auto intro: enqueue_tracked)

lemma thread_durable_mem [simp]: "thread_durable (S\<lparr>mem := L\<rparr>) t = thread_durable S t"
  by (cases t) (simp_all add: tracked_def)

lemma ticket_inv_mem [simp]: "ticket_inv (S\<lparr>mem := L\<rparr>) = ticket_inv S"
  by (simp add: ticket_inv_def)

lemma thread_durable_write_turn:
  assumes "ticket_inv S" "write_turn f S = Some S'" "thread_durable S t"
  shows "thread_durable S' t"
proof (cases t)
  case (Writing c v k)
  then show ?thesis using assms write_turn_tracked by auto
next
  case (Finished key data res)
  have "set (t_effects (db S)) \<subseteq> set (t_effects (db S'))" using assms(2) by (rule write_turn_cases)
  then show ?thesis using Finished assms(3) has_effect_mono by auto
qed (use assms in auto)

lemma decide_fresh_ok:
  assumes "decide (c_policy c) (c_seller c) (c_key c) (c_data c) cnt attempt a b L = (L', Inr v)"
  shows "fresh_ok c v"
  using assms by (cases rule: decide_cases) (auto simp: fresh_ok_def)

lemma durable_set_thread:
  assumes "durable_inv s" "ticket_inv S" "thread_durable S t"
    "\<And>u. thread_durable (srv s) u \<Longrightarrow> thread_durable S u"
  shows "durable_inv (set_thread i t (s\<lparr>srv := S\<rparr>))"
  using assms by (auto simp: durable_inv_def set_thread_def split: if_splits)

lemma respond_durable:
  assumes "durable_inv s" "threads s i = Some (Writing c v k)" "outcomes (srv s) k = Some err"
  shows "thread_durable (srv s) (Finished (c_key c) (c_data c)
    (case err of None \<Rightarrow> answer (c_key c) v | Some e \<Rightarrow> Raised e))"
proof (cases err)
  case None
  have t: "fresh_ok c v" "tracked (srv s) (v_statements v) k" "ticket_inv (srv s)"
    using durable_invD [OF assms(1,2)] assms(1) by (simp_all add: durable_inv_def)
  then have "Work (v_statements v) k \<notin> set (pending (srv s))"
    using assms(3) tickets_mem by (fastforce simp: ticket_inv_def)
  then have "\<forall>r. InsertEffect r \<in> set (v_statements v) \<longrightarrow> r \<in> set (t_effects (db (srv s)))"
    using t(2) assms(3) None by (simp add: tracked_def)
  then show ?thesis
    using t(1) None by (auto simp: fresh_ok_def answer_def has_effect_def list_ex_iff split: if_splits)
qed simp

interpretation durable: step_invariant any_label durable_inv
proof
  show "durable_inv init_sys"
    by (simp add: durable_inv_def init_sys_def open_server_def ticket_inv_def)
  fix s l s' assume inv: "durable_inv s" and l: "sys_step l s = Some s'"
  have tk: "ticket_inv (srv s)" using inv by (simp add: durable_inv_def)
  show "durable_inv s'"
  proof (cases l)
    case (Arrive i r start)
    then show ?thesis
      using l inv by (auto simp: durable_inv_def set_thread_def set_mem_def Let_def
          split: if_splits sum.splits option.splits prod.splits)
  next
    case (QueueStart i)
    then show ?thesis
      using l inv by (auto simp: durable_inv_def set_thread_def enqueue_ticket_inv thread_durable_enqueue
          split: option.splits thread.splits sum.splits if_splits)
  next
    case (Decide i a b)
    then obtain c L' d where c: "threads s i = Some (Waiting c)"
        and d: "decide (c_policy c) (c_seller c) (c_key c) (c_data c) (c_cnt c) (c_attempt c) a b
          (mem (srv s)) = (L', d)"
        and s': "s' = set_thread i (case d of Inl e \<Rightarrow> Finished (c_key c) (c_data c) (Raised e) | Inr v \<Rightarrow> Judged c v)
          ((set_mem L' s)\<lparr>history := history s @ decided c (mem (srv s)) L'\<rparr>)"
      using l by (auto simp: Let_def split: option.splits thread.splits prod.splits)
    have "thread_durable S (case d of Inl e \<Rightarrow> Finished (c_key c) (c_data c) (Raised e) | Inr v \<Rightarrow> Judged c v)" for S
      using d decide_fresh_ok by (auto split: sum.splits)
    then show ?thesis using inv s' by (auto simp: durable_inv_def set_thread_def set_mem_def)
  next
    case (QueueOutcome i)
    then obtain c v where c: "threads s i = Some (Judged c v)"
        and s': "s' = set_thread i (Writing c v (next_ticket (srv s))) (s\<lparr>srv := snd (enqueue (v_statements v) (srv s))\<rparr>)"
      using l by (auto simp: enqueue_def split: option.splits thread.splits)
    have "thread_durable (snd (enqueue (v_statements v) (srv s))) (Writing c v (next_ticket (srv s)))"
      using durable_invD [OF inv c] by (simp add: tracked_def)
    then show ?thesis
      unfolding s'
      by (rule durable_set_thread [OF inv enqueue_ticket_inv [OF tk] _ thread_durable_enqueue])
  next
    case (WriterTurn f)
    then show ?thesis
      using l inv tk by (auto simp: durable_inv_def write_turn_ticket_inv thread_durable_write_turn
          split: option.splits)
  next
    case (Respond i)
    then obtain c v k err where "threads s i = Some (Writing c v k)" "outcomes (srv s) k = Some err"
        "s' = set_thread i (Finished (c_key c) (c_data c)
              (case err of None \<Rightarrow> answer (c_key c) v | Some e \<Rightarrow> Raised e)) (s\<lparr>srv := srv s\<rparr>)"
      using l by (auto split: option.splits thread.splits)
    then show ?thesis using durable_set_thread [OF inv tk] respond_durable [OF inv] by metis
  next
    case (SetControl seller p)
    then show ?thesis using l inv by (auto simp: durable_inv_def)
  qed
qed

section \<open>Runs used as witnesses\<close>

text \<open>A retry is decided between its original's decision and the queueing of the original's
  outcome.\<close>

definition overtaking_retry :: "label list" where
  "overtaking_retry =
     [Arrive 1 (sample_request ''e1'' 1) 10, QueueStart 1, Arrive 2 (sample_request ''e1'' 1) 11,
      QueueStart 2, Decide 1 20 20, Decide 2 21 21, QueueOutcome 2, WriterTurn None, Respond 2]"

text \<open>Two operations of one order are decided in order and queued in the opposite order.\<close>

definition swapped_outcomes :: "label list" where
  "swapped_outcomes =
     [Arrive 1 (sample_request ''e1'' 1) 10, QueueStart 1, Decide 1 20 20,
      Arrive 2 (sample_request ''e2'' 2) 21, QueueStart 2, Decide 2 22 22,
      QueueOutcome 2, QueueOutcome 1, WriterTurn None, Respond 1, Respond 2]"

text \<open>One request from arrival to answer.\<close>

definition single_call :: "label list" where
  "single_call =
     [Arrive 1 (sample_request ''e1'' 1) 10, QueueStart 1, Decide 1 20 20, QueueOutcome 1,
      WriterTurn None, Respond 1]"

lemma overtaking_run:
  "case run_labels overtaking_retry init_sys of None \<Rightarrow> False
   | Some s \<Rightarrow> threads s 2 = Some (Finished ''e1'' (sample_body ''e1'' 1) (Reply 200 ''e1'' True True)) \<and>
       t_effects (db (srv s)) = []"
  by code_simp

lemma swapped_run:
  "case run_labels swapped_outcomes init_sys of None \<Rightarrow> False
   | Some s \<Rightarrow>
       threads s 1 = Some (Finished ''e1'' (sample_body ''e1'' 1) (Reply 200 ''e1'' True False)) \<and>
       threads s 2 = Some (Finished ''e2'' (sample_body ''e2'' 2) (Reply 200 ''e2'' True False)) \<and>
       pending (srv s) = [] \<and> orders (mem (srv s)) (''slow'', 1) = Some 2 \<and>
       map or_seq (t_orders (db (srv s))) = [1]"
  by code_simp

lemma single_run:
  "case run_labels single_call init_sys of None \<Rightarrow> False
   | Some s \<Rightarrow>
       threads s 1 = Some (Finished ''e1'' (sample_body ''e1'' 1) (Reply 200 ''e1'' True False)) \<and>
       map fst (history s) = [''e1'']"
  by code_simp

section \<open>Properties\<close>

text \<open>C1: Whatever requests run concurrently, under whatever fault policies, the effects of one
  order are decided as sequences 1, 2, 3, ... with no gap, repetition or inversion, and the
  in-memory order state is the number of them.\<close>

theorem order_effects_gapless:
  assumes "reachable any_label s"
  shows "order_seqs (history s) seller oid = map int [1 ..< length (order_seqs (history s) seller oid) + 1] \<and>
    orders (mem (srv s)) (seller, oid) =
      (if order_seqs (history s) seller oid = [] then None
       else Some (int (length (order_seqs (history s) seller oid))))"
  using seq.reachable_inv [OF assms] by (simp add: seq_inv_def)

theorem order_effects_gapless_witness:
  "\<exists>s. reachable any_label s \<and> orders (mem (srv s)) (''slow'', 1) = Some 2 \<and>
     order_seqs (history s) ''slow'' 1 = [1, 2]"
proof -
  obtain s where s: "run_labels swapped_outcomes init_sys = Some s" "orders (mem (srv s)) (''slow'', 1) = Some 2"
    using swapped_run by (auto split: option.splits)
  have r: "reachable any_label s"
    using run_labels_reachable [OF reachable.init _ s(1)] by (simp add: any_label_def list_all_iff)
  have len: "length (order_seqs (history s) ''slow'' 1) = 2"
    using order_effects_gapless [OF r, of "''slow''" 1] s(2) by (auto split: if_splits)
  have "order_seqs (history s) ''slow'' 1 = map int [1 ..< length (order_seqs (history s) ''slow'' 1) + 1]"
    using order_effects_gapless [OF r, of "''slow''" 1] by simp
  also have "\<dots> = map int [1 ..< 3]" by (simp add: len)
  also have "\<dots> = [1, 2]" by (simp add: upt_rec)
  finally show ?thesis using r s(2) by blast
qed

text \<open>C2: As long as no control switches idempotency off, an event ID has at most one effect,
  however many concurrent or repeated requests carry it.\<close>

theorem event_effect_at_most_once:
  assumes "reachable idempotent_label s"
  shows "distinct (map fst (history s)) \<and> dom (effects (mem (srv s))) = set (map fst (history s))"
  using once.reachable_inv [OF assms] by (simp add: once_inv_def)

theorem event_effect_at_most_once_witness:
  "\<exists>s. reachable idempotent_label s \<and> threads s 2 \<noteq> None \<and> distinct (map fst (history s))"
proof -
  obtain s where s: "run_labels overtaking_retry init_sys = Some s" "threads s 2 \<noteq> None"
    using overtaking_run by (auto split: option.splits)
  have r: "reachable idempotent_label s"
    by (rule run_labels_reachable [OF reachable.init _ s(1)]) (simp add: overtaking_retry_def)
  then show ?thesis using event_effect_at_most_once [OF r] s(2) by blast
qed

text \<open>C3: A success answer that is not a duplicate is given only after the effect is in the
  committed tables, even when commits may fail.\<close>

theorem fresh_success_is_durable:
  assumes "reachable any_label s" "threads s i = Some (Finished key data (Reply 200 k acc False))"
  shows "has_effect (db (srv s)) k data"
  using durable_invD [OF durable.reachable_inv [OF assms(1)] assms(2)] by simp

theorem fresh_success_is_durable_witness:
  "\<exists>s. reachable any_label s \<and> has_effect (db (srv s)) ''e1'' (sample_body ''e1'' 1)"
proof -
  obtain s where s: "run_labels single_call init_sys = Some s"
      "threads s 1 = Some (Finished ''e1'' (sample_body ''e1'' 1) (Reply 200 ''e1'' True False))"
    using single_run by (auto split: option.splits)
  have "reachable any_label s"
    using run_labels_reachable [OF reachable.init _ s(1)] by (simp add: any_label_def list_all_iff)
  then show ?thesis using fresh_success_is_durable s(2) by blast
qed

text \<open>A duplicate's success answer does not mean a durable effect: the outcome is queued after
  the second lock is released, so a retry decided in between is committed and answered 200 while
  the tables hold no effect at all, with every commit succeeding.\<close>

lemma duplicate_success_before_effect:
  "\<exists>s i key data. reachable reliable_label s \<and>
     threads s i = Some (Finished key data (Reply 200 key True True)) \<and> t_effects (db (srv s)) = []"
proof -
  obtain s where s: "run_labels overtaking_retry init_sys = Some s"
      "threads s 2 = Some (Finished ''e1'' (sample_body ''e1'' 1) (Reply 200 ''e1'' True True))"
      "t_effects (db (srv s)) = []"
    using overtaking_run by (auto split: option.splits)
  have "reachable reliable_label s"
    by (rule run_labels_reachable [OF reachable.init _ s(1)]) (simp add: overtaking_retry_def)
  then show ?thesis using s(2,3) by blast
qed

text \<open>The durable order row can go back: with every commit succeeding, every request answered
  200 and nothing left to write, the \<open>orders\<close> table can hold sequence 1 of an order whose
  in-memory state is sequence 2.\<close>

lemma order_row_can_regress:
  "\<exists>s. reachable reliable_label s \<and> pending (srv s) = [] \<and>
     (\<exists>d1 d2. threads s 1 = Some (Finished ''e1'' d1 (Reply 200 ''e1'' True False)) \<and>
              threads s 2 = Some (Finished ''e2'' d2 (Reply 200 ''e2'' True False))) \<and>
     orders (mem (srv s)) (''slow'', 1) = Some 2 \<and> map or_seq (t_orders (db (srv s))) = [1]"
proof -
  obtain s where s: "run_labels swapped_outcomes init_sys = Some s"
      "threads s 1 = Some (Finished ''e1'' (sample_body ''e1'' 1) (Reply 200 ''e1'' True False))"
      "threads s 2 = Some (Finished ''e2'' (sample_body ''e2'' 2) (Reply 200 ''e2'' True False))"
      "pending (srv s) = []" "orders (mem (srv s)) (''slow'', 1) = Some 2"
      "map or_seq (t_orders (db (srv s))) = [1]"
    using swapped_run by (auto split: option.splits)
  have "reachable reliable_label s"
    by (rule run_labels_reachable [OF reachable.init _ s(1)]) (simp add: swapped_outcomes_def)
  then show ?thesis using s(2-) by (intro exI [of _ s] conjI exI [of _ "sample_body ''e1'' 1"]
        exI [of _ "sample_body ''e2'' 2"])
qed

end
