(* ===== verification/Ledger_Recovery.thy ===== *)
theory Ledger_Recovery
  imports Ledger
begin

text \<open>
  Requests handled one after another, and what a restart recovers. \<open>agrees S\<close> says that
  nothing is pending and that opening a new \<open>Ledger\<close> on the same tables
  (\<open>Ledger.__init__\<close>, also after \<open>/reset\<close>) would compute exactly the decision state in
  memory. Every served request keeps it when its commits succeed and its body carries the fields
  the handler reads; a failed commit breaks it.
\<close>

section \<open>Agreement of memory and tables\<close>

definition pk :: "order_row \<Rightarrow> string \<times> int" where
  "pk r = (or_seller_id r, or_order_id r)"

definition agrees :: "server \<Rightarrow> bool" where
  "agrees S \<longleftrightarrow> pending S = [] \<and> mem S = open_ledger (db S) \<and> distinct (map pk (t_orders (db S))) \<and>
     (\<forall>k \<ge> next_ticket S. outcomes S k = None)"

definition complete :: "body \<Rightarrow> bool" where
  "complete d \<longleftrightarrow> b_orderId d \<noteq> None \<and> b_sequence d \<noteq> None \<and> b_operation d \<noteq> None \<and>
     b_quantity d \<noteq> None \<and> b_price d \<noteq> None \<and> b_occurredAt d \<noteq> None"

definition commits :: "timing \<Rightarrow> bool" where
  "commits tm \<longleftrightarrow> t_start_failure tm = None \<and> t_outcome_failure tm = None"

lemma agrees_empty: "agrees (open_server empty_tables)"
  by (simp add: agrees_def open_server_def empty_tables_def)

subsection \<open>One writer turn on one queued item\<close>

lemma turn_single:
  assumes "pending S = [Work ss k]"
  shows "turn None S = (case exec_all ss (db S) of
      Inr t \<Rightarrow> S\<lparr>pending := [], db := t, outcomes := (outcomes S)(k \<mapsto> None)\<rparr>
    | Inl e \<Rightarrow> S\<lparr>pending := [], outcomes := (outcomes S)(k \<mapsto> Some e)\<rparr>)"
    "turn (Some e) S = S\<lparr>pending := [], outcomes := (outcomes S)(k \<mapsto> Some e)\<rparr>"
proof -
  have b: "take_batch GROUP_LIMIT [Work ss k] = ([(ss, k)], [])"
    by (simp add: GROUP_LIMIT_def numeral_eq_Suc)
  have m: "mark [(ss, k)] err f = f(k \<mapsto> err)" for err and f :: "nat \<Rightarrow> py_error option option"
    by (auto simp: mark_def)
  show "turn None S = (case exec_all ss (db S) of
      Inr t \<Rightarrow> S\<lparr>pending := [], db := t, outcomes := (outcomes S)(k \<mapsto> None)\<rparr>
    | Inl e \<Rightarrow> S\<lparr>pending := [], outcomes := (outcomes S)(k \<mapsto> Some e)\<rparr>)"
    using assms b m by (auto simp: turn_def write_turn_def split: sum.splits)
  show "turn (Some e) S = S\<lparr>pending := [], outcomes := (outcomes S)(k \<mapsto> Some e)\<rparr>"
    using assms b m by (auto simp: turn_def write_turn_def)
qed

subsection \<open>What each statement does to a reopened ledger\<close>

lemma fresh_attempt_id: "next_attempt (open_ledger t) \<notin> set (map ar_id (t_attempts t))"
  using max_default_ge [of _ "map ar_id (t_attempts t)" 0] by (force simp: open_ledger_def max_id_def)

lemma fresh_effect_index: "next_effect (open_ledger t) \<notin> set (map effect_index (t_effects t))"
  using max_default_ge [of _ "map effect_index (t_effects t)" 0] by (force simp: open_ledger_def max_id_def)

lemma max_default_snoc: "(\<And>x. x \<in> set xs \<Longrightarrow> x < y) \<Longrightarrow> max_default d (xs @ [y]) = (y :: 'a :: linorder)"
  by (subst max_default_Max) (auto intro!: Max_eqI simp: less_imp_le)

lemma next_id_snoc: "max_id (ids @ [max_id ids + 1]) = max_id ids + 1"
  using max_default_ge [of _ ids 0] by (simp add: max_id_def max_default_snoc zle_add1_eq_le)

lemma insert_attempt:
  assumes "L = open_ledger t" "ar_id r = next_attempt L"
  shows "exec_stmt (InsertAttempt r) t = Inr (t\<lparr>t_attempts := t_attempts t @ [r]\<rparr>)"
    "open_ledger (t\<lparr>t_attempts := t_attempts t @ [r]\<rparr>) =
      L\<lparr>attempt_counts := (attempt_counts L)(ar_event_id r := attempt_counts L (ar_event_id r) + 1),
        next_attempt := next_attempt L + 1\<rparr>"
proof -
  show "exec_stmt (InsertAttempt r) t = Inr (t\<lparr>t_attempts := t_attempts t @ [r]\<rparr>)"
    using fresh_attempt_id [of t] assms by simp
  show "open_ledger (t\<lparr>t_attempts := t_attempts t @ [r]\<rparr>) =
      L\<lparr>attempt_counts := (attempt_counts L)(ar_event_id r := attempt_counts L (ar_event_id r) + 1),
        next_attempt := next_attempt L + 1\<rparr>"
    using assms by (auto simp: open_ledger_def next_id_snoc fun_eq_iff)
qed

lemma update_attempt:
  "exec_stmt (UpdateAttempt a b c i) t = Inr t' \<Longrightarrow> open_ledger t' = open_ledger t"
  by (auto simp: open_ledger_def comp_def if_distrib [of ar_id] if_distrib [of ar_event_id] cong: if_cong)

lemma insert_effect:
  assumes "L = open_ledger t" "effect_index r = next_effect L"
  shows "exec_stmt (InsertEffect r) t = Inr (t\<lparr>t_effects := t_effects t @ [r]\<rparr>)"
    "open_ledger (t\<lparr>t_effects := t_effects t @ [r]\<rparr>) =
      L\<lparr>effects := (effects L)(er_event_id r \<mapsto> er_payload r), next_effect := next_effect L + 1\<rparr>"
proof -
  show "exec_stmt (InsertEffect r) t = Inr (t\<lparr>t_effects := t_effects t @ [r]\<rparr>)"
    using fresh_effect_index [of t] assms by simp
  show "open_ledger (t\<lparr>t_effects := t_effects t @ [r]\<rparr>) =
      L\<lparr>effects := (effects L)(er_event_id r \<mapsto> er_payload r), next_effect := next_effect L + 1\<rparr>"
    using assms by (auto simp: open_ledger_def next_id_snoc dict_of_snoc)
qed

definition upsert :: "order_row \<Rightarrow> order_row list \<Rightarrow> order_row list" where
  "upsert r rs = (if list_ex (\<lambda>x. pk x = pk r) rs then map (\<lambda>x. if pk x = pk r then r else x) rs else rs @ [r])"

lemma exec_upsert: "exec_stmt (UpsertOrder r) t = Inr (t\<lparr>t_orders := upsert r (t_orders t)\<rparr>)"
  by (simp add: upsert_def pk_def)

lemma upsert_keys:
  "map pk (upsert r rs) = (if pk r \<in> set (map pk rs) then map pk rs else map pk rs @ [pk r])"
proof -
  have "list_ex (\<lambda>x. pk x = pk r) rs \<longleftrightarrow> pk r \<in> pk ` set rs" by (auto simp: list_ex_iff image_iff) metis
  then show ?thesis by (simp add: upsert_def comp_def if_distrib [of pk] cong: if_cong)
qed

lemma upsert_lookup:
  assumes "distinct (map pk rs)"
  shows "map_of (dict_of pk or_seq (upsert r rs)) = (map_of (dict_of pk or_seq rs))(pk r \<mapsto> or_seq r)"
proof (rule ext, rule option_eqI)
  fix k v
  have d: "distinct (map pk (upsert r rs))" using assms by (simp add: upsert_keys)
  have r: "r \<in> set (upsert r rs)" by (force simp: upsert_def list_ex_iff)
  have "x \<in> set (upsert r rs) \<longleftrightarrow> x \<in> set rs" if "pk x \<noteq> pk r" for x
    using that by (auto simp: upsert_def)
  then show "map_of (dict_of pk or_seq (upsert r rs)) k = Some v \<longleftrightarrow>
      ((map_of (dict_of pk or_seq rs))(pk r \<mapsto> or_seq r)) k = Some v"
    using r by (cases "k = pk r")
      (auto simp: dict_of_distinct_iff [OF d] dict_of_distinct_iff [OF assms] dict_of_distinct_lookup [OF d r, of or_seq])
qed

lemma open_ledger_orders: "orders (open_ledger t) = map_of (dict_of pk or_seq (t_orders t))"
proof -
  have "pk = (\<lambda>r. (or_seller_id r, or_order_id r))" by (simp add: fun_eq_iff pk_def)
  then show ?thesis by (simp add: open_ledger_def)
qed

lemma open_ledger_upsert:
  assumes "distinct (map pk (t_orders t))"
  shows "open_ledger (t\<lparr>t_orders := upsert r (t_orders t)\<rparr>) =
    (open_ledger t)\<lparr>orders := (orders (open_ledger t))(pk r \<mapsto> or_seq r)\<rparr>"
proof (rule ledger.equality)
  show "orders (open_ledger (t\<lparr>t_orders := upsert r (t_orders t)\<rparr>)) =
      orders ((open_ledger t)\<lparr>orders := (orders (open_ledger t))(pk r \<mapsto> or_seq r)\<rparr>)"
    using upsert_lookup [OF assms] by (simp add: open_ledger_orders)
qed (simp_all add: open_ledger_def)

subsection \<open>A decision and the statements it queues\<close>

text \<open>\<open>settled t L\<close>: memory \<open>L\<close> is what reopening \<open>t\<close> computes.\<close>

definition settled :: "tables \<Rightarrow> ledger \<Rightarrow> bool" where
  "settled t L \<longleftrightarrow> open_ledger t = L \<and> distinct (map pk (t_orders t))"

lemma conclude_settled:
  assumes "settled t M" "L = M\<lparr>active := (active M)(seller := active M seller + 1)\<rparr>"
    "conclude pol seller cnt attempt end_at prior status [] L = (L', Inr v)"
  shows "\<exists>t'. exec_all (v_statements v) t = Inr t' \<and> settled t' L'"
proof -
  obtain lost where v: "v_statements v = [UpdateAttempt end_at status lost attempt]" and L': "L' = M"
    using assms(2,3) by (auto simp: conclude_def Let_def)
  obtain t' where t': "exec_stmt (UpdateAttempt end_at status lost attempt) t = Inr t'" by simp
  have "t_orders t' = t_orders t" using t' by auto
  then show ?thesis using v t' update_attempt [OF t'] assms(1) L' by (simp add: settled_def)
qed

lemma effect_settled:
  assumes M: "settled t M" and L: "L = M\<lparr>active := (active M)(seller := active M seller + 1)\<rparr>"
    and ss: "effect_stmts (next_effect L) key seller oid sq data effect_at = Inr ss"
    and c: "conclude pol seller cnt attempt end_at prior 200 ss
        (L\<lparr>effects := (effects L)(key \<mapsto> data), orders := (orders L)((seller, oid) \<mapsto> sq),
           next_effect := next_effect L + 1\<rparr>) = (L', Inr v)"
  shows "\<exists>t'. exec_all (v_statements v) t = Inr t' \<and> settled t' L'"
proof -
  obtain e o1 where ss': "ss = [InsertEffect e, UpsertOrder o1]"
      and e: "effect_index e = next_effect M" "er_event_id e = key" "er_payload e = data"
      and o1: "pk o1 = (seller, oid)" "or_seq o1 = sq"
    using ss L by (auto simp: effect_stmts_def bindR_Inr_iff pk_def)
  have M': "M = open_ledger t" "distinct (map pk (t_orders t))" using M by (auto simp: settled_def)
  define t1 where "t1 = t\<lparr>t_effects := t_effects t @ [e]\<rparr>"
  have t1: "exec_stmt (InsertEffect e) t = Inr t1"
    "open_ledger t1 = M\<lparr>effects := (effects M)(key \<mapsto> data), next_effect := next_effect M + 1\<rparr>"
    "t_orders t1 = t_orders t"
    using insert_effect [of M t e] M'(1) e by (simp_all add: t1_def)
  define t2 where "t2 = t1\<lparr>t_orders := upsert o1 (t_orders t1)\<rparr>"
  have t2: "exec_stmt (UpsertOrder o1) t1 = Inr t2" unfolding t2_def by (rule exec_upsert)
  have o2: "open_ledger t2 = M\<lparr>effects := (effects M)(key \<mapsto> data), next_effect := next_effect M + 1,
      orders := (orders M)((seller, oid) \<mapsto> sq)\<rparr>"
    unfolding t2_def using open_ledger_upsert [of t1 o1] M'(2) t1 o1 by simp
  have d2: "distinct (map pk (t_orders t2))" using M'(2) t1(3) by (simp add: t2_def upsert_keys)
  obtain lost where v: "v_statements v = ss @ [UpdateAttempt end_at 200 lost attempt]"
      and L': "L' = M\<lparr>effects := (effects M)(key \<mapsto> data), next_effect := next_effect M + 1,
        orders := (orders M)((seller, oid) \<mapsto> sq)\<rparr>"
    using c L by (auto simp: conclude_def Let_def)
  obtain t3 where t3: "exec_stmt (UpdateAttempt end_at 200 lost attempt) t2 = Inr t3" by simp
  have "t_orders t3 = t_orders t2" using t3 by auto
  then have "settled t3 L'" using update_attempt [OF t3] o2 d2 L' by (simp add: settled_def)
  moreover have "exec_all (v_statements v) t = Inr t3" using v ss' t1(1) t2 t3 by simp
  ultimately show ?thesis by blast
qed

lemma decide_settled:
  assumes "settled t M" "L = M\<lparr>active := (active M)(seller := active M seller + 1)\<rparr>" "complete data"
    "decide pol seller key data cnt attempt effect_at end_at L = (L', d)"
  shows "\<exists>v t'. d = Inr v \<and> exec_all (v_statements v) t = Inr t' \<and> settled t' L'"
proof -
  obtain oid sq where data: "b_orderId data = Some oid" "b_sequence data = Some sq"
    using assms(3) by (auto simp: complete_def)
  obtain ss where ss: "effect_stmts (next_effect L) key seller oid sq data effect_at = Inr ss"
    using assms(3) by (auto simp: complete_def effect_stmts_def)
  have fin: "\<exists>v. snd (conclude pol seller cnt attempt end_at p st xs K) = Inr v" for p st xs K
    by (simp add: conclude_def Let_def)
  consider st p where "conclude pol seller cnt attempt end_at p st [] L = (L', d)"
    | p where "conclude pol seller cnt attempt end_at p 200 ss
        (L\<lparr>effects := (effects L)(key \<mapsto> data), orders := (orders L)((seller, oid) \<mapsto> sq),
           next_effect := next_effect L + 1\<rparr>) = (L', d)"
    using assms(4) data ss by (auto simp: decide_def Let_def split: if_splits)
  then show ?thesis
  proof cases
    case 1
    then obtain v where "d = Inr v" using fin [of p st "[]" L] by auto
    then show ?thesis using conclude_settled [OF assms(1,2)] 1 by blast
  next
    case 2
    then obtain v where "d = Inr v" by (auto simp: conclude_def Let_def)
    then show ?thesis using effect_settled [OF assms(1,2) ss] 2 by blast
  qed
qed

lemma serve_agrees:
  assumes S: "agrees S" and tm: "commits tm" and data: "complete (r_body r)"
    and g: "orders_guard r = Inr (Some (seller, key))" and n: "nap (policy_for c seller) = None"
    and a: "admit seller key (mem S) = (cnt, attempt, L)"
    and d: "decide (policy_for c seller) seller key (r_body r) cnt attempt (t_effect tm) (t_end tm) L = (L', d)"
  shows "\<exists>v S'. d = Inr v \<and> serve c tm r S = (S', answer key v) \<and> mem S' = L' \<and> agrees S' \<and>
    t_effects (db S') = t_effects (db S) @ effect_rows (v_statements v) \<and>
    (\<exists>row. start_stmts attempt key seller (r_body r) (t_start tm) (r_instance r) = Inr [InsertAttempt row] \<and>
      exec_all (InsertAttempt row # v_statements v) (db S) = Inr (db S'))"
proof -
  let ?M = "mem S"
  have open_S: "?M = open_ledger (db S)" "pending S = []" "distinct (map pk (t_orders (db S)))"
      "\<forall>k \<ge> next_ticket S. outcomes S k = None"
    using S by (auto simp: agrees_def)
  have attempt: "attempt = next_attempt ?M" using a by (simp add: admit_def)
  obtain row where row: "start_stmts attempt key seller (r_body r) (t_start tm) (r_instance r) = Inr [InsertAttempt row]"
      "ar_id row = next_attempt ?M" "ar_event_id row = key"
    using data attempt by (auto simp: complete_def start_stmts_def)
  define t1 where "t1 = (db S)\<lparr>t_attempts := t_attempts (db S) @ [row]\<rparr>"
  define M1 where "M1 = open_ledger t1"
  have t1: "exec_stmt (InsertAttempt row) (db S) = Inr t1" "settled t1 M1"
    using insert_attempt(1) [OF open_S(1) row(2)] open_S(3) by (simp_all add: t1_def M1_def settled_def)
  have M1: "L = M1\<lparr>active := (active M1)(seller := active M1 seller + 1)\<rparr>"
    using insert_attempt(2) [OF open_S(1) row(2)] row(3) a by (auto simp: M1_def t1_def admit_def)
  obtain v t2 where v: "d = Inr v" "exec_all (v_statements v) t1 = Inr t2" "settled t2 L'"
    using decide_settled [OF t1(2) M1 data d] by blast
  define S2 where "S2 = turn None (snd (enqueue [InsertAttempt row] (S\<lparr>mem := L\<rparr>)))"
  have S2: "mem S2 = L" "db S2 = t1" "pending S2 = []" "\<forall>k \<ge> next_ticket S2. outcomes S2 k = None"
    using t1(1) open_S(2,4) by (simp_all add: S2_def turn_single enqueue_def)
  obtain W where W: "enqueue (v_statements v) (S2\<lparr>mem := L'\<rparr>) = (next_ticket S2, W)"
    by (simp add: enqueue_def)
  then have W': "pending W = [Work (v_statements v) (next_ticket S2)]" "mem W = L'" "db W = t1"
      "\<forall>k \<ge> next_ticket W. outcomes W k = None" "next_ticket S2 < next_ticket W"
    using S2 by (auto simp: enqueue_def)
  define S4 where "S4 = turn None W"
  have S4: "mem S4 = L'" "db S4 = t2" "pending S4 = []" "outcomes S4 (next_ticket S2) = Some None"
      "\<forall>k \<ge> next_ticket S4. outcomes S4 k = None"
    using v(2) W' by (simp_all add: S4_def turn_single)
  have "serve c tm r S = (S4, answer key v)"
    using g row(1) d v(1) tm S2(1) S4(4) a n
    by (simp add: serve_def commits_def Let_def await_def W S2_def [symmetric] S4_def [symmetric])
  moreover have "t_effects t2 = t_effects (db S) @ effect_rows (v_statements v)"
    using exec_all_effect_rows [OF v(2)] by (simp add: t1_def)
  moreover have "exec_all (InsertAttempt row # v_statements v) (db S) = Inr (db S4)"
    using t1(1) v(2) S4(2) by simp
  ultimately show ?thesis using v S4 row(1) by (auto simp: agrees_def settled_def)
qed

lemma serve_keeps_agreement:
  assumes S: "agrees S" and tm: "commits tm" and data: "complete (r_body r)"
    and n: "\<And>seller. nap (policy_for c seller) = None"
  shows "agrees (fst (serve c tm r S)) \<and> snd (serve c tm r S) \<noteq> Blocked"
proof (cases "orders_guard r")
  case (Inl e)
  then show ?thesis using S by (simp add: serve_def)
next
  case (Inr g)
  show ?thesis
  proof (cases g)
    case None
    then show ?thesis using S Inr by (simp add: serve_def)
  next
    case (Some sk)
    obtain seller key where sk: "sk = (seller, key)" by (cases sk)
    obtain cnt attempt L where a: "admit seller key (mem S) = (cnt, attempt, L)" by (metis prod_cases3)
    obtain L' d where d: "decide (policy_for c seller) seller key (r_body r) cnt attempt
        (t_effect tm) (t_end tm) L = (L', d)" by fastforce
    show ?thesis
      using serve_agrees [OF S tm data _ n a d] Inr Some sk by (auto simp: answer_def split: if_splits)
  qed
qed

lemma serve_all_append:
  "serve_all c (xs @ ys) S =
    (let (S1, as) = serve_all c xs S; (S2, bs) = serve_all c ys S1 in (S2, as @ bs))"
  by (induction xs arbitrary: S) (auto simp: Let_def split: prod.splits)

lemma serve_all_agreement:
  assumes "agrees S" "\<And>tm r. (tm, r) \<in> set rs \<Longrightarrow> commits tm \<and> complete (r_body r)"
    and "\<And>seller. nap (policy_for c seller) = None"
  shows "agrees (fst (serve_all c rs S))"
  using assms(1,2)
proof (induction rs arbitrary: S)
  case (Cons x rs)
  obtain tm r where x: "x = (tm, r)" by (cases x)
  have "agrees (fst (serve c tm r S))"
    using serve_keeps_agreement [OF Cons.prems(1) _ _ assms(3)] Cons.prems(2) x by auto
  then have "agrees (fst (serve_all c rs (fst (serve c tm r S))))"
    by (rule Cons.IH) (use Cons.prems(2) in auto)
  then show ?case by (simp add: x case_prod_unfold Let_def)
qed simp

section \<open>One event served repeatedly\<close>

text \<open>An event that the seller has not yet applied and that is next in its order.\<close>

definition due :: "request \<Rightarrow> string \<Rightarrow> string \<Rightarrow> server \<Rightarrow> bool" where
  "due r seller key S \<longleftrightarrow> agrees S \<and> complete (r_body r) \<and> orders_guard r = Inr (Some (seller, key)) \<and>
     effects (mem S) key = None \<and>
     b_sequence (r_body r) = Some (next_seq (orders (mem S) (seller, the (b_orderId (r_body r)))))"

definition applied :: "request \<Rightarrow> string \<Rightarrow> string \<Rightarrow> server \<Rightarrow> bool" where
  "applied r seller key S \<longleftrightarrow> agrees S \<and> complete (r_body r) \<and> orders_guard r = Inr (Some (seller, key)) \<and>
     effects (mem S) key = Some (r_body r)"

definition rows_of :: "string \<Rightarrow> server \<Rightarrow> effect_row list" where
  "rows_of key S = filter (\<lambda>e. er_event_id e = key) (t_effects (db S))"

lemma serve_refused:
  assumes "due r seller key S" "commits tm" "nap (policy_for c seller) = None"
    and "attempt_counts (mem S) key < get_or 0 (p_failureCount (policy_for c seller))"
  shows "\<exists>S'. serve c tm r S = (S', Reply 503 key False False) \<and> due r seller key S' \<and>
    attempt_counts (mem S') key = attempt_counts (mem S) key + 1 \<and> t_effects (db S') = t_effects (db S)"
proof -
  obtain oid where oid: "b_orderId (r_body r) = Some oid" using assms(1) by (auto simp: due_def complete_def)
  obtain cnt attempt L where a: "admit seller key (mem S) = (cnt, attempt, L)" by (metis prod_cases3)
  obtain L' d where d: "decide (policy_for c seller) seller key (r_body r) cnt attempt
      (t_effect tm) (t_end tm) L = (L', d)" by fastforce
  have L: "effects L = effects (mem S)" "orders L = orders (mem S)" "cnt = attempt_counts (mem S) key"
      "attempt_counts L key = attempt_counts (mem S) key + 1"
    using a by (auto simp: admit_def)
  have "L' = L\<lparr>active := (active L)(seller := active L seller - 1)\<rparr>"
      "case d of Inl _ \<Rightarrow> False
       | Inr v \<Rightarrow> answer key v = Reply 503 key False False \<and> effect_rows (v_statements v) = []"
    using d L assms(1,4) oid by (auto simp: decide_def conclude_def Let_def answer_def due_def)
  then show ?thesis using serve_agrees [of S tm r seller key c cnt attempt L L' d] assms a d L
    by (auto simp: due_def)
qed

lemma serve_accepted:
  assumes "due r seller key S" "commits tm" "nap (policy_for c seller) = None"
    and "get_or 0 (p_failureCount (policy_for c seller)) \<le> attempt_counts (mem S) key"
  shows "\<exists>S' e. serve c tm r S = (S', if get_or False (p_dropResponse (policy_for c seller)) \<and> attempt_counts (mem S) key = 0
      then ConnectionDropped else Reply 200 key True False) \<and> applied r seller key S' \<and>
    attempt_counts (mem S') key = attempt_counts (mem S) key + 1 \<and>
    t_effects (db S') = t_effects (db S) @ [e] \<and> er_event_id e = key \<and> er_payload e = r_body r"
proof -
  obtain oid oper qty pr occ where f: "b_orderId (r_body r) = Some oid" "b_operation (r_body r) = Some oper"
      "b_quantity (r_body r) = Some qty" "b_price (r_body r) = Some pr" "b_occurredAt (r_body r) = Some occ"
    using assms(1) by (auto simp: due_def complete_def)
  obtain cnt attempt L where a: "admit seller key (mem S) = (cnt, attempt, L)" by (metis prod_cases3)
  obtain L' d where d: "decide (policy_for c seller) seller key (r_body r) cnt attempt
      (t_effect tm) (t_end tm) L = (L', d)" by fastforce
  have L: "effects L = effects (mem S)" "orders L = orders (mem S)" "cnt = attempt_counts (mem S) key"
      "attempt_counts L key = attempt_counts (mem S) key + 1"
    using a by (auto simp: admit_def)
  have "effects L' = (effects L)(key \<mapsto> r_body r)" "attempt_counts L' = attempt_counts L"
      "case d of Inl _ \<Rightarrow> False
       | Inr v \<Rightarrow> answer key v = (if get_or False (p_dropResponse (policy_for c seller)) \<and> cnt = 0
         then ConnectionDropped else Reply 200 key True False) \<and>
         (\<exists>e. effect_rows (v_statements v) = [e] \<and> er_event_id e = key \<and> er_payload e = r_body r)"
    using d L assms(1,4) f by (auto simp: decide_def conclude_def Let_def answer_def due_def effect_stmts_def)
  then show ?thesis using serve_agrees [of S tm r seller key c cnt attempt L L' d] assms a d L
    by (auto simp: due_def applied_def)
qed

lemma serve_duplicate:
  assumes "applied r seller key S" "commits tm" "nap (policy_for c seller) = None"
    and "get_or 0 (p_failureCount (policy_for c seller)) \<le> attempt_counts (mem S) key"
    and "get_or True (p_idempotent (policy_for c seller))" "0 < attempt_counts (mem S) key"
  shows "\<exists>S'. serve c tm r S = (S', Reply 200 key True True) \<and> applied r seller key S' \<and>
    attempt_counts (mem S') key = attempt_counts (mem S) key + 1 \<and> t_effects (db S') = t_effects (db S)"
proof -
  obtain oid where oid: "b_orderId (r_body r) = Some oid" using assms(1) by (auto simp: applied_def complete_def)
  obtain cnt attempt L where a: "admit seller key (mem S) = (cnt, attempt, L)" by (metis prod_cases3)
  obtain L' d where d: "decide (policy_for c seller) seller key (r_body r) cnt attempt
      (t_effect tm) (t_end tm) L = (L', d)" by fastforce
  have L: "effects L = effects (mem S)" "cnt = attempt_counts (mem S) key"
      "attempt_counts L key = attempt_counts (mem S) key + 1"
    using a by (auto simp: admit_def)
  have "L' = L\<lparr>active := (active L)(seller := active L seller - 1)\<rparr>"
      "case d of Inl _ \<Rightarrow> False
       | Inr v \<Rightarrow> answer key v = Reply 200 key True True \<and> effect_rows (v_statements v) = []"
    using d L assms(1,4,5,6) oid by (auto simp: decide_def conclude_def Let_def answer_def applied_def)
  then show ?thesis using serve_agrees [of S tm r seller key c cnt attempt L L' d] assms a d L
    by (auto simp: applied_def)
qed

lemma serve_all_refused:
  assumes "nap (policy_for c seller) = None" "list_all commits tms" "due r seller key S"
    and "attempt_counts (mem S) key + int (length tms) \<le> get_or 0 (p_failureCount (policy_for c seller))"
  shows "\<exists>S'. serve_all c (map (\<lambda>tm. (tm, r)) tms) S = (S', replicate (length tms) (Reply 503 key False False)) \<and>
    due r seller key S' \<and> attempt_counts (mem S') key = attempt_counts (mem S) key + int (length tms) \<and>
    t_effects (db S') = t_effects (db S)"
  using assms(2-)
proof (induction tms arbitrary: S)
  case (Cons tm tms)
  obtain S1 where "serve c tm r S = (S1, Reply 503 key False False)" "due r seller key S1"
      "attempt_counts (mem S1) key = attempt_counts (mem S) key + 1" "t_effects (db S1) = t_effects (db S)"
    using serve_refused [OF Cons.prems(2) _ assms(1), of tm] Cons.prems(1,3) by auto
  then show ?case using Cons.IH [of S1] Cons.prems by auto
qed simp

lemma serve_all_duplicates:
  assumes "nap (policy_for c seller) = None" "get_or True (p_idempotent (policy_for c seller))"
    and "list_all commits tms" "applied r seller key S" "0 < attempt_counts (mem S) key"
    and "get_or 0 (p_failureCount (policy_for c seller)) \<le> attempt_counts (mem S) key"
  shows "\<exists>S'. serve_all c (map (\<lambda>tm. (tm, r)) tms) S = (S', replicate (length tms) (Reply 200 key True True)) \<and>
    t_effects (db S') = t_effects (db S)"
  using assms(3-)
proof (induction tms arbitrary: S)
  case (Cons tm tms)
  obtain S1 where "serve c tm r S = (S1, Reply 200 key True True)" "applied r seller key S1"
      "attempt_counts (mem S1) key = attempt_counts (mem S) key + 1" "t_effects (db S1) = t_effects (db S)"
    using serve_duplicate [OF Cons.prems(2) _ assms(1) _ assms(2), of tm] Cons.prems(1,3,4) by auto
  then show ?case using Cons.IH [of S1] Cons.prems by auto
qed simp

end
