(* ===== verification/Mock_Server.thy ===== *)
theory Mock_Server
  imports Ledger_Recovery
begin

text \<open>
  The seller API mock as a whole, \<open>experiments/mock-partner-api/server.py\<close>: the module's
  \<open>ledger\<close> and \<open>controls\<close>, the SQLite files in its directory, and every route of
  \<open>Handler.do_GET\<close> and \<open>Handler.do_POST\<close>, one request at a time. A closed ledger is one
  whose queue starts with the \<open>None\<close> its writer returned on: nothing behind it is ever committed.
\<close>

section \<open>State and routes\<close>

record world =
  w_dir :: string
  w_path :: string
  w_server :: server
  w_controls :: controls
  w_files :: "string \<rightharpoonup> tables"   \<comment> \<open>the files other than the open one\<close>

datatype http =
    PostReset "string option" "py_error option"    \<comment> \<open>the body's \<open>name\<close>; a failing flush\<close>
  | PostControl "string option" policy             \<comment> \<open>the body's \<open>sellerId\<close> and the policy\<close>
  | PostOrders timing request
  | PostOther
  | GetSnapshot "py_error option"
  | GetOther

datatype http_reply =
    OrderReply response
  | ResetDone
  | ControlAccepted
  | NotFound
  | SnapshotReply "effect_row list" "attempt_row list" "order_row list" "string \<Rightarrow> int"
  | StatusReply "string \<Rightarrow> int"
  | HttpRaised py_error
  | HttpBlocked

text \<open>\<open>os.path.join\<close> of two components.\<close>

definition path_join :: "string \<Rightarrow> string \<Rightarrow> string" where
  "path_join d n =
     (if n \<noteq> [] \<and> hd n = CHR ''/'' then n
      else if d = [] \<or> last d = CHR ''/'' then d @ n
      else d @ ''/'' @ n)"

definition ledger_path :: "string \<Rightarrow> string \<Rightarrow> string" where
  "ledger_path d name = path_join d (name @ ''.sqlite'')"

text \<open>\<open>Ledger.write\<close>: \<open>None\<close> when the commit never comes.\<close>

definition ledger_write :: "stmt list \<Rightarrow> py_error option \<Rightarrow> server \<Rightarrow> server \<times> unit result option" where
  "ledger_write ss failure S =
     (let (k, S1) = enqueue ss S; S2 = turn failure S1
      in (S2, case outcomes S2 k of
                None \<Rightarrow> None
              | Some None \<Rightarrow> Some (Inr ())
              | Some (Some e) \<Rightarrow> Some (Inl e)))"

definition ledger_close :: "py_error option \<Rightarrow> server \<Rightarrow> server \<times> unit result option" where
  "ledger_close failure S =
     (let (S1, res) = ledger_write [] failure S
      in case res of
           Some (Inr _) \<Rightarrow> (S1\<lparr>pending := pending S1 @ [Stop]\<rparr>, res)
         | _ \<Rightarrow> (S1, res))"

text \<open>\<open>Ledger(path)\<close>: an existing file is read, a missing one created empty.\<close>

definition open_path :: "(string \<rightharpoonup> tables) \<Rightarrow> string \<Rightarrow> server" where
  "open_path files path = open_server (get_or empty_tables (files path))"

definition boot :: "string \<Rightarrow> string \<Rightarrow> world" where
  "boot d path = \<lparr>w_dir = d, w_path = path, w_server = open_path Map.empty path,
     w_controls = Map.empty, w_files = Map.empty\<rparr>"

definition reset :: "string option \<Rightarrow> py_error option \<Rightarrow> world \<Rightarrow> world \<times> http_reply" where
  "reset name failure w =
     (let (S, res) = ledger_close failure (w_server w);
          w1 = w\<lparr>w_controls := Map.empty, w_server := S\<rparr>
      in case res of
           None \<Rightarrow> (w1, HttpBlocked)
         | Some (Inl e) \<Rightarrow> (w1, HttpRaised e)
         | Some (Inr _) \<Rightarrow>
            (case name of
               None \<Rightarrow> (w1, HttpRaised (KeyError ''name''))
             | Some n \<Rightarrow>
                (let files = (w_files w)(w_path w \<mapsto> db S); path = ledger_path (w_dir w) n
                 in (w1\<lparr>w_path := path, w_files := files, w_server := open_path files path\<rparr>, ResetDone))))"

fun handle :: "http \<Rightarrow> world \<Rightarrow> world \<times> http_reply" where
  "handle (PostReset name failure) w = reset name failure w"
| "handle (PostControl seller p) w =
     (case seller of
        None \<Rightarrow> (w, HttpRaised (KeyError ''sellerId''))
      | Some s \<Rightarrow> (w\<lparr>w_controls := (w_controls w)(s \<mapsto> p)\<rparr>, ControlAccepted))"
| "handle (PostOrders tm r) w =
     (let (S, x) = serve (w_controls w) tm r (w_server w) in (w\<lparr>w_server := S\<rparr>, OrderReply x))"
| "handle PostOther w = (w, NotFound)"
| "handle (GetSnapshot failure) w =
     (let (S, res) = ledger_write [] failure (w_server w); w1 = w\<lparr>w_server := S\<rparr>
      in case res of
           None \<Rightarrow> (w1, HttpBlocked)
         | Some (Inl e) \<Rightarrow> (w1, HttpRaised e)
         | Some (Inr _) \<Rightarrow>
            (w1, SnapshotReply (sort_key effect_index (t_effects (db S))) (sort_key ar_id (t_attempts (db S)))
                   (t_orders (db S)) (active (mem S))))"
| "handle GetOther w = (w, StatusReply (active (mem (w_server w))))"

text \<open>The read-only \<open>/stats\<close> route: active calls, effects in memory, attempts.\<close>

definition stats :: "world \<Rightarrow> (string \<Rightarrow> int) \<times> nat \<times> int" where
  "stats w = (let L = mem (w_server w) in (active L, card (dom (effects L)), next_attempt L - 1))"

fun handle_all :: "http list \<Rightarrow> world \<Rightarrow> world" where
  "handle_all [] w = w"
| "handle_all (h # hs) w = handle_all hs (fst (handle h w))"

section \<open>Healthy runs\<close>

text \<open>Requests with a complete body and non-negative delays, on a disk that accepts every commit.\<close>

fun healthy :: "http \<Rightarrow> bool" where
  "healthy (PostReset name failure) = (name \<noteq> None \<and> failure = None)"
| "healthy (PostControl seller p) = (nap p = None)"
| "healthy (PostOrders tm r) = (commits tm \<and> complete (r_body r))"
| "healthy (GetSnapshot failure) = (failure = None)"
| "healthy _ = True"

definition world_ok :: "world \<Rightarrow> bool" where
  "world_ok w \<longleftrightarrow> agrees (w_server w) \<and> (\<forall>s p. w_controls w s = Some p \<longrightarrow> nap p = None) \<and>
     (\<forall>f t. w_files w f = Some t \<longrightarrow> distinct (map pk (t_orders t)))"

lemma write_nothing:
  assumes "agrees S"
  shows "\<exists>S'. ledger_write [] None S = (S', Some (Inr ())) \<and> mem S' = mem S \<and> db S' = db S \<and> agrees S'"
  using assms by (simp add: ledger_write_def enqueue_def turn_single agrees_def)

lemma agrees_open: "distinct (map pk (t_orders t)) \<Longrightarrow> agrees (open_server t)"
  by (simp add: agrees_def open_server_def)

lemma reset_result:
  assumes "agrees (w_server w)"
  shows "reset (Some n) None w =
    (let files = (w_files w)(w_path w \<mapsto> db (w_server w)); path = ledger_path (w_dir w) n
     in (w\<lparr>w_controls := Map.empty, w_path := path, w_files := files, w_server := open_path files path\<rparr>, ResetDone))"
  using write_nothing [OF assms] by (auto simp: reset_def ledger_close_def Let_def)

lemma open_path_agrees:
  assumes "world_ok w"
  shows "agrees (open_path ((w_files w)(w_path w \<mapsto> db (w_server w))) path)"
proof -
  have "distinct (map pk (t_orders (db (w_server w))))" using assms by (simp add: world_ok_def agrees_def)
  then show ?thesis using assms
    by (cases "w_files w path")
      (auto simp: open_path_def world_ok_def intro: agrees_open agrees_empty)
qed

lemma nap_policy_for: "(\<forall>s p. c s = Some p \<longrightarrow> nap p = None) \<Longrightarrow> nap (policy_for c seller) = None"
  by (cases "c seller"; cases "c ''*''") (auto simp: policy_for_def, simp add: nap_def no_policy_def)

lemma handle_world_ok:
  assumes "world_ok w" "healthy h"
  shows "world_ok (fst (handle h w))"
proof (cases h)
  case (PostReset name failure)
  then obtain n where "h = PostReset (Some n) None" using assms(2) by auto
  then show ?thesis
    using assms(1) open_path_agrees [OF assms(1)]
    by (auto simp: world_ok_def reset_result Let_def agrees_def)
next
  case (PostControl seller p)
  then show ?thesis using assms by (auto simp: world_ok_def split: option.splits)
next
  case (PostOrders tm r)
  have "nap (policy_for (w_controls w) s) = None" for s
    using assms(1) by (intro nap_policy_for) (simp add: world_ok_def)
  then have "agrees (fst (serve (w_controls w) tm r (w_server w)))"
    using serve_keeps_agreement assms PostOrders by (simp add: world_ok_def)
  then show ?thesis using assms PostOrders by (simp add: world_ok_def case_prod_unfold Let_def)
next
  case (GetSnapshot failure)
  obtain S where S: "ledger_write [] None (w_server w) = (S, Some (Inr ()))" "agrees S"
    using write_nothing [of "w_server w"] assms(1) by (auto simp: world_ok_def)
  then show ?thesis using assms GetSnapshot S by (simp add: world_ok_def)
qed (use assms in \<open>simp_all add: Let_def\<close>)

lemma handle_all_world_ok: "world_ok w \<Longrightarrow> list_all healthy hs \<Longrightarrow> world_ok (handle_all hs w)"
  by (induction hs arbitrary: w) (simp_all add: handle_world_ok)

lemma boot_world_ok: "world_ok (boot d path)"
  using agrees_empty by (simp add: world_ok_def boot_def open_path_def)

lemma handle_dir [simp]: "w_dir (fst (handle h w)) = w_dir w"
proof (cases h)
  case (PostReset name failure)
  then show ?thesis by (auto simp: reset_def Let_def split: prod.splits option.splits sum.splits)
next
  case (PostControl seller p)
  then show ?thesis by (simp split: option.splits)
qed (auto simp: Let_def split: prod.splits option.splits sum.splits)

section \<open>A closed ledger\<close>

lemma turn_stopped: "pending S = Stop # q \<Longrightarrow> turn f S = S"
  by (simp add: turn_def write_turn_def)

lemma serve_stopped:
  assumes "pending S = Stop # q" "\<forall>k \<ge> next_ticket S. outcomes S k = None" "complete (r_body r)"
    and "orders_guard r = Inr (Some (seller, key))" "nap (policy_for c seller) = None"
  shows "snd (serve c tm r S) = Blocked"
proof -
  obtain cnt attempt L where a: "admit seller key (mem S) = (cnt, attempt, L)" by (metis prod_cases3)
  obtain ss where ss: "start_stmts attempt key seller (r_body r) (t_start tm) (r_instance r) = Inr ss"
    using assms(3) by (auto simp: complete_def start_stmts_def)
  obtain S1 where S1: "snd (enqueue ss (S\<lparr>mem := L\<rparr>)) = S1" "pending S1 = Stop # q @ [Work ss (next_ticket S)]"
      "mem S1 = L" "\<forall>k \<ge> next_ticket S1. outcomes S1 k = None"
    using assms(1,2) by (simp add: enqueue_def)
  obtain L' d where d: "decide (policy_for c seller) seller key (r_body r) cnt attempt
      (t_effect tm) (t_end tm) L = (L', d)" by fastforce
  have "\<exists>v. d = Inr v"
    using d assms(3) by (auto simp: complete_def decide_def conclude_def effect_stmts_def Let_def split: if_splits)
  then obtain v where v: "d = Inr v" ..
  obtain W where W: "enqueue (v_statements v) (S1\<lparr>mem := L'\<rparr>) = (next_ticket S1, W)"
      "\<exists>q. pending W = Stop # q" "outcomes W (next_ticket S1) = None"
    using S1 by (simp add: enqueue_def)
  then show ?thesis
    using assms(4,5) a ss S1 d v by (auto simp: serve_def Let_def turn_stopped await_def)
qed

lemma reset_unnamed:
  assumes "agrees (w_server w)"
  shows "\<exists>S. reset None None w = (w\<lparr>w_controls := Map.empty, w_server := S\<rparr>, HttpRaised (KeyError ''name'')) \<and>
    pending S = [Stop] \<and> (\<forall>k \<ge> next_ticket S. outcomes S k = None)"
  using write_nothing [OF assms] by (auto simp: reset_def ledger_close_def Let_def agrees_def)

section \<open>Sample requests\<close>

definition good_timing :: timing where
  "good_timing = \<lparr>t_start = 1, t_effect = 2, t_end = 3, t_start_failure = None, t_outcome_failure = None\<rparr>"

definition full_disk :: timing where
  "full_disk = good_timing\<lparr>t_outcome_failure := Some OperationalError\<rparr>"

lemma sample_due: "due (sample_request ''e1'' 1) ''slow'' ''e1'' (open_server empty_tables)"
  using agrees_empty
  by (simp add: due_def complete_def orders_guard_def sample_request_def sample_body_def open_server_def
      open_ledger_def empty_tables_def dict_of_def next_seq_def)

lemma good_timing_commits [simp]: "commits good_timing"
  by (simp add: commits_def good_timing_def)

lemma sample_complete [simp]: "complete (r_body (sample_request key sq))"
  by (simp add: complete_def sample_request_def sample_body_def)

section \<open>Properties\<close>

text \<open>C6: Restarts lose nothing. After any sequence of complete requests on a disk that commits, a
  reset to any other ledger name and back to the current one restores exactly the decision state
  (effects, order positions, attempt counts, next numbers) and the tables, with all fault controls
  cleared.\<close>

theorem reset_round_trip:
  assumes "list_all healthy hs" "w = handle_all hs (boot d path)" "w_path w = ledger_path d a"
    and "w1 = fst (handle (PostReset (Some b) None) w)" "w2 = fst (handle (PostReset (Some a) None) w1)"
  shows "mem (w_server w2) = mem (w_server w) \<and> db (w_server w2) = db (w_server w) \<and>
    w_controls w2 = Map.empty"
proof -
  have ok: "world_ok w" using handle_all_world_ok [OF boot_world_ok assms(1)] assms(2) by simp
  then have ok1: "world_ok w1" using handle_world_ok [OF ok, of "PostReset (Some b) None"] assms(4) by simp
  have "w_dir (handle_all hs u) = w_dir u" for u by (induction hs arbitrary: u) simp_all
  then have dir: "w_dir w = d" using assms(2) by (simp add: boot_def)
  have dir1: "w_dir w1 = d" using handle_dir [of "PostReset (Some b) None" w] assms(4) dir by simp
  have S: "mem (w_server w) = open_ledger (db (w_server w))" using ok by (simp add: world_ok_def agrees_def)
  have agr: "agrees (w_server w)" "agrees (w_server w1)" using ok ok1 by (simp_all add: world_ok_def)
  have w1: "w1 = fst (reset (Some b) None w)" using assms(4) by simp
  have f: "((w_files w1)(w_path w1 \<mapsto> db (w_server w1))) (w_path w) = Some (db (w_server w))"
    unfolding w1 using reset_result [OF agr(1)] assms(3) dir
    by (auto simp: Let_def open_path_def open_server_def)
  have "w_server w2 = open_server (db (w_server w)) \<and> w_controls w2 = Map.empty"
    using assms(5) reset_result [OF agr(2), of a] dir1 f assms(3) by (simp add: Let_def open_path_def)
  then show ?thesis using S by (simp add: open_server_def)
qed

theorem reset_round_trip_witness:
  "mem (w_server (fst (handle (PostReset (Some ''a'') None) (fst (handle (PostReset (Some ''b'') None)
     (handle_all [PostReset (Some ''a'') None, PostOrders good_timing (sample_request ''e1'' 1)] (boot ''d'' ''d/x'')))))))
   = mem (w_server (handle_all [PostReset (Some ''a'') None, PostOrders good_timing (sample_request ''e1'' 1)] (boot ''d'' ''d/x'')))"
proof -
  let ?hs = "[PostReset (Some ''a'') None, PostOrders good_timing (sample_request ''e1'' 1)]"
  have h: "list_all healthy ?hs" by simp
  have p: "w_path (handle_all ?hs (boot ''d'' ''d/x'')) = ledger_path ''d'' ''a''" by code_simp
  show ?thesis using reset_round_trip [OF h refl p refl refl, of "''b''"] by blast
qed

text \<open>A seller that fails \<open>failureCount\<close> times is eventually successful: the first
  attempts of a due event answer 503, one for each configured failure, the next one answers 200,
  and it is the only one that writes an effect.\<close>

lemma failures_then_success:
  assumes "due r seller key S" "attempt_counts (mem S) key = 0" "list_all commits (tms @ [tm])"
    and "p_failureCount (policy_for c seller) = Some (int (length tms))"
    and "nap (policy_for c seller) = None" "\<not> get_or False (p_dropResponse (policy_for c seller))"
  shows "\<exists>S' e. serve_all c (map (\<lambda>tm. (tm, r)) (tms @ [tm])) S =
      (S', replicate (length tms) (Reply 503 key False False) @ [Reply 200 key True False]) \<and>
    t_effects (db S') = t_effects (db S) @ [e] \<and> er_event_id e = key \<and> er_payload e = r_body r"
proof -
  obtain S1 where S1: "serve_all c (map (\<lambda>tm. (tm, r)) tms) S = (S1, replicate (length tms) (Reply 503 key False False))"
      "due r seller key S1" "attempt_counts (mem S1) key = int (length tms)" "t_effects (db S1) = t_effects (db S)"
    using serve_all_refused [of c seller tms r key S] assms by auto
  obtain S2 e where "serve c tm r S1 = (S2, Reply 200 key True False)" "t_effects (db S2) = t_effects (db S) @ [e]"
      "er_event_id e = key" "er_payload e = r_body r"
    using serve_accepted [OF S1(2), of tm c] assms S1 by auto
  then show ?thesis using S1(1) by (simp add: serve_all_append)
qed

lemma failures_then_success_witness:
  "\<exists>S' e. serve_all [''slow'' \<mapsto> no_policy\<lparr>p_failureCount := Some 2\<rparr>]
      (replicate 3 (good_timing, sample_request ''e1'' 1)) (open_server empty_tables) =
      (S', [Reply 503 ''e1'' False False, Reply 503 ''e1'' False False, Reply 200 ''e1'' True False]) \<and>
    t_effects (db S') = [e]"
  using failures_then_success [of "sample_request ''e1'' 1" "''slow''" "''e1''" "open_server empty_tables"
      "[good_timing, good_timing]" good_timing "[''slow'' \<mapsto> no_policy\<lparr>p_failureCount := Some 2\<rparr>]"]
    sample_due
  by (auto simp: policy_for_def nap_def no_policy_def open_server_def open_ledger_def empty_tables_def
      numeral_eq_Suc)

text \<open>A lost response never doubles an effect: when the seller drops the first answer, the
  client sees a dropped connection although the effect is committed, every resend is answered 200
  as a duplicate, and the tables hold exactly one effect of the event.\<close>

lemma lost_response_resend:
  assumes "due r seller key S" "attempt_counts (mem S) key = 0" "list_all commits (tm # tms)"
    and "p_dropResponse (policy_for c seller) = Some True" "get_or 0 (p_failureCount (policy_for c seller)) \<le> 0"
    and "get_or True (p_idempotent (policy_for c seller))" "nap (policy_for c seller) = None"
    and "rows_of key S = []"
  shows "\<exists>S'. serve_all c (map (\<lambda>tm. (tm, r)) (tm # tms)) S =
      (S', ConnectionDropped # replicate (length tms) (Reply 200 key True True)) \<and>
    length (rows_of key S') = 1"
proof -
  obtain S1 e where S1: "serve c tm r S = (S1, ConnectionDropped)" "applied r seller key S1"
      "attempt_counts (mem S1) key = 1" "t_effects (db S1) = t_effects (db S) @ [e]" "er_event_id e = key"
    using serve_accepted [OF assms(1), of tm c] assms by auto
  obtain S2 where "serve_all c (map (\<lambda>tm. (tm, r)) tms) S1 = (S2, replicate (length tms) (Reply 200 key True True))"
      "t_effects (db S2) = t_effects (db S1)"
    using serve_all_duplicates [of c seller tms r key S1] assms S1 by auto
  then show ?thesis using S1 assms(8) by (auto simp: rows_of_def)
qed

lemma lost_response_resend_witness:
  "\<exists>S'. serve_all [''*'' \<mapsto> no_policy\<lparr>p_dropResponse := Some True\<rparr>]
      [(good_timing, sample_request ''e1'' 1), (good_timing, sample_request ''e1'' 1)] (open_server empty_tables) =
      (S', [ConnectionDropped, Reply 200 ''e1'' True True]) \<and> length (rows_of ''e1'' S') = 1"
  using lost_response_resend [of "sample_request ''e1'' 1" "''slow''" "''e1''" "open_server empty_tables"
      good_timing "[good_timing]" "[''*'' \<mapsto> no_policy\<lparr>p_dropResponse := Some True\<rparr>]"]
    sample_due
  by (auto simp: policy_for_def nap_def no_policy_def open_server_def open_ledger_def empty_tables_def rows_of_def)

text \<open>A failed outcome commit leaves the effect in memory only. The request raises, and the
  resend of the same event is acknowledged 200 as a duplicate while the committed tables have no
  effect of it.\<close>

lemma failed_commit_acknowledged_later:
  "\<exists>S. serve_all Map.empty [(full_disk, sample_request ''e1'' 1), (good_timing, sample_request ''e1'' 1)]
      (open_server empty_tables) = (S, [Raised OperationalError, Reply 200 ''e1'' True True]) \<and>
     rows_of ''e1'' S = [] \<and> pending S = []"
proof -
  have "case serve_all Map.empty [(full_disk, sample_request ''e1'' 1), (good_timing, sample_request ''e1'' 1)]
      (open_server empty_tables) of (S, xs) \<Rightarrow> xs = [Raised OperationalError, Reply 200 ''e1'' True True] \<and>
     rows_of ''e1'' S = [] \<and> pending S = []"
    by code_simp
  then show ?thesis by (simp split: prod.splits)
qed

text \<open>A reset whose body has no \<open>name\<close> raises only after the ledger was closed, and the closed
  ledger stays installed: every complete order request after it waits for ever.\<close>

lemma unnamed_reset_blocks_orders:
  assumes "list_all healthy hs" "w = handle_all hs (boot d path)"
    and "handle (PostReset None None) w = (w', x)" "complete (r_body r)" "orders_guard r = Inr (Some (seller, key))"
  shows "x = HttpRaised (KeyError ''name'') \<and> snd (handle (PostOrders tm r) w') = OrderReply Blocked"
proof -
  have "agrees (w_server w)"
    using handle_all_world_ok [OF boot_world_ok assms(1)] assms(2) by (simp add: world_ok_def)
  then obtain S where S: "w' = w\<lparr>w_controls := Map.empty, w_server := S\<rparr>" "x = HttpRaised (KeyError ''name'')"
      "pending S = [Stop]" "\<forall>k \<ge> next_ticket S. outcomes S k = None"
    using reset_unnamed [of w] assms(3) by auto
  have "snd (serve Map.empty tm r S) = Blocked"
    using serve_stopped [OF S(3,4) assms(4,5)] by (simp add: policy_for_def nap_def no_policy_def)
  then show ?thesis using S by (simp add: case_prod_unfold Let_def)
qed

lemma unnamed_reset_blocks_orders_witness:
  "snd (handle (PostOrders good_timing (sample_request ''e1'' 1))
     (fst (handle (PostReset None None) (boot ''d'' ''d/x'')))) = OrderReply Blocked"
proof -
  obtain w' x where w': "handle (PostReset None None) (boot ''d'' ''d/x'') = (w', x)" by fastforce
  have g: "orders_guard (sample_request ''e1'' 1) = Inr (Some (''slow'', ''e1''))" by code_simp
  show ?thesis
    using unnamed_reset_blocks_orders [of "[]", OF _ _ _ sample_complete g] w' by simp
qed

end
