(* ===== verification/Effect_Checker.thy ===== *)
theory Effect_Checker
  imports Ledger
begin

text \<open>
  The effect checker of an experiment case, \<open>experiments/checker.py\<close>, function \<open>check\<close>: the
  expected events against the seller's effects, final orders and request log, and against the
  business database. The messages of \<open>errors\<close> are constructors, in the order the code appends
  them; the two rows of the database tables that the code compares are records with the columns
  it reads. \<open>x_payload\<close> is \<open>None\<close> when \<open>json.loads(row['payload'])\<close> raises. Python iterates
  the set of unexpected IDs in no fixed order; the model takes the order of first occurrence.
\<close>

section \<open>Data\<close>

record ext_row =
  x_event_id :: string
  x_seller_id :: string
  x_order_id :: int
  x_seq :: int
  x_operation :: string
  x_quantity :: int
  x_price :: rat
  x_payload :: "body option"

record db_row =
  d_event_id :: string
  d_run_id :: string
  d_seller_id :: string
  d_order_id :: int
  d_seq :: int
  d_operation :: string
  d_quantity :: int
  d_price :: rat

record remote =
  m_effects :: "ext_row list"
  m_orders :: "order_row list"
  m_attempts :: "attempt_row list"

datatype source = External | BusinessDB

datatype check_error =
    DuplicateExpected
  | EffectCount string nat
  | UnexpectedEffect string
  | PayloadMismatch source string string      \<comment> \<open>event ID and column\<close>
  | RequestMismatch string
  | RequestUnavailable string
  | OrderViolation "string \<times> int" "int list" "int list"
  | EventIdsDiffer
  | OrderKeysDiffer source
  | FinalMismatch source "string \<times> int" string
  | RejectedRequest

record effect_report =
  ck_passed :: bool
  ck_expected :: nat
  ck_externalEffects :: nat
  ck_dbEffects :: nat
  ck_requests :: nat
  ck_responseLost :: int
  ck_errors :: "check_error list"

section \<open>The checks, in the order of the code\<close>

definition ext_order :: "ext_row \<Rightarrow> string \<times> int" where
  "ext_order r = (x_seller_id r, x_order_id r)"

definition order_key :: "order_row \<Rightarrow> string \<times> int" where
  "order_key r = (or_seller_id r, or_order_id r)"

text \<open>\<open>(column, differs)\<close> pairs become one error each.\<close>

definition differing :: "(string \<times> bool) list \<Rightarrow> string list" where
  "differing cs = map fst (filter snd cs)"

definition count_errors :: "event list \<Rightarrow> ext_row list \<Rightarrow> check_error list" where
  "count_errors expected effs =
     (let ids = map x_event_id effs; by_id = map fst (dict_of ev_eventId id expected)
      in map (\<lambda>k. EffectCount k (count_list ids k)) (filter (\<lambda>k. count_list ids k \<noteq> 1) by_id) @
         map UnexpectedEffect (filter (\<lambda>k. k \<notin> set by_id) (map fst (dict_of id id ids))))"

definition newest_step :: "event \<Rightarrow> (string \<times> int \<rightharpoonup> event) \<Rightarrow> (string \<times> int \<rightharpoonup> event)" where
  "newest_step e m =
     (case m (event_order e) of
        None \<Rightarrow> m(event_order e \<mapsto> e)
      | Some e' \<Rightarrow> if ev_sequence e' < ev_sequence e then m(event_order e \<mapsto> e) else m)"

definition newest :: "event list \<Rightarrow> (string \<times> int \<rightharpoonup> event)" where
  "newest expected = fold newest_step expected Map.empty"

definition ext_row_errors :: "(string \<rightharpoonup> event) \<Rightarrow> ext_row \<Rightarrow> check_error list" where
  "ext_row_errors by_id r =
     (case by_id (x_event_id r) of
        None \<Rightarrow> []
      | Some e \<Rightarrow>
         map (PayloadMismatch External (x_event_id r)) (differing
           [(''seller_id'', x_seller_id r \<noteq> ev_sellerId e), (''order_id'', x_order_id r \<noteq> ev_orderId e),
            (''seq'', x_seq r \<noteq> ev_sequence e), (''operation'', x_operation r \<noteq> ev_operation e),
            (''quantity'', x_quantity r \<noteq> ev_quantity e), (''price'', x_price r \<noteq> ev_price e)]) @
         (case x_payload r of
            None \<Rightarrow> [RequestUnavailable (x_event_id r)]
          | Some p \<Rightarrow> if p \<noteq> body_of e then [RequestMismatch (x_event_id r)] else []))"

definition wanted :: "event list \<Rightarrow> string \<times> int \<Rightarrow> int list" where
  "wanted expected k = sort (map ev_sequence (filter (\<lambda>e. event_order e = k) expected))"

definition sequence_errors :: "event list \<Rightarrow> ext_row list \<Rightarrow> check_error list" where
  "sequence_errors expected effs =
     concat (map (\<lambda>(k, seqs). if seqs \<noteq> wanted expected k then [OrderViolation k seqs (wanted expected k)] else [])
       (group_by ext_order x_seq effs))"

definition db_row_errors :: "(string \<rightharpoonup> event) \<Rightarrow> db_row \<Rightarrow> check_error list" where
  "db_row_errors by_id r =
     (case by_id (d_event_id r) of
        None \<Rightarrow> []
      | Some e \<Rightarrow>
         map (PayloadMismatch BusinessDB (d_event_id r)) (differing
           [(''seller_id'', d_seller_id r \<noteq> ev_sellerId e), (''order_id'', d_order_id r \<noteq> ev_orderId e),
            (''run_id'', d_run_id r \<noteq> ev_runId e), (''seq'', d_seq r \<noteq> ev_sequence e),
            (''operation'', d_operation r \<noteq> ev_operation e), (''quantity'', d_quantity r \<noteq> ev_quantity e),
            (''price'', d_price r \<noteq> ev_price e)]))"

text \<open>\<open>Counter(a) != Counter(b)\<close> for a duplicate-free \<open>b\<close>.\<close>

definition db_id_errors :: "event list \<Rightarrow> db_row list \<Rightarrow> check_error list" where
  "db_id_errors expected db_effects =
     (if mset (map d_event_id db_effects) \<noteq> mset (map fst (dict_of ev_eventId id expected))
      then [EventIdsDiffer] else [])"

definition final_mismatch :: "order_row \<Rightarrow> event \<Rightarrow> string list" where
  "final_mismatch r e = differing
     [(''seq'', or_seq r \<noteq> ev_sequence e), (''operation'', or_operation r \<noteq> ev_operation e),
      (''quantity'', or_quantity r \<noteq> ev_quantity e), (''price'', or_price r \<noteq> ev_price e)]"

definition order_errors :: "event list \<Rightarrow> source \<Rightarrow> order_row list \<Rightarrow> check_error list" where
  "order_errors expected label rows =
     (let actual = dict_of order_key id rows; keys = map fst (dict_of event_order id expected)
      in (if fst ` set actual \<noteq> set keys then [OrderKeysDiffer label] else []) @
         concat (map (\<lambda>k. case (map_of actual k, newest expected k) of
                       (Some r, Some e) \<Rightarrow> map (FinalMismatch label k) (final_mismatch r e)
                     | _ \<Rightarrow> []) keys))"

definition check_errors ::
    "event list \<Rightarrow> remote \<Rightarrow> db_row list \<Rightarrow> order_row list \<Rightarrow> check_error list" where
  "check_errors expected rem db_effects db_orders =
     (let by_id = map_of (dict_of ev_eventId id expected)
      in (if length (dict_of ev_eventId id expected) \<noteq> length expected then [DuplicateExpected] else []) @
         count_errors expected (m_effects rem) @
         concat (map (ext_row_errors by_id) (m_effects rem)) @
         sequence_errors expected (m_effects rem) @
         db_id_errors expected db_effects @
         concat (map (db_row_errors by_id) db_effects) @
         order_errors expected External (m_orders rem) @
         order_errors expected BusinessDB db_orders @
         (if list_ex (\<lambda>a. ar_status a = Some 409) (m_attempts rem) then [RejectedRequest] else []))"

definition check_effects ::
    "event list \<Rightarrow> remote \<Rightarrow> db_row list \<Rightarrow> order_row list \<Rightarrow> effect_report" where
  "check_effects expected rem db_effects db_orders =
     (let errs = check_errors expected rem db_effects db_orders
      in \<lparr>ck_passed = (errs = []), ck_expected = length expected,
          ck_externalEffects = length (m_effects rem), ck_dbEffects = length db_effects,
          ck_requests = length (m_attempts rem),
          ck_responseLost = sum_list (map (\<lambda>a. get_or 0 (ar_response_lost a)) (m_attempts rem)),
          ck_errors = errs\<rparr>)"

section \<open>What a passed case means\<close>

definition ext_matches :: "ext_row \<Rightarrow> event \<Rightarrow> bool" where
  "ext_matches r e \<longleftrightarrow> x_event_id r = ev_eventId e \<and> ext_order r = event_order e \<and>
     x_seq r = ev_sequence e \<and> x_operation r = ev_operation e \<and> x_quantity r = ev_quantity e \<and>
     x_price r = ev_price e \<and> x_payload r = Some (body_of e)"

definition db_matches :: "db_row \<Rightarrow> event \<Rightarrow> bool" where
  "db_matches r e \<longleftrightarrow> d_event_id r = ev_eventId e \<and> (d_seller_id r, d_order_id r) = event_order e \<and>
     d_run_id r = ev_runId e \<and> d_seq r = ev_sequence e \<and> d_operation r = ev_operation e \<and>
     d_quantity r = ev_quantity e \<and> d_price r = ev_price e"

definition order_matches :: "order_row \<Rightarrow> event \<Rightarrow> bool" where
  "order_matches r e \<longleftrightarrow> order_key r = event_order e \<and> or_seq r = ev_sequence e \<and>
     or_operation r = ev_operation e \<and> or_quantity r = ev_quantity e \<and> or_price r = ev_price e"

definition is_last :: "event list \<Rightarrow> event \<Rightarrow> bool" where
  "is_last expected e \<longleftrightarrow> e \<in> set expected \<and>
     (\<forall>e' \<in> set expected. event_order e' = event_order e \<longrightarrow> ev_sequence e' \<le> ev_sequence e)"

text \<open>Each order of the plan has a row that shows its last operation, and there is no other row.\<close>

definition shows_final :: "event list \<Rightarrow> order_row list \<Rightarrow> bool" where
  "shows_final expected rows \<longleftrightarrow> order_key ` set rows = event_order ` set expected \<and>
     (\<forall>r \<in> set rows. \<exists>e. is_last expected e \<and> order_matches r e)"

text \<open>Exactly once, unaltered, in order; the same internally; and both final states.\<close>

definition consistent :: "event list \<Rightarrow> remote \<Rightarrow> db_row list \<Rightarrow> order_row list \<Rightarrow> bool" where
  "consistent expected rem db_effects db_orders \<longleftrightarrow>
     distinct (map ev_eventId expected) \<and>
     mset (map x_event_id (m_effects rem)) = mset (map ev_eventId expected) \<and>
     (\<forall>r \<in> set (m_effects rem). \<exists>e \<in> set expected. ext_matches r e) \<and>
     (\<forall>k. sorted (map x_seq (filter (\<lambda>r. ext_order r = k) (m_effects rem)))) \<and>
     mset (map d_event_id db_effects) = mset (map ev_eventId expected) \<and>
     (\<forall>r \<in> set db_effects. \<exists>e \<in> set expected. db_matches r e) \<and>
     shows_final expected (m_orders rem) \<and> shows_final expected db_orders \<and>
     (\<forall>a \<in> set (m_attempts rem). ar_status a \<noteq> Some 409)"

section \<open>Each check against its meaning\<close>

lemma newest_snoc: "newest (es @ [e]) = newest_step e (newest es)"
  by (simp add: newest_def)

lemma newest_props:
  "newest es k = Some e \<Longrightarrow> is_last es e \<and> event_order e = k"
  "newest es k = None \<longleftrightarrow> k \<notin> event_order ` set es"
proof (induction es arbitrary: e rule: rev_induct)
  case Nil
  { case 1 then show ?case by (simp add: newest_def) }
  { case 2 then show ?case by (simp add: newest_def) }
next
  case (snoc x es)
  { case 1
    show ?case
    proof (cases "event_order x = k")
      case False
      then have "newest es k = Some e" using 1 by (auto simp: newest_snoc newest_step_def split: option.splits if_splits)
      then show ?thesis using snoc(1) [of e] False by (auto simp: is_last_def)
    next
      case True
      show ?thesis
      proof (cases "newest es k")
        case None
        then have "k \<notin> event_order ` set es" using snoc(2) by simp
        then show ?thesis using 1 True None by (fastforce simp: newest_snoc newest_step_def is_last_def image_iff)
      next
        case (Some e0)
        then show ?thesis using 1 True snoc(1) [of e0]
          by (force simp: newest_snoc newest_step_def is_last_def split: if_splits)
      qed
    qed }
  { case 2
    then show ?case using snoc(2) by (auto simp: newest_snoc newest_step_def split: option.splits) }
qed

lemma differing_Nil: "differing cs = [] \<longleftrightarrow> (\<forall>c \<in> set cs. \<not> snd c)"
  by (auto simp: differing_def filter_empty_conv)

lemma distinct_mset_iff_count:
  assumes "distinct ys"
  shows "mset xs = mset ys \<longleftrightarrow> (\<forall>k \<in> set ys. count_list xs k = 1) \<and> set xs \<subseteq> set ys"
proof
  assume "mset xs = mset ys"
  moreover from this have "set xs = set ys" by (metis set_mset_mset)
  ultimately show "(\<forall>k \<in> set ys. count_list xs k = 1) \<and> set xs \<subseteq> set ys"
    using assms by (metis count_mset distinct_count_atmost_1 order_refl)
next
  assume a: "(\<forall>k \<in> set ys. count_list xs k = 1) \<and> set xs \<subseteq> set ys"
  show "mset xs = mset ys"
  proof (rule multiset_eqI)
    fix k
    show "count (mset xs) k = count (mset ys) k"
      using a assms by (cases "k \<in> set ys")
        (auto simp: count_mset distinct_count_atmost_1 count_list_0_iff)
  qed
qed

lemma count_errors_iff:
  assumes "distinct (map ev_eventId expected)"
  shows "count_errors expected effs = [] \<longleftrightarrow> mset (map x_event_id effs) = mset (map ev_eventId expected)"
proof -
  have k: "set (map fst (dict_of ev_eventId id expected)) = set (map ev_eventId expected)" by simp
  show ?thesis
    unfolding distinct_mset_iff_count [OF assms] count_errors_def Let_def k
    by (auto simp: filter_empty_conv subset_iff)
qed

lemma ext_row_errors_iff:
  assumes "distinct (map ev_eventId expected)" "x_event_id r \<in> ev_eventId ` set expected"
  shows "ext_row_errors (map_of (dict_of ev_eventId id expected)) r = [] \<longleftrightarrow>
    (\<exists>e \<in> set expected. ext_matches r e)"
proof -
  obtain e where e: "e \<in> set expected" "ev_eventId e = x_event_id r" using assms(2) by auto
  have l: "map_of (dict_of ev_eventId id expected) (x_event_id r) = Some e"
    using dict_of_distinct_lookup [OF assms(1) e(1), of id] e(2) by simp
  have inj: "inj_on ev_eventId (set expected)" using assms(1) by (simp add: distinct_map)
  have "(\<exists>e' \<in> set expected. ext_matches r e') \<longleftrightarrow> ext_matches r e"
    using e inj_onD [OF inj, of e] by (metis ext_matches_def)
  moreover have "ext_row_errors (map_of (dict_of ev_eventId id expected)) r = [] \<longleftrightarrow> ext_matches r e"
    using e(2) by (cases "x_payload r")
      (auto simp: ext_row_errors_def l ext_matches_def differing_Nil ext_order_def event_order_def)
  ultimately show ?thesis by simp
qed

lemma db_row_errors_iff:
  assumes "distinct (map ev_eventId expected)" "d_event_id r \<in> ev_eventId ` set expected"
  shows "db_row_errors (map_of (dict_of ev_eventId id expected)) r = [] \<longleftrightarrow>
    (\<exists>e \<in> set expected. db_matches r e)"
proof -
  obtain e where e: "e \<in> set expected" "ev_eventId e = d_event_id r" using assms(2) by auto
  have l: "map_of (dict_of ev_eventId id expected) (d_event_id r) = Some e"
    using dict_of_distinct_lookup [OF assms(1) e(1), of id] e(2) by simp
  have inj: "inj_on ev_eventId (set expected)" using assms(1) by (simp add: distinct_map)
  have "(\<exists>e' \<in> set expected. db_matches r e') \<longleftrightarrow> db_matches r e"
    using e inj_onD [OF inj, of e] by (metis db_matches_def)
  moreover have "db_row_errors (map_of (dict_of ev_eventId id expected)) r = [] \<longleftrightarrow> db_matches r e"
    using e(2) by (auto simp: db_row_errors_def l db_matches_def differing_Nil event_order_def)
  ultimately show ?thesis by simp
qed

lemma matched_sequences:
  assumes d: "distinct (map ev_eventId expected)"
    and ids: "mset (map x_event_id effs) = mset (map ev_eventId expected)"
    and m: "\<forall>r \<in> set effs. \<exists>e \<in> set expected. ext_matches r e"
  shows "mset (map x_seq (filter (\<lambda>r. ext_order r = k) effs)) =
    mset (map ev_sequence (filter (\<lambda>e. event_order e = k) expected))"
proof -
  let ?by = "\<lambda>i. the (map_of (dict_of ev_eventId id expected) i)"
  have lk: "?by (ev_eventId e) = e" if "e \<in> set expected" for e
    using dict_of_distinct_lookup [OF d that, of id] by simp
  have r: "?by (x_event_id r) \<in> set expected \<and> ext_matches r (?by (x_event_id r))" if "r \<in> set effs" for r
    using m that by (fastforce simp: ext_matches_def lk)
  have "map x_seq (filter (\<lambda>r. ext_order r = k) effs) =
      map (ev_sequence \<circ> ?by) (filter (\<lambda>i. event_order (?by i) = k) (map x_event_id effs))"
    using r by (induction effs) (auto simp: ext_matches_def)
  moreover have "map ev_sequence (filter (\<lambda>e. event_order e = k) es) =
      map (ev_sequence \<circ> ?by) (filter (\<lambda>i. event_order (?by i) = k) (map ev_eventId es))"
    if "set es \<subseteq> set expected" for es
    using that by (induction es) (auto simp: lk)
  ultimately show ?thesis using ids
    by (metis (no_types, lifting) mset_filter mset_map order_refl)
qed

lemma sequence_errors_iff:
  assumes "distinct (map ev_eventId expected)"
    and "mset (map x_event_id effs) = mset (map ev_eventId expected)"
    and "\<forall>r \<in> set effs. \<exists>e \<in> set expected. ext_matches r e"
  shows "sequence_errors expected effs = [] \<longleftrightarrow> (\<forall>k. sorted (map x_seq (filter (\<lambda>r. ext_order r = k) effs)))"
proof -
  have s: "map x_seq (filter (\<lambda>r. ext_order r = k) effs) = wanted expected k \<longleftrightarrow>
      sorted (map x_seq (filter (\<lambda>r. ext_order r = k) effs))" for k
    unfolding wanted_def using matched_sequences [OF assms, of k]
    by (metis mset_sort properties_for_sort sorted_sort)
  have "sequence_errors expected effs = [] \<longleftrightarrow>
      (\<forall>k \<in> ext_order ` set effs. sorted (map x_seq (filter (\<lambda>r. ext_order r = k) effs)))"
    by (auto simp: sequence_errors_def set_group_by s)
  moreover have "filter (\<lambda>r. ext_order r = k) effs = []" if "k \<notin> ext_order ` set effs" for k
    using that by (auto simp: filter_empty_conv)
  ultimately show ?thesis by (metis list.simps(8) sorted_simps(1))
qed

lemma order_errors_iff:
  assumes pk: "distinct (map order_key rows)"
    and d: "distinct (map (\<lambda>e. (event_order e, ev_sequence e)) expected)"
  shows "order_errors expected label rows = [] \<longleftrightarrow> shows_final expected rows"
proof -
  have uniq: "e = e'" if "is_last expected e" "is_last expected e'" "event_order e = event_order e'" for e e'
    using that d by (force simp: is_last_def distinct_map inj_on_def intro: order_antisym)
  have f: "final_mismatch r e = [] \<and> order_key r = event_order e \<longleftrightarrow> order_matches r e" for r e
    by (auto simp: final_mismatch_def order_matches_def differing_Nil)
  have "(\<forall>k \<in> event_order ` set expected. case (map_of (dict_of order_key id rows) k, newest expected k) of
        (Some r, Some e) \<Rightarrow> map (FinalMismatch label k) (final_mismatch r e) = [] | _ \<Rightarrow> True) \<longleftrightarrow>
      (\<forall>r \<in> set rows. \<exists>e. is_last expected e \<and> order_matches r e)" (is "?A \<longleftrightarrow> ?B")
    if keys: "order_key ` set rows = event_order ` set expected"
  proof
    assume ?A
    show ?B
    proof
      fix r assume r: "r \<in> set rows"
      then have k: "order_key r \<in> event_order ` set expected" using keys by blast
      then obtain e where e: "newest expected (order_key r) = Some e"
        using newest_props(2) [of expected "order_key r"] by blast
      have "map_of (dict_of order_key id rows) (order_key r) = Some r"
        using dict_of_distinct_lookup [OF pk r, of id] by simp
      then have "final_mismatch r e = []" using \<open>?A\<close> k e by fastforce
      then show "\<exists>e. is_last expected e \<and> order_matches r e"
        using newest_props(1) [OF e] f [of r e] by auto
    qed
  next
    assume ?B
    show ?A
    proof
      fix k assume k: "k \<in> event_order ` set expected"
      then obtain r where r: "r \<in> set rows" "order_key r = k" using keys by (metis (no_types) imageE)
      obtain e where e: "newest expected k = Some e" using k newest_props(2) [of expected k] by blast
      have "order_matches r e"
        using \<open>?B\<close> r newest_props(1) [OF e] uniq by (metis order_matches_def)
      then show "case (map_of (dict_of order_key id rows) k, newest expected k) of
          (Some r, Some e) \<Rightarrow> map (FinalMismatch label k) (final_mismatch r e) = [] | _ \<Rightarrow> True"
        using e f [of r e] dict_of_distinct_lookup [OF pk r(1), of id] r(2) by simp
    qed
  qed
  moreover have keys: "set (map fst (dict_of event_order id expected)) = event_order ` set expected" by simp
  ultimately show ?thesis
    unfolding order_errors_def Let_def append_is_Nil_conv concat_map_Nil_iff keys
    by (auto simp: shows_final_def split: option.splits)
qed

lemma db_id_errors_iff:
  assumes "distinct (map ev_eventId expected)"
  shows "db_id_errors expected rows = [] \<longleftrightarrow> mset (map d_event_id rows) = mset (map ev_eventId expected)"
proof -
  have "mset (map fst (dict_of ev_eventId id expected)) = mset (map ev_eventId expected)"
    using assms by (intro iffD1 [OF set_eq_iff_mset_eq_distinct]) simp_all
  then show ?thesis by (simp add: db_id_errors_def)
qed

lemma check_errors_iff:
  assumes "distinct (map order_key (m_orders rem))" "distinct (map order_key db_orders)"
    and "distinct (map (\<lambda>e. (event_order e, ev_sequence e)) expected)"
  shows "check_errors expected rem db_effects db_orders = [] \<longleftrightarrow> consistent expected rem db_effects db_orders"
proof (cases "distinct (map ev_eventId expected) \<and>
    mset (map x_event_id (m_effects rem)) = mset (map ev_eventId expected) \<and>
    mset (map d_event_id db_effects) = mset (map ev_eventId expected)")
  case False
  then show ?thesis
    by (auto simp: check_errors_def Let_def consistent_def length_dict_of_iff count_errors_iff db_id_errors_iff)
next
  case True
  then have d: "distinct (map ev_eventId expected)" by simp
  have x: "x_event_id r \<in> ev_eventId ` set expected" if "r \<in> set (m_effects rem)" for r
    using True that by (metis (no_types, lifting) image_eqI image_set set_mset_mset)
  have y: "d_event_id r \<in> ev_eventId ` set expected" if "r \<in> set db_effects" for r
    using True that by (metis (no_types, lifting) image_eqI image_set set_mset_mset)
  let ?by = "map_of (dict_of ev_eventId id expected)"
  have e: "concat (map (ext_row_errors ?by) (m_effects rem)) = [] \<longleftrightarrow>
      (\<forall>r \<in> set (m_effects rem). \<exists>e \<in> set expected. ext_matches r e)"
    using ext_row_errors_iff [OF d x] by simp
  have b: "concat (map (db_row_errors ?by) db_effects) = [] \<longleftrightarrow>
      (\<forall>r \<in> set db_effects. \<exists>e \<in> set expected. db_matches r e)"
    using db_row_errors_iff [OF d y] by simp
  have a: "list_ex (\<lambda>a. ar_status a = Some 409) (m_attempts rem) \<longleftrightarrow>
      \<not> (\<forall>a \<in> set (m_attempts rem). ar_status a \<noteq> Some 409)"
    by (simp add: list_ex_iff)
  show ?thesis
    using True sequence_errors_iff [of expected "m_effects rem"] e b a
    by (simp add: check_errors_def Let_def consistent_def length_dict_of_iff count_errors_iff
        db_id_errors_iff order_errors_iff [OF assms(1,3)] order_errors_iff [OF assms(2,3)] del: concat_eq_Nil_conv)
      blast
qed

section \<open>Sample case\<close>

definition ext_of :: "event \<Rightarrow> ext_row" where
  "ext_of e = \<lparr>x_event_id = ev_eventId e, x_seller_id = ev_sellerId e, x_order_id = ev_orderId e,
     x_seq = ev_sequence e, x_operation = ev_operation e, x_quantity = ev_quantity e, x_price = ev_price e,
     x_payload = Some (body_of e)\<rparr>"

definition db_of :: "event \<Rightarrow> db_row" where
  "db_of e = \<lparr>d_event_id = ev_eventId e, d_run_id = ev_runId e, d_seller_id = ev_sellerId e,
     d_order_id = ev_orderId e, d_seq = ev_sequence e, d_operation = ev_operation e,
     d_quantity = ev_quantity e, d_price = ev_price e\<rparr>"

definition order_of :: "event \<Rightarrow> order_row" where
  "order_of e = \<lparr>or_seller_id = ev_sellerId e, or_order_id = ev_orderId e, or_seq = ev_sequence e,
     or_operation = ev_operation e, or_quantity = ev_quantity e, or_price = ev_price e\<rparr>"

section \<open>Properties\<close>

text \<open>C4: The effect checker is sound and complete. For a plan in which no two events share an order
  and a sequence, and order tables with the primary key of their schema, the report passes exactly
  when every expected event has one unaltered effect at the seller and one row in the business
  database, no other effect exists, each order's effects arrived in sequence, both final order
  tables show the last operation of every order and nothing else, and no request was answered 409.\<close>

theorem check_passed_iff_consistent:
  assumes "distinct (map order_key (m_orders rem))" "distinct (map order_key db_orders)"
    and "distinct (map (\<lambda>e. (event_order e, ev_sequence e)) expected)"
  shows "ck_passed (check_effects expected rem db_effects db_orders) \<longleftrightarrow>
    consistent expected rem db_effects db_orders"
  using check_errors_iff [OF assms] by (simp add: check_effects_def Let_def)

theorem check_passed_iff_consistent_witness:
  "let e1 = sample_event ''e1'' 1 ''CREATE''; e2 = sample_event ''e2'' 2 ''CHANGE'';
       orders = [order_of e2]
   in consistent [e1, e2] \<lparr>m_effects = [ext_of e1, ext_of e2], m_orders = orders, m_attempts = []\<rparr>
        [db_of e2, db_of e1] orders \<and>
      \<not> consistent [e1, e2] \<lparr>m_effects = [ext_of e2, ext_of e1], m_orders = orders, m_attempts = []\<rparr>
        [db_of e2, db_of e1] orders"
proof -
  let ?e1 = "sample_event ''e1'' 1 ''CREATE''" and ?e2 = "sample_event ''e2'' 2 ''CHANGE''"
  let ?rem = "\<lambda>xs. \<lparr>m_effects = xs, m_orders = [order_of ?e2], m_attempts = []\<rparr>"
  have h: "distinct (map order_key [order_of ?e2])"
    "distinct (map (\<lambda>e. (event_order e, ev_sequence e)) [?e1, ?e2])" by code_simp+
  have r: "ck_passed (check_effects [?e1, ?e2] (?rem [ext_of ?e1, ext_of ?e2]) [db_of ?e2, db_of ?e1] [order_of ?e2])"
    "\<not> ck_passed (check_effects [?e1, ?e2] (?rem [ext_of ?e2, ext_of ?e1]) [db_of ?e2, db_of ?e1] [order_of ?e2])"
    by code_simp+
  show ?thesis
    using check_passed_iff_consistent [of "?rem [ext_of ?e1, ext_of ?e2]" "[order_of ?e2]" "[?e1, ?e2]" "[db_of ?e2, db_of ?e1]"]
      check_passed_iff_consistent [of "?rem [ext_of ?e2, ext_of ?e1]" "[order_of ?e2]" "[?e1, ?e2]" "[db_of ?e2, db_of ?e1]"]
      h r by (simp add: Let_def)
qed

end
