(* ===== verification/Py_Float.thy ===== *)
theory Py_Float
  imports Prelude "HOL-Library.Log_Nat"
begin

text \<open>
  Python floats. A double is represented by its exact rational value, and every arithmetic
  operation of the sources that goes through floats is written as \<open>fl\<close> of the exact result:
  round to nearest, ties to even, 53 significant bits. Overflow and subnormal numbers are
  outside the model (the sources' values are counts, milliseconds and shares). \<open>py_round\<close> is
  \<open>round(x, n)\<close>: the decimal nearest to the exact value of the double, converted back.
\<close>

definition expo :: "rat \<Rightarrow> int" where
  "expo x = (if 1 \<le> x then bitlen \<lfloor>x\<rfloor> - 1 else - bitlen (\<lceil>1 / x\<rceil> - 1))"

definition half_even :: "rat \<Rightarrow> int" where
  "half_even y =
     (let f = \<lfloor>y\<rfloor>; d = y - of_int f
      in if d < 1 / 2 then f else if 1 / 2 < d then f + 1 else if even f then f else f + 1)"

definition fl_pos :: "rat \<Rightarrow> rat" where
  "fl_pos x = (let u = 2 powi (expo x - 52) in of_int (half_even (x / u)) * u)"

definition fl :: "rat \<Rightarrow> rat" where
  "fl x = (if x = 0 then 0 else if x < 0 then - fl_pos (- x) else fl_pos x)"

definition py_round :: "nat \<Rightarrow> rat \<Rightarrow> rat" where
  "py_round n x = fl (of_int (half_even (x * 10 ^ n)) / 10 ^ n)"

section \<open>Rounding to an integer\<close>

lemma half_even_err: "\<bar>of_int (half_even y) - y\<bar> \<le> 1 / 2"
proof -
  have "of_int \<lfloor>y\<rfloor> \<le> y" "y < of_int \<lfloor>y\<rfloor> + 1" by linarith+
  then show ?thesis by (auto simp: half_even_def Let_def abs_le_iff)
qed

lemma half_even_of_int [simp]: "half_even (of_int k) = k"
  by (simp add: half_even_def)

section \<open>The exponent\<close>

lemma bitlen_ge_1: "1 \<le> k \<Longrightarrow> 1 \<le> bitlen k"
  using bitlen_eq_zero_iff [of k] bitlen_nonneg [of k] by linarith

lemma expo_lower:
  assumes "0 < x" shows "2 powi expo x \<le> x"
proof (cases "1 \<le> x")
  case True
  then have f: "1 \<le> \<lfloor>x\<rfloor>" by simp
  have e: "expo x = int (nat (bitlen \<lfloor>x\<rfloor> - 1))"
    using True bitlen_ge_1 [OF f] by (simp add: expo_def)
  have "2 ^ nat (bitlen \<lfloor>x\<rfloor> - 1) \<le> \<lfloor>x\<rfloor>" using f bitlen_bounds by simp
  then have "of_int (2 ^ nat (bitlen \<lfloor>x\<rfloor> - 1)) \<le> (of_int \<lfloor>x\<rfloor> :: rat)"
    by (rule of_int_le_iff [THEN iffD2])
  also have "\<dots> \<le> x" by simp
  finally show ?thesis unfolding e power_int_of_nat by simp
next
  case False
  define c where "c = \<lceil>1 / x\<rceil>"
  from False assms have "1 < 1 / x" by simp
  then have c: "1 \<le> c - 1" unfolding c_def by linarith
  have "c - 1 < 2 ^ nat (bitlen (c - 1))" using c bitlen_bounds by simp
  then have "c \<le> 2 ^ nat (bitlen (c - 1))" by simp
  then have "of_int c \<le> (of_int (2 ^ nat (bitlen (c - 1))) :: rat)" by (rule of_int_le_iff [THEN iffD2])
  moreover have "1 / x \<le> of_int c" by (simp add: c_def)
  ultimately have "1 / x \<le> of_int (2 ^ nat (bitlen (c - 1)))" by (rule order_trans [rotated])
  then have "1 / x \<le> 2 ^ nat (bitlen (c - 1))" by simp
  then have "1 / 2 ^ nat (bitlen (c - 1)) \<le> x" using assms by (simp add: field_simps)
  moreover have "2 powi expo x = (1 :: rat) / 2 ^ nat (bitlen (c - 1))"
    using False by (simp add: expo_def c_def bitlen_nonneg power_int_def field_simps)
  ultimately show ?thesis by simp
qed

lemma expo_int_upper:
  assumes "1 \<le> n" "n < 2 ^ k" shows "expo (of_int n) < int k"
proof -
  have "bitlen n \<le> int k" using assms by (simp add: bitlen_le_iff_power)
  then show ?thesis using assms by (simp add: expo_def)
qed

lemma expo_less:
  assumes "0 < x" "x < 2 ^ k" shows "expo x < int k"
proof -
  have "2 powi expo x < (2 :: rat) powi int k"
    using expo_lower [OF assms(1)] assms(2) by (simp add: power_int_of_nat)
  then show ?thesis using power_int_increasing [of "int k" "expo x" "2 :: rat"] by linarith
qed

lemma expo_ge:
  assumes "2 ^ k \<le> x" shows "int k \<le> expo x"
proof -
  have one: "1 \<le> x" using assms one_le_power [of "2 :: rat" k] by linarith
  have "2 ^ k \<le> \<lfloor>x\<rfloor>" using assms by (simp add: le_floor_iff)
  then have "int k + 1 \<le> bitlen \<lfloor>x\<rfloor>" by (simp add: bitlen_ge_iff_power nat_add_distrib)
  then show ?thesis using one by (simp add: expo_def)
qed

section \<open>Rounding error, exact integers\<close>

lemma fl_pos_ulp_err:
  assumes "0 < x" shows "\<bar>fl_pos x - x\<bar> \<le> 2 powi (expo x - 53)"
proof -
  define u :: rat where "u = 2 powi (expo x - 52)"
  have u: "0 < u" by (simp add: u_def)
  have "fl_pos x - x = (of_int (half_even (x / u)) - x / u) * u"
    using u by (simp add: fl_pos_def u_def [symmetric] Let_def left_diff_distrib)
  then have "\<bar>fl_pos x - x\<bar> = \<bar>of_int (half_even (x / u)) - x / u\<bar> * u"
    using u by (simp add: abs_mult)
  also have "\<dots> \<le> 1 / 2 * u" using half_even_err u by (intro mult_right_mono) auto
  also have "\<dots> = 2 powi (expo x - 53)"
    by (simp add: u_def power_int_diff)
  finally show ?thesis .
qed

lemma fl_pos_err:
  assumes "0 < x" shows "\<bar>fl_pos x - x\<bar> \<le> x / 2 ^ 53"
proof -
  have "\<bar>fl_pos x - x\<bar> \<le> 2 powi expo x / 2 ^ 53"
    using fl_pos_ulp_err [OF assms] by (simp add: power_int_diff)
  also have "\<dots> \<le> x / 2 ^ 53" using expo_lower [OF assms] by (simp add: divide_right_mono)
  finally show ?thesis .
qed

lemma fl_ulp_err: "0 < x \<Longrightarrow> \<bar>fl x - x\<bar> \<le> 2 powi (expo x - 53)"
  using fl_pos_ulp_err by (simp add: fl_def)

lemma fl_err: "0 < x \<Longrightarrow> \<bar>fl x - x\<bar> \<le> x / 2 ^ 53"
  using fl_pos_err by (simp add: fl_def)

lemma fl_positive: "0 < x \<Longrightarrow> 0 < fl x"
proof -
  assume x: "0 < x"
  then have "x / 2 ^ 53 < x" by simp
  moreover have "x - x / 2 ^ 53 \<le> fl x" using fl_err [OF x] by linarith
  ultimately show ?thesis by linarith
qed

lemma fl_half: "0 < x \<Longrightarrow> x \<le> 2 * fl x"
proof -
  assume x: "0 < x"
  have p53: "(2 :: rat) ^ 53 = 9007199254740992" by simp
  have "x - x / 9007199254740992 \<le> fl x" using fl_err [OF x] unfolding abs_le_iff p53 by linarith
  then show ?thesis using x by linarith
qed

lemma fl_zero [simp]: "fl 0 = 0"
  by (simp add: fl_def)

lemma fl_nonneg: "0 \<le> x \<Longrightarrow> 0 \<le> fl x"
  using fl_positive [of x] by (cases "x = 0") auto

lemma fl_pos_ulp_multiple:
  assumes "x = of_int k * 2 powi (expo x - 52)" shows "fl_pos x = x"
proof -
  define u :: rat where "u = 2 powi (expo x - 52)"
  have "0 < u" by (simp add: u_def)
  moreover have "x = of_int k * u" using assms by (simp add: u_def)
  ultimately have "x / u = of_int k" by simp
  then have "fl_pos x = of_int k * u" unfolding fl_pos_def Let_def u_def [symmetric] by simp
  then show ?thesis using \<open>x = of_int k * u\<close> by simp
qed

lemma fl_of_int: "0 \<le> n \<Longrightarrow> n < 2 ^ 53 \<Longrightarrow> fl (of_int n) = of_int n"
proof (cases "n = 0")
  case False
  assume "0 \<le> n" "n < 2 ^ 53"
  with False have n: "1 \<le> n" "n < 2 ^ 53" by auto
  have e: "expo (of_int n) \<le> 52" using expo_int_upper [OF n] by simp
  have "of_int n = of_int (n * 2 ^ nat (52 - expo (of_int n))) * (2 :: rat) powi (expo (of_int n) - 52)"
  proof -
    have "(2 :: rat) ^ nat (52 - expo (of_int n)) = 2 powi (52 - expo (of_int n))"
      using e by (simp flip: power_int_of_nat)
    moreover have "(2 :: rat) powi (52 - expo (of_int n)) * 2 powi (expo (of_int n) - 52) = 1"
      by (simp flip: power_int_add)
    ultimately show ?thesis by simp
  qed
  then have "fl_pos (of_int n) = of_int n" by (rule fl_pos_ulp_multiple)
  then show ?thesis using n by (simp add: fl_def)
qed simp

lemma fl_of_nat: "n < 2 ^ 53 \<Longrightarrow> fl (of_nat n) = of_nat n"
  using fl_of_int [of "int n"] by simp

end
