(* ===== verification/Intervals.thy ===== *)
theory Intervals
  imports Py_Float
begin

text \<open>
  The measuring functions that the checkers and reports share, from
  \<open>experiments/isolation/check.py\<close> (\<open>pct\<close>, \<open>max_overlap\<close>, \<open>time_above\<close>,
  \<open>max_in_window\<close>) and the other sweeps of the same shape in
  \<open>experiments/verify_budgets.py\<close> and \<open>experiments/ops_report.py\<close>. A sweep sorts the
  start and end points of half-open intervals and keeps a running count. The locale
  \<open>point_sweep\<close> states what a sweep needs of its point list (the right points, sorted, ends
  before starts at equal times) and proves once what the running count then measures; every
  point list of the sources is an interpretation of it.
\<close>

type_synonym interval = "int \<times> int"
type_synonym point = "int \<times> int"

section \<open>Definitions\<close>

text \<open>\<open>max_overlap\<close> appends the two points of each interval in turn; \<open>time_above\<close> puts all
  starts before all ends. Both sort by time and then by delta.\<close>

definition overlap_points :: "interval list \<Rightarrow> point list" where
  "overlap_points ivs = sort (concat (map (\<lambda>(s, e). [(s, 1), (e, -1)]) ivs))"

definition above_points :: "interval list \<Rightarrow> point list" where
  "above_points ivs = sort (map (\<lambda>(s, _). (s, 1)) ivs @ map (\<lambda>(_, e). (e, -1)) ivs)"

fun sweep_peak :: "int \<Rightarrow> int \<Rightarrow> point list \<Rightarrow> int" where
  "sweep_peak current peak [] = peak"
| "sweep_peak current peak ((_, delta) # ps) =
     sweep_peak (current + delta) (max peak (current + delta)) ps"

definition max_overlap :: "interval list \<Rightarrow> int" where
  "max_overlap ivs = sweep_peak 0 0 (overlap_points ivs)"

fun sweep_above :: "int \<Rightarrow> int \<Rightarrow> int option \<Rightarrow> int \<Rightarrow> point list \<Rightarrow> int" where
  "sweep_above limit current prev over [] = over"
| "sweep_above limit current prev over ((t, delta) # ps) =
     sweep_above limit (current + delta) (Some t)
       (case prev of None \<Rightarrow> over
        | Some l \<Rightarrow> if limit < current then over + (t - l) else over) ps"

definition time_above :: "interval list \<Rightarrow> int \<Rightarrow> int" where
  "time_above ivs limit = sweep_above limit 0 None 0 (above_points ivs)"

text \<open>\<open>bisect.bisect_right(xs, x)\<close> on a sorted list: the number of elements not above \<open>x\<close>.\<close>

definition bisect_right :: "rat list \<Rightarrow> rat \<Rightarrow> nat" where
  "bisect_right xs x = length (takeWhile (\<lambda>y. y \<le> x) xs)"

text \<open>The double nearest to \<open>1e-9\<close>, and the float \<open>t + window_ms - 1e-9\<close>.\<close>

definition eps9 :: rat where
  "eps9 = 4835703278458517 / 2 ^ 82"

definition window_end :: "int \<Rightarrow> int \<Rightarrow> rat" where
  "window_end t window_ms = fl (of_int (t + window_ms) - eps9)"

fun window_loop :: "int list \<Rightarrow> int \<Rightarrow> nat \<Rightarrow> int \<Rightarrow> int list \<Rightarrow> int" where
  "window_loop all window_ms i best [] = best"
| "window_loop all window_ms i best (t # ts) =
     window_loop all window_ms (Suc i)
       (max best (int (bisect_right (map of_int all) (window_end t window_ms)) - int i)) ts"

definition max_in_window :: "int list \<Rightarrow> int \<Rightarrow> int" where
  "max_in_window all window_ms = (let ts = sort all in window_loop ts window_ms 0 0 ts)"

text \<open>\<open>pct\<close>: the rank is \<open>math.ceil(q * len(values))\<close>, computed in floats.\<close>

definition pct_rank :: "rat \<Rightarrow> nat \<Rightarrow> int" where
  "pct_rank q n = \<lceil>fl (q * of_nat n)\<rceil>"

definition pct :: "'a::linorder list \<Rightarrow> rat \<Rightarrow> 'a option result" where
  "pct values q =
     (if values = [] then Inr None
      else bindR (py_get (sort values) (nat (max 0 (pct_rank q (length values) - 1))))
             (\<lambda>v. Inr (Some v)))"

section \<open>What a sweep measures\<close>

definition open_at :: "interval list \<Rightarrow> int \<Rightarrow> int" where
  "open_at ivs t = int (length (filter (\<lambda>(s, e). s \<le> t \<and> t < e) ivs))"

definition forward :: "interval list \<Rightarrow> bool" where
  "forward ivs \<longleftrightarrow> list_all (\<lambda>(s, e). s \<le> e) ivs"

definition level :: "point list \<Rightarrow> int \<Rightarrow> int" where
  "level ps t = sum_list (map snd (filter (\<lambda>p. fst p \<le> t) ps))"

lemma level_simps [simp]:
  "level [] t = 0"
  "level (p # ps) t = (if fst p \<le> t then snd p else 0) + level ps t"
  by (simp_all add: level_def)

lemma level_append [simp]: "level (ps @ qs) t = level ps t + level qs t"
  by (simp add: level_def)

lemma level_mset:
  assumes "mset ps = mset qs" shows "level ps t = level qs t"
proof -
  have "mset (map snd (filter (\<lambda>p. fst p \<le> t) ps)) = mset (map snd (filter (\<lambda>p. fst p \<le> t) qs))"
    using assms by simp
  then have "sum_mset (mset (map snd (filter (\<lambda>p. fst p \<le> t) ps))) =
      sum_mset (mset (map snd (filter (\<lambda>p. fst p \<le> t) qs)))" by (rule arg_cong)
  then show ?thesis unfolding level_def sum_mset_sum_list .
qed

lemma level_before: "\<forall>p\<in>set ps. t < fst p \<Longrightarrow> level ps t = 0"
  by (induction ps) auto

lemma level_after: "\<forall>p\<in>set ps. fst p \<le> t \<Longrightarrow> level ps t = sum_list (map snd ps)"
  by (induction ps) auto

lemma level_points:
  "forward ivs \<Longrightarrow> level (concat (map (\<lambda>(s, e). [(s, 1), (e, -1)]) ivs)) t = open_at ivs t"
  by (induction ivs) (auto simp: open_at_def forward_def split: if_splits)

lemma sweep_peak_keeps: "peak \<le> sweep_peak current peak ps"
proof (induction ps arbitrary: current peak)
  case (Cons p ps)
  show ?case using Cons.IH [of "max peak (current + snd p)" "current + snd p"] by (cases p) simp
qed simp

lemma sweep_peak_ge:
  "current \<le> peak \<Longrightarrow> k \<le> length ps \<Longrightarrow>
    current + sum_list (map snd (take k ps)) \<le> sweep_peak current peak ps"
proof (induction ps arbitrary: current peak k)
  case (Cons p ps)
  show ?case
  proof (cases k)
    case 0
    then show ?thesis using Cons.prems sweep_peak_keeps [of peak current "p # ps"] by simp
  next
    case (Suc j)
    have "(current + snd p) + sum_list (map snd (take j ps)) \<le>
        sweep_peak (current + snd p) (max peak (current + snd p)) ps"
      using Suc Cons.prems by (intro Cons.IH) auto
    then show ?thesis using Suc by (cases p) (simp add: algebra_simps)
  qed
qed simp

lemma sweep_peak_attained:
  "sweep_peak current peak ps = peak \<or>
    (\<exists>k < length ps. sweep_peak current peak ps = current + sum_list (map snd (take (Suc k) ps)))"
proof (induction ps arbitrary: current peak)
  case (Cons p ps)
  consider "sweep_peak current peak (p # ps) = max peak (current + snd p)"
    | k where "k < length ps"
        "sweep_peak current peak (p # ps) = current + snd p + sum_list (map snd (take (Suc k) ps))"
    using Cons.IH [of "current + snd p" "max peak (current + snd p)"] by (cases p) auto
  then show ?case
  proof cases
    case 1
    then show ?thesis by (cases "current + snd p \<le> peak") (auto simp: max_def intro!: exI [of _ 0])
  next
    case 2
    then show ?thesis by (auto intro!: exI [of _ "Suc k"])
  qed
qed simp

lemma finite_level_above:
  assumes "c + sum_list (map snd ps) \<le> limit"
  shows "finite {t. l \<le> t \<and> limit < c + level ps t}"
proof (rule finite_subset)
  show "finite {l .. Max (insert l (fst ` set ps))}" by simp
  show "{t. l \<le> t \<and> limit < c + level ps t} \<subseteq> {l .. Max (insert l (fst ` set ps))}"
  proof
    fix t assume t: "t \<in> {t. l \<le> t \<and> limit < c + level ps t}"
    have "\<exists>p\<in>set ps. t < fst p"
    proof (rule ccontr)
      assume "\<not> ?thesis"
      then have "level ps t = sum_list (map snd ps)" by (intro level_after) auto
      then show False using t assms by simp
    qed
    then obtain p where "p \<in> set ps" "t < fst p" by blast
    then have "t \<le> Max (insert l (fst ` set ps))"
      by (meson Max_ge finite.insertI finite_imageI finite_set imageI insertI2 less_imp_le order_trans)
    then show "t \<in> {l .. Max (insert l (fst ` set ps))}" using t by simp
  qed
qed

lemma sweep_above_card:
  "sorted ps \<Longrightarrow> \<forall>p\<in>set ps. l \<le> fst p \<Longrightarrow> c + sum_list (map snd ps) \<le> limit \<Longrightarrow>
    sweep_above limit c (Some l) a ps = a + int (card {t. l \<le> t \<and> limit < c + level ps t})"
proof (induction ps arbitrary: c l a)
  case (Cons p ps)
  obtain t0 d where p: "p = (t0, d)" by (cases p)
  have l: "l \<le> t0" using Cons.prems(2) p by simp
  have late: "\<forall>q\<in>set ps. t0 \<le> fst q" using Cons.prems(1) p by (auto simp: less_eq_prod_def)
  define A where "A = {t. l \<le> t \<and> t < t0 \<and> limit < c}"
  define B where "B = {t. t0 \<le> t \<and> limit < (c + d) + level ps t}"
  have A: "finite A" "card A = (if limit < c then nat (t0 - l) else 0)"
  proof -
    have "A = (if limit < c then {l ..< t0} else {})" by (auto simp: A_def)
    then show "finite A" "card A = (if limit < c then nat (t0 - l) else 0)" by auto
  qed
  have B: "finite B" unfolding B_def using Cons.prems(3) p by (intro finite_level_above) simp
  have "level ps t = 0" if "t < t0" for t using that late by (intro level_before) auto
  then have split: "{t. l \<le> t \<and> limit < c + level (p # ps) t} = A \<union> B"
    using l p by (auto simp: A_def B_def not_le add.assoc)
  have "A \<inter> B = {}" by (auto simp: A_def B_def)
  then have card: "card {t. l \<le> t \<and> limit < c + level (p # ps) t} = card A + card B"
    using A(1) B by (simp only: split card_Un_disjoint)
  have "sweep_above limit (c + d) (Some t0) x ps = x + int (card B)" for x
    unfolding B_def using Cons.prems p late by (intro Cons.IH) auto
  then show ?case using p l A(2) card by simp
qed simp

locale point_sweep =
  fixes points :: "interval list \<Rightarrow> point list"
  assumes points_mset:
      "mset (points ivs) = mset (concat (map (\<lambda>(s, e). [(s, 1), (e, -1)]) ivs))"
    and points_sorted: "sorted (points ivs)"
begin

lemma level_open: "forward ivs \<Longrightarrow> level (points ivs) t = open_at ivs t"
  by (simp only: level_mset [OF points_mset] level_points)

lemma level_is_prefix_sum:
  "\<exists>k \<le> length (points ivs). level (points ivs) t = sum_list (map snd (take k (points ivs)))"
proof -
  have tail: "sorted ps \<Longrightarrow> filter (\<lambda>p. fst p \<le> t) ps = takeWhile (\<lambda>p. fst p \<le> t) ps"
    for ps :: "point list"
  proof (induction ps)
    case (Cons p ps)
    show ?case
    proof (cases "fst p \<le> t")
      case False
      then have "\<forall>q\<in>set ps. \<not> fst q \<le> t" using Cons.prems by (auto simp: less_eq_prod_def)
      with False show ?thesis by (simp add: filter_empty_conv)
    qed (use Cons in auto)
  qed simp
  let ?k = "length (takeWhile (\<lambda>p. fst p \<le> t) (points ivs))"
  have "level (points ivs) t = sum_list (map snd (take ?k (points ivs)))"
    unfolding level_def tail [OF points_sorted] by (simp flip: takeWhile_eq_take)
  then show ?thesis using length_takeWhile_le by blast
qed

lemma delta_cases: "p \<in> set (points ivs) \<Longrightarrow> snd p = 1 \<or> snd p = -1"
proof -
  assume "p \<in> set (points ivs)"
  then have "p \<in> set (concat (map (\<lambda>(s, e). [(s, 1), (e, -1)]) ivs))"
    using mset_eq_setD [OF points_mset] by blast
  then show ?thesis by auto
qed

text \<open>A prefix that ends in a start is below the level at that start's time: what is left at
  the same time are starts.\<close>

lemma prefix_start_le_level:
  assumes k: "k < length (points ivs)" and start: "snd (points ivs ! k) = 1"
  shows "sum_list (map snd (take (Suc k) (points ivs))) \<le> level (points ivs) (fst (points ivs ! k))"
proof -
  let ?ps = "points ivs" and ?t = "fst (points ivs ! k)"
  have le: "\<forall>p\<in>set (take (Suc k) ?ps). fst p \<le> ?t"
  proof
    fix p assume "p \<in> set (take (Suc k) ?ps)"
    then obtain i where "i \<le> k" "p = ?ps ! i" using k by (auto simp: in_set_conv_nth less_Suc_eq_le)
    then have "p \<le> ?ps ! k" using points_sorted k by (simp add: sorted_iff_nth_mono)
    then show "fst p \<le> ?t" by (auto simp: less_eq_prod_def)
  qed
  have up: "0 \<le> snd p" if p: "p \<in> set (drop (Suc k) ?ps)" and "fst p \<le> ?t" for p
  proof -
    from p obtain j where "j < length ?ps - Suc k" "p = drop (Suc k) ?ps ! j"
      by (auto simp: in_set_conv_nth)
    then obtain i where "k < i" "i < length ?ps" "p = ?ps ! i"
      using that k by (intro that [of "Suc k + j"]) auto
    then have "?ps ! k \<le> p" and "p \<in> set ?ps" using points_sorted by (auto simp: sorted_iff_nth_mono)
    then show ?thesis using delta_cases [of p ivs] start \<open>fst p \<le> ?t\<close> by (auto simp: less_eq_prod_def)
  qed
  have "0 \<le> level (drop (Suc k) ?ps) ?t"
    unfolding level_def using up by (intro sum_list_nonneg) auto
  moreover have "level ?ps ?t = level (take (Suc k) ?ps) ?t + level (drop (Suc k) ?ps) ?t"
    by (metis append_take_drop_id level_append)
  ultimately show ?thesis using level_after [OF le] by simp
qed

lemma prefix_bounded:
  "k \<le> length (points ivs) \<Longrightarrow>
    sum_list (map snd (take k (points ivs))) \<le> 0 \<or>
    (\<exists>j < length (points ivs). snd (points ivs ! j) = 1 \<and>
       sum_list (map snd (take k (points ivs))) \<le> level (points ivs) (fst (points ivs ! j)))"
proof (induction k)
  case (Suc k)
  let ?ps = "points ivs"
  have k: "k < length ?ps" using Suc.prems by simp
  show ?case
  proof (cases "snd (?ps ! k) = 1")
    case True
    then show ?thesis using prefix_start_le_level [OF k] k by blast
  next
    case False
    then have "snd (?ps ! k) = -1" using delta_cases nth_mem [OF k] by blast
    then have "sum_list (map snd (take (Suc k) ?ps)) \<le> sum_list (map snd (take k ?ps))"
      using k by (simp add: take_Suc_conv_app_nth)
    then show ?thesis using Suc.IH k by (meson less_imp_le order_trans)
  qed
qed simp

lemma start_time: "p \<in> set (points ivs) \<Longrightarrow> snd p = 1 \<Longrightarrow> fst p \<in> fst ` set ivs"
proof -
  assume p: "p \<in> set (points ivs)" "snd p = 1"
  then have "p \<in> set (concat (map (\<lambda>(s, e). [(s, 1), (e, -1)]) ivs))"
    using mset_eq_setD [OF points_mset] by blast
  then show ?thesis using p by (force simp: image_iff)
qed

lemma peak_is_max_open:
  assumes "forward ivs"
  shows "open_at ivs t \<le> sweep_peak 0 0 (points ivs)"
    and "sweep_peak 0 0 (points ivs) = 0 \<or>
         (\<exists>t \<in> fst ` set ivs. sweep_peak 0 0 (points ivs) = open_at ivs t)"
proof -
  let ?peak = "sweep_peak 0 0 (points ivs)"
  have ge: "open_at ivs t \<le> ?peak" for t
  proof -
    obtain k where "k \<le> length (points ivs)"
        "open_at ivs t = sum_list (map snd (take k (points ivs)))"
      using level_is_prefix_sum level_open [OF assms] by metis
    then show ?thesis using sweep_peak_ge [of 0 0 k "points ivs"] by simp
  qed
  show "open_at ivs t \<le> ?peak" by (rule ge)
  show "?peak = 0 \<or> (\<exists>t \<in> fst ` set ivs. ?peak = open_at ivs t)"
  proof (cases "?peak \<le> 0")
    case True
    then show ?thesis using sweep_peak_ge [of 0 0 0 "points ivs"] by simp
  next
    case False
    then obtain k where "k < length (points ivs)"
        and eq: "?peak = sum_list (map snd (take (Suc k) (points ivs)))"
      using sweep_peak_attained [of 0 0 "points ivs"] by auto
    then obtain j where j: "j < length (points ivs)" "snd (points ivs ! j) = 1"
        "?peak \<le> level (points ivs) (fst (points ivs ! j))"
      using prefix_bounded [of "Suc k" ivs] False by auto
    then have "?peak = open_at ivs (fst (points ivs ! j))"
      using ge level_open [OF assms] by (simp add: antisym)
    then show ?thesis using start_time nth_mem j by blast
  qed
qed

lemma total_delta: "sum_list (map snd (points ivs)) = 0"
proof -
  have "sum_list (map snd (concat (map (\<lambda>(s, e). [(s, 1), (e, -1 :: int)]) ivs))) = 0" for ivs :: "interval list"
    by (induction ivs) auto
  moreover have "mset (map snd (points ivs)) =
      mset (map snd (concat (map (\<lambda>(s, e). [(s, 1), (e, -1)]) ivs)))"
    by (simp only: mset_map points_mset)
  ultimately show ?thesis by (simp flip: sum_mset_sum_list)
qed

lemma above_counts_instants:
  assumes "forward ivs" "0 \<le> limit"
  shows "sweep_above limit 0 None 0 (points ivs) = int (card {t. limit < open_at ivs t})"
proof (cases "points ivs")
  case Nil
  then have "open_at ivs t = 0" for t using level_open [OF assms(1), of t] by simp
  with Nil assms(2) show ?thesis by simp
next
  case (Cons p ps)
  obtain t0 d where p: "p = (t0, d)" by (cases p)
  have s: "sorted (p # ps)" using points_sorted [of ivs] Cons by simp
  then have late: "\<forall>q\<in>set ps. t0 \<le> fst q" using p by (auto simp: less_eq_prod_def)
  have "sweep_above limit 0 None 0 (points ivs) = sweep_above limit d (Some t0) 0 ps"
    using Cons p by simp
  also have "\<dots> = int (card {t. t0 \<le> t \<and> limit < d + level ps t})"
    using s late total_delta [of ivs] Cons p assms(2) by (subst sweep_above_card) auto
  also have "{t. t0 \<le> t \<and> limit < d + level ps t} = {t. limit < open_at ivs t}"
  proof -
    have "limit < level (points ivs) t \<longleftrightarrow> t0 \<le> t \<and> limit < d + level ps t" for t
      using level_before [of ps t] late p Cons assms(2) by force
    then show ?thesis using level_open [OF assms(1)] by auto
  qed
  finally show ?thesis .
qed

end

section \<open>The sources' point lists\<close>

lemma mset_pairs:
  "mset (concat (map (\<lambda>(s, e). [(s, 1), (e, -1 :: int)]) ivs)) =
    mset (map (\<lambda>(s, _). (s, 1)) ivs @ map (\<lambda>(_, e). (e, -1)) ivs)"
  by (induction ivs) auto

interpretation check_overlap: point_sweep overlap_points
  by unfold_locales (simp_all add: overlap_points_def)

interpretation check_above: point_sweep above_points
  by unfold_locales (simp_all add: above_points_def mset_pairs del: mset_append)

text \<open>Against a limit, the peak is a bound on every instant.\<close>

lemma max_overlap_le_iff:
  assumes "forward ivs" "0 \<le> b"
  shows "max_overlap ivs \<le> b \<longleftrightarrow> (\<forall>t. open_at ivs t \<le> b)"
  using check_overlap.peak_is_max_open [OF assms(1)] assms(2) unfolding max_overlap_def
  by (metis order_trans)

section \<open>Counting in a sliding window\<close>

text \<open>The float right end of a window. Up to \<open>2^24\<close> the subtraction of \<open>1e-9\<close> survives
  rounding; above it the result is the integer itself.\<close>

lemma fl_minus_eps9_large:
  assumes "2 ^ 24 < n" "n < 2 ^ 53" shows "fl (of_int n - eps9) = of_int n"
proof -
  define x :: rat where "x = of_int n - eps9"
  have e: "0 < eps9" "eps9 < 1 / 2 ^ 29" by (simp_all add: eps9_def)
  have "of_int (2 ^ 24 + 1) \<le> (of_int n :: rat)" using assms(1) by (subst of_int_le_iff) simp
  then have low: "2 ^ 24 \<le> x" unfolding x_def using e by simp
  have "(of_int n :: rat) < of_int (2 ^ 53)" using assms(2) by (subst of_int_less_iff)
  then have high: "x < 2 ^ 53" unfolding x_def using e by simp
  have k: "24 \<le> expo x" "expo x < 53" using expo_ge [OF low] expo_less [OF _ high] low by auto
  define u :: rat where "u = 2 powi (expo x - 52)"
  define m :: int where "m = n * 2 ^ nat (52 - expo x)"
  have m: "of_int n = of_int m * u"
  proof -
    have "(2 :: rat) ^ nat (52 - expo x) = 2 powi (52 - expo x)" using k by (simp flip: power_int_of_nat)
    moreover have "(2 :: rat) powi (52 - expo x) * 2 powi (expo x - 52) = 1"
      by (simp flip: power_int_add)
    ultimately show ?thesis by (simp add: m_def u_def)
  qed
  have u: "1 / 2 ^ 28 \<le> u"
  proof -
    have "(2 :: rat) powi (-28) \<le> u" unfolding u_def using k by (intro power_int_increasing) auto
    then show ?thesis by (simp add: power_int_minus)
  qed
  then have u0: "0 < u" by (rule less_le_trans [rotated]) simp
  have "eps9 < 1 / 2 * u" using e u by simp
  then have small: "eps9 / u < 1 / 2" using u0 by (simp add: divide_less_eq)
  have "x / u = of_int m - eps9 / u" unfolding x_def m using u0 by (simp add: diff_divide_distrib)
  moreover have "half_even (of_int m - eps9 / u) = m"
  proof -
    have pos: "0 < eps9 / u" using e u0 by simp
    then have "\<lfloor>of_int m - eps9 / u\<rfloor> = m - 1" using small
      by (intro floor_unique) (unfold of_int_diff of_int_1, linarith+)
    then show ?thesis using small by (simp add: half_even_def)
  qed
  ultimately have "fl_pos x = of_int m * u" unfolding fl_pos_def Let_def u_def [symmetric] by simp
  moreover have "0 < x" using low by (rule less_le_trans [rotated]) simp
  ultimately show ?thesis using m by (simp add: fl_def x_def)
qed

lemma fl_minus_eps9_small:
  assumes "1 < n" "n \<le> 2 ^ 24"
  shows "of_int (n - 1) \<le> fl (of_int n - eps9)" "fl (of_int n - eps9) < of_int n"
proof -
  define x :: rat where "x = of_int n - eps9"
  have e: "1 / 1073741824 < eps9" "eps9 < 1 / 536870912" by (simp_all add: eps9_def)
  have n: "(2 :: rat) \<le> of_int n" "(of_int n :: rat) \<le> of_int (2 ^ 24)"
    using assms by (simp, subst of_int_le_iff) simp
  then have x: "0 < x" "x < 2 ^ 24" unfolding x_def using e by simp_all
  have "\<bar>fl x - x\<bar> \<le> 2 powi (expo x - 53)"
    using fl_ulp_err [OF x(1)] .
  also have "\<dots> \<le> 2 powi (-30)" using expo_less [OF x] by (intro power_int_increasing) auto
  finally have "\<bar>fl x - x\<bar> \<le> 1 / 1073741824" by (simp add: power_int_minus)
  then have "of_int n - 1 \<le> fl x \<and> fl x < of_int n"
    using e unfolding x_def by (intro conjI; linarith)
  then show "of_int (n - 1) \<le> fl (of_int n - eps9)" "fl (of_int n - eps9) < of_int n"
    unfolding x_def by simp_all
qed

lemma bisect_right_count:
  assumes "sorted ts"
  shows "bisect_right (map of_int ts) x = length (filter (\<lambda>y. of_int y \<le> x) ts)"
proof -
  have "takeWhile (\<lambda>y. y \<le> x) (map of_int ts) = map of_int (filter (\<lambda>y. of_int y \<le> x) ts)"
    using assms
  proof (induction ts)
    case (Cons t ts)
    show ?case
    proof (cases "of_int t \<le> x")
      case False
      then have "\<forall>y\<in>set ts. \<not> of_int y \<le> x" using Cons.prems by (force simp: not_le)
      with False show ?thesis by (simp add: filter_empty_conv)
    qed (use Cons in auto)
  qed simp
  then show ?thesis by (simp add: bisect_right_def)
qed

lemma window_loop_le_iff:
  "window_loop all w i best ts \<le> b \<longleftrightarrow>
    best \<le> b \<and> (\<forall>j < length ts.
      int (bisect_right (map of_int all) (window_end (ts ! j) w)) - int (i + j) \<le> b)"
proof (induction ts arbitrary: i best)
  case (Cons t ts)
  show ?case
    by (simp only: window_loop.simps Cons.IH length_Cons All_less_Suc2 nth_Cons_0 nth_Cons_Suc) auto
qed simp

lemma first_index:
  "sorted ts \<Longrightarrow> t \<in> set ts \<Longrightarrow> ts ! length (filter (\<lambda>y. y < t) ts) = (t :: int)"
proof (induction ts)
  case (Cons a ts)
  show ?case
  proof (cases "a < t")
    case False
    then have "t = a" "filter (\<lambda>y. y < t) ts = []" using Cons.prems by (auto simp: filter_empty_conv)
    then show ?thesis by simp
  qed (use Cons in auto)
qed simp

lemma index_lower: "sorted ts \<Longrightarrow> j < length ts \<Longrightarrow> length (filter (\<lambda>y. y < (ts ! j :: int)) ts) \<le> j"
proof (induction ts arbitrary: j)
  case (Cons a ts)
  show ?case
  proof (cases j)
    case 0
    then show ?thesis using Cons.prems by (auto simp: filter_empty_conv not_less)
  next
    case (Suc k)
    then show ?thesis using Cons by (simp split: if_splits) (meson le_SucI)
  qed
qed simp

lemma window_split:
  "of_int t \<le> (x :: rat) \<Longrightarrow>
    length (filter (\<lambda>y. of_int y \<le> x) ts) =
    length (filter (\<lambda>y. y < t) ts) + length (filter (\<lambda>y. t \<le> y \<and> of_int y \<le> x) ts)"
proof (induction ts)
  case (Cons y ts)
  have "y < t \<Longrightarrow> of_int y \<le> x" using Cons.prems by (meson less_imp_le of_int_less_iff order_trans)
  then show ?case using Cons by auto
qed simp

lemma max_in_window_le_iff:
  assumes "\<forall>t\<in>set ts. of_int t \<le> window_end t w"
  shows "max_in_window ts w \<le> b \<longleftrightarrow>
    0 \<le> b \<and> (\<forall>t\<in>set ts. int (length (filter (\<lambda>y. t \<le> y \<and> of_int y \<le> window_end t w) ts)) \<le> b)"
proof -
  let ?s = "sort ts"
  let ?n = "\<lambda>t. int (length (filter (\<lambda>y. t \<le> y \<and> of_int y \<le> window_end t w) ?s))"
  have at: "int (bisect_right (map of_int ?s) (window_end t w)) =
      int (length (filter (\<lambda>y. y < t) ?s)) + ?n t" if "t \<in> set ts" for t
    using that assms window_split [of t "window_end t w" ?s] by (simp add: bisect_right_count)
  have "(\<forall>j < length ?s. int (bisect_right (map of_int ?s) (window_end (?s ! j) w)) - int j \<le> b) \<longleftrightarrow>
      (\<forall>t\<in>set ts. ?n t \<le> b)"
  proof safe
    fix t assume le: "\<forall>j < length ?s. int (bisect_right (map of_int ?s) (window_end (?s ! j) w)) - int j \<le> b"
      and t: "t \<in> set ts"
    show "?n t \<le> b"
      using le [rule_format, of "length (filter (\<lambda>y. y < t) ?s)"] at [OF t] t
      by (simp add: first_index length_filter_less del: length_sort)
  next
    fix j assume le: "\<forall>t\<in>set ts. ?n t \<le> b" and j: "j < length ?s"
    have "?s ! j \<in> set ts" using nth_mem [OF j] by simp
    then show "int (bisect_right (map of_int ?s) (window_end (?s ! j) w)) - int j \<le> b"
      using le at index_lower [OF sorted_sort j] by fastforce
  qed
  then show ?thesis by (simp add: max_in_window_def window_loop_le_iff Let_def filter_sort_length)
qed

lemma max_in_window_epoch_le_iff:
  assumes "\<forall>t\<in>set ts. 2 ^ 24 < t \<and> t + w < 2 ^ 53" "0 \<le> w"
  shows "max_in_window ts w \<le> b \<longleftrightarrow>
    0 \<le> b \<and> (\<forall>t\<in>set ts. int (length (filter (\<lambda>y. t \<le> y \<and> y \<le> t + w) ts)) \<le> b)"
proof -
  have lim: "window_end t w = of_int (t + w)" if "t \<in> set ts" for t
    unfolding window_end_def using that assms by (intro fl_minus_eps9_large) force+
  then have "\<forall>t\<in>set ts. of_int t \<le> window_end t w" using assms(2) by simp
  then show ?thesis by (simp add: max_in_window_le_iff lim del: of_int_add cong: conj_cong)
qed

lemma window_max_unique:
  assumes "\<And>b. m \<le> b \<longleftrightarrow> 0 \<le> b \<and> (\<forall>t\<in>set ts. f t \<le> b)"
  shows "m = max_default (0::int) (0 # map f ts)"
proof (rule antisym)
  have "\<forall>x\<in>set (0 # map f ts). x \<le> max_default 0 (0 # map f ts)"
    by (simp add: max_default_ge del: list.set)
  then show "m \<le> max_default 0 (0 # map f ts)" using assms by simp
  have "0 \<le> m \<and> (\<forall>t\<in>set ts. f t \<le> m)" using assms [of m] by simp
  then show "max_default 0 (0 # map f ts) \<le> m" by (subst max_default_le_iff) auto
qed

section \<open>Nearest-rank percentiles\<close>

lemma pct_rank_bounds:
  assumes "0 < q" "q \<le> 1 - 1 / 2 ^ 53" "0 < n"
  shows "1 \<le> pct_rank q n" "pct_rank q n \<le> int n"
proof -
  have x: "0 < q * of_nat n" using assms by simp
  show "1 \<le> pct_rank q n" using fl_positive [OF x] by (simp add: pct_rank_def)
  have "fl (q * of_nat n) \<le> q * of_nat n + q * of_nat n / 2 ^ 53" using fl_err [OF x] by linarith
  also have "\<dots> = q * (1 + 1 / 2 ^ 53) * of_nat n" by (simp add: algebra_simps)
  also have "\<dots> \<le> 1 * of_nat n"
  proof (rule mult_right_mono)
    have "q * (1 + 1 / 2 ^ 53) \<le> (1 - 1 / 2 ^ 53) * (1 + 1 / 2 ^ 53)"
      using assms(2) by (intro mult_right_mono) auto
    also have "\<dots> \<le> (1 :: rat)" by simp
    finally show "q * (1 + 1 / 2 ^ 53) \<le> 1" .
  qed simp
  finally have "fl (q * of_nat n) \<le> of_int (int n)" by simp
  then show "pct_rank q n \<le> int n" unfolding pct_rank_def by (rule ceiling_le)
qed

lemma sorted_rank:
  assumes "sorted ys" "i < length ys"
  shows "i < length (filter (\<lambda>y. y \<le> ys ! i) ys)" "length (filter (\<lambda>y. y < ys ! i) ys) \<le> i"
proof -
  have "{0 .. i} \<subseteq> {j. j < length ys \<and> ys ! j \<le> ys ! i}"
    using assms by (auto simp: sorted_iff_nth_mono)
  then have "card {0 .. i} \<le> card {j. j < length ys \<and> ys ! j \<le> ys ! i}"
    by (intro card_mono) auto
  then show "i < length (filter (\<lambda>y. y \<le> ys ! i) ys)"
    using card_nth_filter [of ys "\<lambda>y. y \<le> ys ! i"] by simp
  have "{j. j < length ys \<and> ys ! j < ys ! i} \<subseteq> {0 ..< i}"
    using assms by (auto simp: sorted_iff_nth_mono not_le [symmetric] intro: ccontr)
  then have "card {j. j < length ys \<and> ys ! j < ys ! i} \<le> card {0 ..< i}"
    by (intro card_mono) auto
  then show "length (filter (\<lambda>y. y < ys ! i) ys) \<le> i"
    using card_nth_filter [of ys "\<lambda>y. y < ys ! i"] by simp
qed

section \<open>Properties\<close>

text \<open>C7: For intervals that do not end before they start, \<open>max_overlap\<close> is the highest number
  of half-open intervals open at one instant: no instant has more, and unless it is 0 the value is
  reached at the start of some interval.\<close>

theorem max_overlap_is_peak:
  assumes "forward ivs"
  shows "(\<forall>t. open_at ivs t \<le> max_overlap ivs) \<and>
    (max_overlap ivs = 0 \<or> (\<exists>t. t \<in> fst ` set ivs \<and> max_overlap ivs = open_at ivs t))"
  using check_overlap.peak_is_max_open [OF assms] unfolding max_overlap_def by blast

theorem max_overlap_is_peak_witness:
  "max_overlap [(0, 10), (5, 8), (8, 12)] = 2 \<and> (\<forall>t. open_at [(0, 10), (5, 8), (8, 12)] t \<le> 2)"
proof -
  have f: "forward [(0, 10), (5, 8), (8, 12)]" by (simp add: forward_def)
  have m: "max_overlap [(0, 10), (5, 8), (8, 12)] = 2"
    by (simp add: max_overlap_def overlap_points_def less_eq_prod_def)
  show ?thesis using max_overlap_is_peak [OF f] m by simp
qed

text \<open>C8: \<open>time_above\<close> is the number of milliseconds at which more than \<open>limit\<close> intervals are
  open.\<close>

theorem time_above_counts_ms:
  assumes "forward ivs" "0 \<le> limit"
  shows "time_above ivs limit = int (card {t. limit < open_at ivs t})"
  unfolding time_above_def using check_above.above_counts_instants [OF assms] .

theorem time_above_counts_ms_witness:
  "int (card {t. 1 < open_at [(0, 10), (5, 8), (8, 12)] t}) = 5"
proof -
  have f: "forward [(0, 10), (5, 8), (8, 12)]" "(0::int) \<le> 1" by (simp_all add: forward_def)
  have "time_above [(0, 10), (5, 8), (8, 12)] 1 = 5"
    by (simp add: time_above_def above_points_def less_eq_prod_def)
  then show ?thesis using time_above_counts_ms [OF f] by simp
qed

text \<open>While every window ends at most at millisecond \<open>2^24\<close>, \<open>max_in_window\<close> is the largest
  number of times in a half-open window \<open>[t, t + window_ms)\<close> that starts at one of the times.\<close>

lemma max_in_window_half_open:
  assumes "\<forall>t\<in>set ts. 0 < t \<and> t + w \<le> 2 ^ 24" "0 < w"
  shows "max_in_window ts w =
    max_default 0 (0 # map (\<lambda>t. int (length (filter (\<lambda>y. t \<le> y \<and> y < t + w) ts))) ts)"
proof (rule window_max_unique)
  fix b
  have lim: "of_int y \<le> window_end t w \<longleftrightarrow> y < t + w" if "t \<in> set ts" for t y
  proof -
    have t: "1 < t + w" "t + w \<le> 2 ^ 24" using that assms by force+
    show ?thesis
    proof
      assume "of_int y \<le> window_end t w"
      also have "\<dots> < of_int (t + w)" unfolding window_end_def by (rule fl_minus_eps9_small(2) [OF t])
      finally show "y < t + w" by (simp only: of_int_less_iff)
    next
      assume "y < t + w"
      then have "(of_int y :: rat) \<le> of_int (t + w - 1)" by (simp only: of_int_le_iff)
      also have "\<dots> \<le> window_end t w" unfolding window_end_def by (rule fl_minus_eps9_small(1) [OF t])
      finally show "of_int y \<le> window_end t w" .
    qed
  qed
  have "\<forall>t\<in>set ts. of_int t \<le> window_end t w" using lim assms(2) by auto
  then show "max_in_window ts w \<le> b \<longleftrightarrow>
      0 \<le> b \<and> (\<forall>t\<in>set ts. int (length (filter (\<lambda>y. t \<le> y \<and> y < t + w) ts)) \<le> b)"
    by (simp add: max_in_window_le_iff lim cong: conj_cong)
qed

lemma max_in_window_half_open_witness:
  "max_in_window [1000, 1500, 2000] 1000 = 2"
  by (subst max_in_window_half_open) (simp_all add: max_default_def)

text \<open>Above \<open>2^24\<close>, which includes every epoch-millisecond timestamp, the float subtraction
  of \<open>1e-9\<close> rounds back to the integer, so \<open>max_in_window\<close> counts the closed window
  \<open>[t, t + window_ms]\<close>: a time exactly \<open>window_ms\<close> later is counted in the same window.\<close>

lemma max_in_window_epoch_closed:
  assumes "\<forall>t\<in>set ts. 2 ^ 24 < t \<and> t + w < 2 ^ 53" "0 \<le> w"
  shows "max_in_window ts w =
    max_default 0 (0 # map (\<lambda>t. int (length (filter (\<lambda>y. t \<le> y \<and> y \<le> t + w) ts))) ts)"
  by (rule window_max_unique) (rule max_in_window_epoch_le_iff [OF assms])

lemma max_in_window_epoch_closed_witness:
  "max_in_window [1700000000000, 1700000000500, 1700000001000] 1000 = 3"
  by (subst max_in_window_epoch_closed) (simp_all add: max_default_def)

text \<open>\<open>pct\<close> never indexes out of range for a quantile in \<open>(0, 1)\<close> and returns the value of
  nearest rank: with \<open>r = ceil(q * n)\<close>, at least \<open>r\<close> of the values are at most the result and
  fewer than \<open>r\<close> are below it.\<close>

lemma pct_nearest_rank:
  assumes "values \<noteq> []" "0 < q" "q \<le> 1 - 1 / 2 ^ 53"
  shows "\<exists>v. pct values q = Inr (Some v) \<and> v \<in> set values \<and>
    1 \<le> pct_rank q (length values) \<and> pct_rank q (length values) \<le> int (length values) \<and>
    pct_rank q (length values) \<le> int (length (filter (\<lambda>x. x \<le> v) values)) \<and>
    int (length (filter (\<lambda>x. x < v) values)) < pct_rank q (length values)"
proof -
  let ?n = "length values" and ?s = "sort values"
  define i where "i = nat (pct_rank q ?n - 1)"
  have r: "1 \<le> pct_rank q ?n" "pct_rank q ?n \<le> int ?n"
    using pct_rank_bounds [OF assms(2,3)] assms(1) by auto
  then have i: "i < length ?s" "pct_rank q ?n = int i + 1" by (auto simp: i_def)
  have "pct values q = Inr (Some (?s ! i))"
    using assms(1) r i(1) by (simp add: pct_def py_get_def max_def flip: i_def)
  moreover have "?s ! i \<in> set values" using nth_mem [OF i(1)] by simp
  ultimately show ?thesis
    using r i(2) sorted_rank [OF sorted_sort i(1)] by (auto simp: filter_sort_length)
qed

lemma pct_nearest_rank_witness:
  "\<exists>v. pct [30, 10, 20, 40 :: int] (fl (1 / 2)) = Inr (Some v) \<and> v = 20"
proof -
  have q: "fl (1 / 2) = 1 / 2" by code_simp
  have r: "pct_rank (1 / 2) 4 = 2" by code_simp
  show ?thesis unfolding q
    using pct_nearest_rank [of "[30, 10, 20, 40 :: int]" "1 / 2"] r by (auto simp: numeral_eq_Suc)
qed

end
