(* ===== verification/Run_Checker.thy ===== *)
theory Run_Checker
  imports Intervals Ledger "HOL-Library.List_Lexorder" "HOL-Library.Char_ord"
begin

text \<open>
  The checker of one isolation run, \<open>experiments/isolation/check.py\<close>, function \<open>check\<close>: one
  definition per verdict (safety, liveness, budget, latency, observability, evidence), over the
  contents of the files that \<open>runner.collect\<close> leaves in the run directory. \<open>mock.json\<close> holds
  rows of the seller ledger, so its types are those of \<open>Ledger\<close>. Dictionaries are association
  lists in insertion order. What can raise returns a \<open>result\<close>: an accepted event that was never
  planned (\<open>KeyError\<close>), a planned offset before every phase (\<open>StopIteration\<close>) and a claim
  without a generation compared with one (\<open>TypeError\<close>).
\<close>

section \<open>Inputs\<close>

record limits =
  l_global :: int
  l_seller :: int
  l_retryPerSecond :: int

record run_info =
  ru_startAt :: int
  ru_collectedAt :: "int option"
  ru_faultSeller :: "string option"
  ru_limits :: limits
  ru_phaseBounds :: "(string \<times> rat) list option"   \<comment> \<open>each phase with its first offset\<close>
  ru_judgedPhases :: "string list option"
  ru_fault :: "(int \<times> int) option"
  ru_clockOffsetsMs :: "(string \<times> rat option) list option"

record plan_entry =
  pe_offset :: int
  pe_phase :: string
  pe_event :: event

record pub_record =
  pb_eventId :: string
  pb_status :: "int option"
  pb_createdAt :: "int option"
  pb_plannedAt :: rat
  pb_sentAt :: rat

record obligation =
  ob_event_id :: string
  ob_resolved_at :: "int option"
  ob_completed_at :: "int option"

record trace_line =
  tl_stage :: string
  tl_eventId :: string
  tl_time :: int
  tl_generation :: "int option"
  tl_instance :: string

record metric_sample =
  sm_time :: int
  sm_source :: "(string \<times> int) list option"   \<comment> \<open>each seller's \<open>oldestAgeMs\<close>\<close>
  sm_alert :: "string option"
  sm_lag :: "int option"

record run_files =
  f_run :: run_info
  f_trace :: "plan_entry list"
  f_load :: "pub_record list"
  f_obligations :: "obligation list"
  f_effects :: "effect_row list"
  f_attempts :: "attempt_row list"
  f_heldPermits :: "string list"
  f_openInbox :: "string list"   \<comment> \<open>the event IDs\<close>
  f_samples :: "metric_sample list"
  f_traces :: "trace_line list"

section \<open>Shared pieces\<close>

definition TARGET_MS :: int where
  "TARGET_MS = 1500"

definition GRACE_MS :: int where
  "GRACE_MS = 3000"

text \<open>\<open>v or d\<close> on an optional integer.\<close>

definition or_else :: "int option \<Rightarrow> int \<Rightarrow> int" where
  "or_else v d = (case v of None \<Rightarrow> d | Some x \<Rightarrow> if x = 0 then d else x)"

definition truthy :: "int option \<Rightarrow> bool" where
  "truthy v \<longleftrightarrow> v \<noteq> None \<and> v \<noteq> Some 0"

text \<open>\<open>collections.Counter\<close> of a sequence.\<close>

definition counter :: "'a list \<Rightarrow> ('a \<times> nat) list" where
  "counter xs = map (\<lambda>(k, vs). (k, length vs)) (group_by id id xs)"

definition max_opt :: "'a::linorder list \<Rightarrow> 'a option" where
  "max_opt xs = (if xs = [] then None else Some (Max (set xs)))"

definition fault_target :: "run_info \<Rightarrow> string" where
  "fault_target r = get_or ''slow'' (ru_faultSeller r)"

definition end_of_observation :: "run_info \<Rightarrow> attempt_row list \<Rightarrow> int" where
  "end_of_observation r attempts =
     or_else (ru_collectedAt r)
       (max_default 0 (map (\<lambda>a. or_else (ar_end_at a) 0) attempts @ [ru_startAt r]))"

text \<open>Cohorts: the phase with the latest beginning that is not after the planned offset.\<close>

definition bounds_desc :: "(string \<times> rat) list \<Rightarrow> (rat \<times> string) list" where
  "bounds_desc pb = rev (sort (map (\<lambda>(name, b). (b, name)) pb))"

definition phase_at :: "(rat \<times> string) list \<Rightarrow> int \<Rightarrow> string result" where
  "phase_at bounds offset =
     (case find (\<lambda>(b, name). b \<le> of_int offset) bounds of
        None \<Rightarrow> Inl StopIteration
      | Some (b, name) \<Rightarrow> Inr name)"

definition relabel :: "run_info \<Rightarrow> plan_entry list \<Rightarrow> plan_entry list result" where
  "relabel r trace =
     (let bounds = bounds_desc (get_or [] (ru_phaseBounds r))
      in if bounds = [] then Inr trace
         else mapR (\<lambda>e. bindR (phase_at bounds (pe_offset e)) (\<lambda>name. Inr (e\<lparr>pe_phase := name\<rparr>))) trace)"

type_synonym plan = "(string \<times> plan_entry) list"

definition plan_of :: "plan_entry list \<Rightarrow> plan" where
  "plan_of trace = dict_of (\<lambda>e. ev_eventId (pe_event e)) id trace"

definition published_of :: "pub_record list \<Rightarrow> (string \<times> pub_record) list" where
  "published_of load = dict_of pb_eventId id load"

definition accepted_of :: "pub_record list \<Rightarrow> (string \<times> pub_record) list" where
  "accepted_of load =
     filter (\<lambda>(k, v). pb_status v = Some 200 \<and> truthy (pb_createdAt v)) (published_of load)"

definition created_of :: "pub_record list \<Rightarrow> (string \<times> int) list" where
  "created_of load = map (\<lambda>(k, v). (k, get_or 0 (pb_createdAt v))) (accepted_of load)"

definition by_event :: "effect_row list \<Rightarrow> (string \<times> effect_row list) list" where
  "by_event effs = group_by er_event_id id effs"

definition effect_times :: "effect_row list \<Rightarrow> (string \<times> int) list" where
  "effect_times effs = map (\<lambda>(k, rows). (k, er_effect_at (hd rows))) (by_event effs)"

definition seller_of :: "plan \<Rightarrow> string \<Rightarrow> string result" where
  "seller_of plan k = bindR (need k (map_of plan k)) (\<lambda>e. Inr (ev_sellerId (pe_event e)))"

section \<open>Safety\<close>

definition duplicate_events :: "effect_row list \<Rightarrow> string list" where
  "duplicate_events effs = map fst (filter (\<lambda>(k, rows). 1 < length rows) (by_event effs))"

definition unknown_events :: "plan \<Rightarrow> effect_row list \<Rightarrow> string list" where
  "unknown_events plan effs = filter (\<lambda>k. map_of plan k = None) (map fst (by_event effs))"

definition payload_differs :: "body \<Rightarrow> event \<Rightarrow> bool" where
  "payload_differs got want \<longleftrightarrow>
     b_sellerId got \<noteq> Some (ev_sellerId want) \<or> b_orderId got \<noteq> Some (ev_orderId want) \<or>
     b_sequence got \<noteq> Some (ev_sequence want) \<or> b_operation got \<noteq> Some (ev_operation want) \<or>
     b_quantity got \<noteq> Some (ev_quantity want) \<or> b_price got \<noteq> Some (ev_price want)"

definition mismatched_events :: "plan \<Rightarrow> effect_row list \<Rightarrow> string list" where
  "mismatched_events plan effs =
     map fst (filter (\<lambda>(k, rows). case map_of plan k of
         None \<Rightarrow> False
       | Some e \<Rightarrow> payload_differs (er_payload (hd rows)) (pe_event e)) (by_event effs))"

definition effect_order :: "effect_row \<Rightarrow> string \<times> int" where
  "effect_order e = (er_seller_id e, er_order_id e)"

definition order_breaks :: "effect_row list \<Rightarrow> ((string \<times> int) \<times> int list) list" where
  "order_breaks effs =
     filter (\<lambda>(k, seqs). seqs \<noteq> map int [1 ..< length seqs + 1])
       (group_by effect_order er_seq (sort_key effect_index effs))"

definition out_of_order :: "attempt_row list \<Rightarrow> string list" where
  "out_of_order attempts = map ar_event_id (filter (\<lambda>a. ar_status a = Some 409) attempts)"

type_synonym claim = "int \<times> int option \<times> string"  \<comment> \<open>time, generation, instance\<close>

definition claims_of :: "trace_line list \<Rightarrow> (string \<times> claim list) list" where
  "claims_of traces =
     group_by tl_eventId (\<lambda>t. (tl_time t, tl_generation t, tl_instance t))
       (filter (\<lambda>t. tl_stage t = ''claimed'') traces)"

fun newer_claims :: "int \<Rightarrow> int \<Rightarrow> claim list \<Rightarrow> int list result" where
  "newer_claims g t [] = Inr []"
| "newer_claims g t ((ct, cg, _) # cs) =
     (case cg of
        None \<Rightarrow> Inl TypeError
      | Some g' \<Rightarrow> bindR (newer_claims g t cs) (\<lambda>r. Inr (if g < g' \<and> ct < t then g' # r else r)))"

text \<open>A business commit under generation \<open>g\<close> after a newer claim of the event: the event, its
  generation and the first newer one.\<close>

definition stale_write :: "(string \<times> claim list) list \<Rightarrow> trace_line \<Rightarrow> (string \<times> int \<times> int) list result" where
  "stale_write claims t =
     (case tl_generation t of
        None \<Rightarrow> Inr []
      | Some g \<Rightarrow>
         (if tl_stage t \<noteq> ''business_commit'' then Inr []
          else bindR (newer_claims g (tl_time t) (get_or [] (map_of claims (tl_eventId t)))) (\<lambda>newer.
            Inr (case newer of [] \<Rightarrow> [] | g' # _ \<Rightarrow> [(tl_eventId t, g, g')]))))"

definition stale_writes :: "trace_line list \<Rightarrow> (string \<times> int \<times> int) list result" where
  "stale_writes traces =
     bindR (mapR (stale_write (claims_of traces)) traces) (\<lambda>xs. Inr (concat xs))"

record safety_report =
  sf_passed :: bool
  sf_duplicateEffects :: nat
  sf_unknownEffects :: nat
  sf_payloadMismatches :: nat
  sf_orderBreaks :: nat
  sf_outOfOrderRequests :: nat
  sf_staleOwnerWrites :: nat
  sf_examples :: "string list \<times> ((string \<times> int) \<times> int list) list \<times> (string \<times> int \<times> int) list"

definition check_safety ::
    "plan \<Rightarrow> effect_row list \<Rightarrow> attempt_row list \<Rightarrow> trace_line list \<Rightarrow> safety_report result" where
  "check_safety plan effs attempts traces =
     (let dup = duplicate_events effs; unk = unknown_events plan effs; mis = mismatched_events plan effs;
          brk = order_breaks effs; rej = out_of_order attempts
      in bindR (stale_writes traces) (\<lambda>stale. Inr
        \<lparr>sf_passed = (dup = [] \<and> unk = [] \<and> mis = [] \<and> brk = [] \<and> rej = [] \<and> stale = []),
         sf_duplicateEffects = length dup, sf_unknownEffects = length unk,
         sf_payloadMismatches = length mis, sf_orderBreaks = length brk,
         sf_outOfOrderRequests = length rej, sf_staleOwnerWrites = length stale,
         sf_examples = (take 5 dup, take 5 brk, take 5 stale)\<rparr>))"

section \<open>Liveness\<close>

record liveness_report =
  lv_passed :: bool
  lv_planned :: nat
  lv_accepted :: nat
  lv_notAccepted :: nat
  lv_undelivered :: nat
  lv_unresolvedObligations :: nat
  lv_openInboxRows :: nat
  lv_heldPermits :: nat
  lv_pendingAfterDelivery :: nat
  lv_undeliveredBySeller :: "(string \<times> nat) list"
  lv_refused :: nat
  lv_refusedBySeller :: "(string \<times> nat) list"
  lv_orderAcceptanceBySeller :: "(string \<times> rat) list"
  lv_unexplainedNotAccepted :: int
  lv_examples :: "string list"

definition undelivered :: "pub_record list \<Rightarrow> effect_row list \<Rightarrow> string list" where
  "undelivered load effs = filter (\<lambda>k. map_of (by_event effs) k = None) (map fst (accepted_of load))"

definition unresolved :: "pub_record list \<Rightarrow> obligation list \<Rightarrow> string list" where
  "unresolved load obs =
     filter (\<lambda>k. case map_of (dict_of ob_event_id id obs) k of
         None \<Rightarrow> True | Some ob \<Rightarrow> ob_resolved_at ob = None) (map fst (accepted_of load))"

definition pending_delivered :: "string list \<Rightarrow> effect_row list \<Rightarrow> string list" where
  "pending_delivered inbox effs = filter (\<lambda>k. map_of (by_event effs) k \<noteq> None) inbox"

definition not_accepted :: "plan \<Rightarrow> pub_record list \<Rightarrow> string list" where
  "not_accepted plan load = filter (\<lambda>k. map_of (accepted_of load) k = None) (map fst plan)"

definition refused :: "plan \<Rightarrow> pub_record list \<Rightarrow> string list" where
  "refused plan load =
     filter (\<lambda>k. case map_of (published_of load) k of None \<Rightarrow> False | Some v \<Rightarrow> pb_status v = Some 429)
       (not_accepted plan load)"

definition plan_event :: "plan \<Rightarrow> string \<Rightarrow> event" where
  "plan_event plan k = pe_event (the (map_of plan k))"

definition order_acceptance :: "plan_entry list \<Rightarrow> plan \<Rightarrow> string list \<Rightarrow> (string \<times> rat) list" where
  "order_acceptance trace plan ref =
     (let creates = counter (map (\<lambda>e. ev_sellerId (pe_event e)) (filter (\<lambda>e. ev_sequence (pe_event e) = 1) trace));
          refused_creates = counter (map (\<lambda>k. ev_sellerId (plan_event plan k))
             (filter (\<lambda>k. ev_sequence (plan_event plan k) = 1) ref))
      in map (\<lambda>(s, n). (s, py_round 4 (fl (1 - fl (of_nat (get_or 0 (map_of refused_creates s)) / of_nat n))))) creates)"

definition check_liveness ::
    "plan_entry list \<Rightarrow> plan \<Rightarrow> pub_record list \<Rightarrow> obligation list \<Rightarrow> effect_row list \<Rightarrow>
     string list \<Rightarrow> string list \<Rightarrow> liveness_report result" where
  "check_liveness trace plan load obs effs held inbox =
     (let und = undelivered load effs; pend = pending_delivered inbox effs;
          notacc = not_accepted plan load; ref = refused plan load
      in bindR (mapR (seller_of plan) und) (\<lambda>und_sellers. Inr
        \<lparr>lv_passed = (und = [] \<and> held = [] \<and> pend = [] \<and> length notacc \<le> length ref),
         lv_planned = length plan, lv_accepted = length (accepted_of load), lv_notAccepted = length notacc,
         lv_undelivered = length und, lv_unresolvedObligations = length (unresolved load obs),
         lv_openInboxRows = length inbox, lv_heldPermits = length held, lv_pendingAfterDelivery = length pend,
         lv_undeliveredBySeller = counter und_sellers, lv_refused = length ref,
         lv_refusedBySeller = counter (map (\<lambda>k. ev_sellerId (plan_event plan k)) ref),
         lv_orderAcceptanceBySeller = order_acceptance trace plan ref,
         lv_unexplainedNotAccepted = int (length notacc) - int (length ref),
         lv_examples = take 5 und\<rparr>))"

section \<open>Budget\<close>

record budget_report =
  bg_passed :: bool
  bg_limits :: limits
  bg_globalPeak :: int
  bg_sellerPeak :: int
  bg_sellerPeaks :: "(string \<times> int) list"
  bg_sellerOverLimitMs :: "(string \<times> int) list"
  bg_orderPeak :: int
  bg_sameEventPeak :: int
  bg_retryPerSecondPeak :: int
  bg_retryPerSecondPeaks :: "(string \<times> int) list"
  bg_requests :: nat
  bg_extraRequests :: int
  bg_requestsByInstance :: "(string option \<times> nat) list"

definition call_interval :: "int \<Rightarrow> attempt_row \<Rightarrow> interval" where
  "call_interval eoo a = (ar_start_at a, get_or eoo (ar_end_at a))"

definition attempt_order :: "attempt_row \<Rightarrow> string \<times> int" where
  "attempt_order a = (ar_seller_id a, ar_order_id a)"

definition peaks :: "('k \<times> interval list) list \<Rightarrow> ('k \<times> int) list" where
  "peaks groups = map (\<lambda>(k, ivs). (k, max_overlap ivs)) groups"

definition attempts_in_order :: "attempt_row list \<Rightarrow> attempt_row list" where
  "attempts_in_order attempts = sort_key (\<lambda>a. (ar_start_at a, ar_id a)) attempts"

text \<open>Every attempt of an event after its first is a retry.\<close>

fun retries_from :: "string list \<Rightarrow> attempt_row list \<Rightarrow> attempt_row list" where
  "retries_from seen [] = []"
| "retries_from seen (a # as) =
     (if ar_event_id a \<in> set seen then a # retries_from seen as
      else retries_from (ar_event_id a # seen) as)"

definition retries_by_seller :: "attempt_row list \<Rightarrow> (string \<times> int list) list" where
  "retries_by_seller attempts =
     group_by ar_seller_id ar_start_at (retries_from [] (attempts_in_order attempts))"

definition check_budget :: "limits \<Rightarrow> int \<Rightarrow> attempt_row list \<Rightarrow> budget_report" where
  "check_budget lims eoo attempts =
     (let iv = call_interval eoo;
          by_seller = group_by ar_seller_id iv attempts;
          seller_peaks = peaks by_seller;
          global_peak = max_overlap (map iv attempts);
          order_peak = max_default 0 (map snd (peaks (group_by attempt_order iv attempts)));
          event_peak = max_default 0 (map snd (peaks (group_by ar_event_id iv attempts)));
          retry_peaks = map (\<lambda>(s, ts). (s, max_in_window ts 1000)) (retries_by_seller attempts);
          seller_peak = max_default 0 (map snd seller_peaks);
          retry_peak = max_default 0 (map snd retry_peaks)
      in \<lparr>bg_passed = (global_peak \<le> l_global lims \<and> seller_peak \<le> l_seller lims \<and> order_peak \<le> 1 \<and>
            retry_peak \<le> l_retryPerSecond lims),
          bg_limits = lims, bg_globalPeak = global_peak, bg_sellerPeak = seller_peak,
          bg_sellerPeaks = seller_peaks,
          bg_sellerOverLimitMs = map (\<lambda>(s, ivs). (s, time_above ivs (l_seller lims)))
            (filter (\<lambda>(s, ivs). l_seller lims < max_overlap ivs) by_seller),
          bg_orderPeak = order_peak, bg_sameEventPeak = event_peak,
          bg_retryPerSecondPeak = retry_peak, bg_retryPerSecondPeaks = retry_peaks,
          bg_requests = length attempts,
          bg_extraRequests = int (length attempts) - int (length (remdups (map ar_event_id attempts))),
          bg_requestsByInstance = counter (map ar_instance attempts)\<rparr>)"

section \<open>What the safety verdict means\<close>

definition effects_safe :: "plan \<Rightarrow> effect_row list \<Rightarrow> bool" where
  "effects_safe plan effs \<longleftrightarrow> distinct (map er_event_id effs) \<and>
     (\<forall>e \<in> set effs. \<exists>p. map_of plan (er_event_id e) = Some p \<and> \<not> payload_differs (er_payload e) (pe_event p))"

definition order_kept :: "effect_row list \<Rightarrow> bool" where
  "order_kept effs \<longleftrightarrow> (\<forall>k. \<exists>n. map er_seq (filter (\<lambda>e. effect_order e = k) (sort_key effect_index effs)) =
     map int [1 ..< n + 1])"

definition overtaken :: "trace_line list \<Rightarrow> trace_line \<Rightarrow> trace_line \<Rightarrow> bool" where
  "overtaken traces t c \<longleftrightarrow> t \<in> set traces \<and> c \<in> set traces \<and> tl_stage t = ''business_commit'' \<and>
     tl_stage c = ''claimed'' \<and> tl_eventId c = tl_eventId t \<and> tl_time c < tl_time t \<and>
     (\<exists>g g'. tl_generation t = Some g \<and> tl_generation c = Some g' \<and> g < g')"

lemma duplicate_events_iff: "duplicate_events effs = [] \<longleftrightarrow> distinct (map er_event_id effs)"
proof -
  have "duplicate_events effs = [] \<longleftrightarrow>
      (\<forall>k \<in> er_event_id ` set effs. length (filter (\<lambda>e. er_event_id e = k) effs) \<le> 1)"
    by (auto simp: duplicate_events_def by_event_def filter_empty_conv set_group_by not_less)
  then show ?thesis by (simp add: distinct_map_iff_classes)
qed

lemma unknown_events_iff:
  "unknown_events plan effs = [] \<longleftrightarrow> (\<forall>e \<in> set effs. map_of plan (er_event_id e) \<noteq> None)"
proof -
  have "set (map fst (by_event effs)) = er_event_id ` set effs" by (simp add: by_event_def)
  then show ?thesis unfolding unknown_events_def filter_empty_conv by (simp del: set_map)
qed

lemma mismatched_events_iff:
  assumes "distinct (map er_event_id effs)"
  shows "mismatched_events plan effs = [] \<longleftrightarrow> (\<forall>e \<in> set effs. case map_of plan (er_event_id e) of
     None \<Rightarrow> True | Some p \<Rightarrow> \<not> payload_differs (er_payload e) (pe_event p))"
proof -
  have "hd (filter (\<lambda>x. er_event_id x = er_event_id e) effs) = e" if "e \<in> set effs" for e
    using filter_key_distinct [OF assms that] by simp
  then show ?thesis
    by (auto simp: mismatched_events_def by_event_def filter_empty_conv set_group_by split: option.splits)
qed

lemma order_breaks_iff: "order_breaks effs = [] \<longleftrightarrow> order_kept effs"
proof -
  let ?xs = "sort_key effect_index effs"
  let ?g = "\<lambda>k. map er_seq (filter (\<lambda>e. effect_order e = k) ?xs)"
  have c: "(\<exists>n. ?g k = map int [1 ..< n + 1]) \<longleftrightarrow> ?g k = map int [1 ..< length (?g k) + 1]" for k
  proof
    assume "\<exists>n. ?g k = map int [1 ..< n + 1]"
    then obtain n where n: "?g k = map int [1 ..< n + 1]" ..
    then have "length (?g k) = n" by (metis add_diff_cancel_right' length_map length_upt)
    then show "?g k = map int [1 ..< length (?g k) + 1]" using n by argo
  qed blast
  have "order_breaks effs = [] \<longleftrightarrow> (\<forall>k \<in> effect_order ` set effs. ?g k = map int [1 ..< length (?g k) + 1])"
    by (auto simp: order_breaks_def filter_empty_conv set_group_by)
  moreover have "?g k = map int [1 ..< length (?g k) + 1]" if "k \<notin> effect_order ` set effs" for k
  proof -
    have "filter (\<lambda>e. effect_order e = k) ?xs = []" using that by (auto simp: filter_empty_conv)
    then show ?thesis by simp
  qed
  ultimately show ?thesis unfolding order_kept_def c by blast
qed

lemma newer_claims_total:
  "\<forall>c \<in> set cs. fst (snd c) \<noteq> None \<Longrightarrow> newer_claims g t cs =
     Inr (map (\<lambda>c. the (fst (snd c))) (filter (\<lambda>c. g < the (fst (snd c)) \<and> fst c < t) cs))"
  by (induction cs rule: newer_claims.induct) auto

lemma claims_lookup:
  "set (get_or [] (map_of (claims_of traces) k)) =
     (\<lambda>c. (tl_time c, tl_generation c, tl_instance c)) ` {c \<in> set traces. tl_stage c = ''claimed'' \<and> tl_eventId c = k}"
  by (auto simp: claims_of_def group_by_lookup)

lemma stale_write_total:
  assumes "\<forall>c \<in> set traces. tl_stage c = ''claimed'' \<longrightarrow> tl_generation c \<noteq> None"
  shows "\<exists>xs. stale_write (claims_of traces) t = Inr xs \<and>
    (t \<in> set traces \<longrightarrow> (xs = [] \<longleftrightarrow> (\<forall>c. \<not> overtaken traces t c)))"
proof (cases "tl_stage t = ''business_commit'' \<and> tl_generation t \<noteq> None")
  case False
  then show ?thesis by (auto simp: stale_write_def overtaken_def split: option.splits)
next
  case True
  then obtain g where g: "tl_generation t = Some g" "tl_stage t = ''business_commit''" by auto
  let ?cs = "get_or [] (map_of (claims_of traces) (tl_eventId t))"
  let ?new = "filter (\<lambda>c. g < the (fst (snd c)) \<and> fst c < tl_time t) ?cs"
  have "\<forall>c \<in> set ?cs. fst (snd c) \<noteq> None" unfolding claims_lookup using assms by auto
  then have n: "newer_claims g (tl_time t) ?cs = Inr (map (\<lambda>c. the (fst (snd c))) ?new)"
    by (rule newer_claims_total)
  have "?new = [] \<longleftrightarrow> (\<forall>c. \<not> overtaken traces t c)" if "t \<in> set traces"
    unfolding filter_empty_conv claims_lookup using g that assms by (fastforce simp: overtaken_def)
  then show ?thesis using g n by (cases ?new) (auto simp: stale_write_def)
qed

lemma stale_writes_total:
  assumes "\<forall>c \<in> set traces. tl_stage c = ''claimed'' \<longrightarrow> tl_generation c \<noteq> None"
  shows "\<exists>xs. stale_writes traces = Inr xs \<and> (xs = [] \<longleftrightarrow> (\<forall>t c. \<not> overtaken traces t c))"
proof -
  obtain f where f: "\<And>t. stale_write (claims_of traces) t = Inr (f t)"
    "\<And>t. t \<in> set traces \<Longrightarrow> f t = [] \<longleftrightarrow> (\<forall>c. \<not> overtaken traces t c)"
    using stale_write_total [OF assms] by metis
  have "mapR (stale_write (claims_of traces)) traces = Inr (map f traces)"
    by (rule mapR_total) (simp add: f(1))
  moreover have "concat (map f traces) = [] \<longleftrightarrow> (\<forall>t c. \<not> overtaken traces t c)"
    using f(2) by (auto simp: overtaken_def)
  ultimately show ?thesis by (auto simp: stale_writes_def)
qed

section \<open>What the liveness and budget verdicts mean\<close>

definition has_accepted :: "pub_record list \<Rightarrow> string \<Rightarrow> bool" where
  "has_accepted load k \<longleftrightarrow> (\<exists>v. map_of (published_of load) k = Some v \<and> pb_status v = Some 200 \<and> truthy (pb_createdAt v))"

definition was_refused :: "pub_record list \<Rightarrow> string \<Rightarrow> bool" where
  "was_refused load k \<longleftrightarrow> (\<exists>v. map_of (published_of load) k = Some v \<and> pb_status v = Some 429)"

lemma accepted_keys: "k \<in> fst ` set (accepted_of load) \<longleftrightarrow> has_accepted load k"
proof -
  have "(k, v) \<in> set (published_of load) \<longleftrightarrow> map_of (published_of load) k = Some v" for v
    by (simp add: published_of_def map_of_eq_Some_iff)
  then show ?thesis by (force simp: accepted_of_def has_accepted_def)
qed

lemma map_of_accepted_None: "map_of (accepted_of load) k = None \<longleftrightarrow> \<not> has_accepted load k"
  by (metis accepted_keys map_of_eq_None_iff)

lemma by_event_None: "map_of (by_event effs) k = None \<longleftrightarrow> k \<notin> er_event_id ` set effs"
  by (simp add: by_event_def group_by_lookup)

lemma filter_length_le: "length xs \<le> length (filter P xs) \<longleftrightarrow> (\<forall>x \<in> set xs. P x)"
  by (metis filter_id_conv length_filter_le length_filter_less linorder_not_le)

lemma refused_covers_iff:
  "length (not_accepted plan load) \<le> length (refused plan load) \<longleftrightarrow>
    (\<forall>k \<in> fst ` set plan. has_accepted load k \<or> was_refused load k)"
  unfolding refused_def filter_length_le
  by (auto simp: not_accepted_def map_of_accepted_None was_refused_def split: option.splits)

lemma undelivered_iff:
  "k \<in> set (undelivered load effs) \<longleftrightarrow> has_accepted load k \<and> k \<notin> er_event_id ` set effs"
  using accepted_keys [of k load] by (auto simp: undelivered_def by_event_None)

lemma undelivered_sellers:
  assumes "\<forall>k. has_accepted load k \<longrightarrow> map_of plan k \<noteq> None"
  shows "mapR (seller_of plan) (undelivered load effs) =
    Inr (map (\<lambda>k. ev_sellerId (plan_event plan k)) (undelivered load effs))"
  using assms by (intro mapR_total) (auto simp: undelivered_iff seller_of_def plan_event_def)

lemma liveness_total:
  assumes "\<forall>k. has_accepted load k \<longrightarrow> map_of plan k \<noteq> None"
  shows "\<exists>rep. check_liveness trace plan load obs effs held inbox = Inr rep"
  by (simp add: check_liveness_def Let_def undelivered_sellers [OF assms])

lemma forward_calls:
  "\<forall>a \<in> set as. ar_start_at a \<le> get_or eoo (ar_end_at a) \<Longrightarrow> forward (map (call_interval eoo) as)"
  by (auto simp: forward_def list_all_iff call_interval_def)

lemma group_peaks_le_iff:
  fixes f :: "attempt_row \<Rightarrow> 'k"
  assumes "\<forall>a \<in> set as. ar_start_at a \<le> get_or eoo (ar_end_at a)" "0 \<le> b"
  shows "max_default 0 (map snd (peaks (group_by f (call_interval eoo) as))) \<le> b \<longleftrightarrow>
    (\<forall>k t. open_at (map (call_interval eoo) (filter (\<lambda>a. f a = k) as)) t \<le> b)"
proof -
  let ?ivs = "\<lambda>k. map (call_interval eoo) (filter (\<lambda>a. f a = k) as)"
  have fw: "forward (?ivs k)" for k using assms(1) by (intro forward_calls) simp
  have out: "?ivs k = []" if "k \<notin> f ` set as" for k using that by (auto simp: filter_empty_conv)
  have "max_default 0 (map snd (peaks (group_by f (call_interval eoo) as))) \<le> b \<longleftrightarrow>
      (\<forall>k \<in> f ` set as. max_overlap (?ivs k) \<le> b)"
    unfolding max_default_le_iff [OF assms(2)] by (auto simp: peaks_def set_group_by)
  also have "\<dots> \<longleftrightarrow> (\<forall>k \<in> f ` set as. \<forall>t. open_at (?ivs k) t \<le> b)"
    by (simp add: max_overlap_le_iff [OF fw assms(2)])
  also have "\<dots> \<longleftrightarrow> (\<forall>k t. open_at (?ivs k) t \<le> b)"
    using out assms(2) by (metis filter.simps(1) list.map(1) list.size(3) of_nat_0 open_at_def)
  finally show ?thesis .
qed

text \<open>The start times of the retries to one seller.\<close>

definition seller_retries :: "attempt_row list \<Rightarrow> string \<Rightarrow> int list" where
  "seller_retries attempts s =
     map ar_start_at (filter (\<lambda>a. ar_seller_id a = s) (retries_from [] (attempts_in_order attempts)))"

lemma retries_from_subset: "set (retries_from seen as) \<subseteq> set as"
  by (induction seen as rule: retries_from.induct) auto

lemma retry_peaks_le_iff:
  assumes "\<forall>a \<in> set attempts. 2 ^ 24 < ar_start_at a \<and> ar_start_at a + 1000 < 2 ^ 53" "0 \<le> b"
  shows "max_default 0 (map snd (map (\<lambda>(s, ts). (s, max_in_window ts 1000)) (retries_by_seller attempts))) \<le> b \<longleftrightarrow>
    (\<forall>s. \<forall>t \<in> set (seller_retries attempts s).
       int (length (filter (\<lambda>y. t \<le> y \<and> y \<le> t + 1000) (seller_retries attempts s))) \<le> b)"
proof -
  let ?rs = "retries_from [] (attempts_in_order attempts)"
  have "set ?rs \<subseteq> set attempts" using retries_from_subset [of "[]" "attempts_in_order attempts"]
    by (simp add: attempts_in_order_def)
  then have ts: "\<forall>t \<in> set (seller_retries attempts s). 2 ^ 24 < t \<and> t + 1000 < 2 ^ 53" for s
    using assms(1) by (auto simp: seller_retries_def)
  have "max_default 0 (map snd (map (\<lambda>(s, ts). (s, max_in_window ts 1000)) (retries_by_seller attempts))) \<le> b \<longleftrightarrow>
      (\<forall>s \<in> ar_seller_id ` set ?rs. max_in_window (seller_retries attempts s) 1000 \<le> b)"
    unfolding max_default_le_iff [OF assms(2)]
    by (auto simp: retries_by_seller_def set_group_by seller_retries_def)
  also have "\<dots> \<longleftrightarrow> (\<forall>s \<in> ar_seller_id ` set ?rs. \<forall>t \<in> set (seller_retries attempts s).
       int (length (filter (\<lambda>y. t \<le> y \<and> y \<le> t + 1000) (seller_retries attempts s))) \<le> b)"
    using max_in_window_epoch_le_iff [OF ts] assms(2) by simp
  also have "\<dots> \<longleftrightarrow> (\<forall>s. \<forall>t \<in> set (seller_retries attempts s).
       int (length (filter (\<lambda>y. t \<le> y \<and> y \<le> t + 1000) (seller_retries attempts s))) \<le> b)"
    by (auto simp: seller_retries_def)
  finally show ?thesis .
qed

section \<open>Sample rows\<close>

definition effect_row_of :: "int \<Rightarrow> int \<Rightarrow> event \<Rightarrow> effect_row" where
  "effect_row_of i eff e = \<lparr>effect_index = i, er_event_id = ev_eventId e, er_seller_id = ev_sellerId e,
     er_order_id = ev_orderId e, er_seq = ev_sequence e, er_operation = ev_operation e,
     er_quantity = ev_quantity e, er_price = ev_price e, er_occurred_at = ev_occurredAt e,
     er_effect_at = eff, er_payload = body_of e\<rparr>"

definition attempt_row_of :: "int \<Rightarrow> int \<Rightarrow> int \<Rightarrow> event \<Rightarrow> attempt_row" where
  "attempt_row_of i start fin e = \<lparr>ar_id = i, ar_event_id = ev_eventId e, ar_seller_id = ev_sellerId e,
     ar_order_id = ev_orderId e, ar_seq = ev_sequence e, ar_start_at = start, ar_end_at = Some fin,
     ar_status = Some 200, ar_response_lost = Some 0, ar_instance = None\<rparr>"

definition pub_record_of :: "int \<Rightarrow> event \<Rightarrow> pub_record" where
  "pub_record_of t e = \<lparr>pb_eventId = ev_eventId e, pb_status = Some 200, pb_createdAt = Some t,
     pb_plannedAt = of_int t, pb_sentAt = of_int t\<rparr>"

definition plan_entry_of :: "int \<Rightarrow> string \<Rightarrow> event \<Rightarrow> plan_entry" where
  "plan_entry_of off phase e = \<lparr>pe_offset = off, pe_phase = phase, pe_event = e\<rparr>"

definition first_event :: event where
  "first_event = sample_event ''e1'' 1 ''CREATE''"

definition second_event :: event where
  "second_event = sample_event ''e2'' 2 ''CHANGE''"

definition small_limits :: limits where
  "small_limits = \<lparr>l_global = 4, l_seller = 2, l_retryPerSecond = 2\<rparr>"

section \<open>Properties\<close>

text \<open>C10: The safety verdict is exact. When every claim line carries its generation, the check
  returns a report, and it passes exactly when no event has two effects, every effect is of a
  planned event with the planned fields, each order's effects by index are 1, 2, 3, ..., no request
  was answered 409, and no business commit came after a newer claim of the same event.\<close>

theorem safety_verdict_exact:
  assumes "\<forall>c \<in> set traces. tl_stage c = ''claimed'' \<longrightarrow> tl_generation c \<noteq> None"
  shows "\<exists>rep. check_safety plan effs attempts traces = Inr rep \<and>
    (sf_passed rep \<longleftrightarrow> effects_safe plan effs \<and> order_kept effs \<and>
       (\<forall>a \<in> set attempts. ar_status a \<noteq> Some 409) \<and> (\<forall>t c. \<not> overtaken traces t c))"
proof -
  obtain xs where xs: "stale_writes traces = Inr xs" "xs = [] \<longleftrightarrow> (\<forall>t c. \<not> overtaken traces t c)"
    using stale_writes_total [OF assms] by blast
  have rej: "out_of_order attempts = [] \<longleftrightarrow> (\<forall>a \<in> set attempts. ar_status a \<noteq> Some 409)"
    by (simp add: out_of_order_def filter_empty_conv)
  have eff: "duplicate_events effs = [] \<and> unknown_events plan effs = [] \<and> mismatched_events plan effs = [] \<longleftrightarrow>
      effects_safe plan effs"
    unfolding effects_safe_def duplicate_events_iff unknown_events_iff
    by (fastforce simp: mismatched_events_iff split: option.splits)
  show ?thesis
    using xs eff order_breaks_iff [of effs] rej by (simp add: check_safety_def Let_def) blast
qed

theorem safety_verdict_exact_witness:
  "\<exists>rep. check_safety (plan_of [plan_entry_of 0 ''p'' first_event, plan_entry_of 10 ''p'' second_event])
      [effect_row_of 2 30 second_event, effect_row_of 1 20 first_event] [attempt_row_of 1 10 20 first_event]
      [\<lparr>tl_stage = ''claimed'', tl_eventId = ''e1'', tl_time = 5, tl_generation = Some 1, tl_instance = ''a''\<rparr>,
       \<lparr>tl_stage = ''business_commit'', tl_eventId = ''e1'', tl_time = 9, tl_generation = Some 1, tl_instance = ''a''\<rparr>]
      = Inr rep \<and> order_kept [effect_row_of 2 30 second_event, effect_row_of 1 20 first_event]"
proof -
  let ?plan = "plan_of [plan_entry_of 0 ''p'' first_event, plan_entry_of 10 ''p'' second_event]"
  let ?effs = "[effect_row_of 2 30 second_event, effect_row_of 1 20 first_event]"
  let ?as = "[attempt_row_of 1 10 20 first_event]"
  let ?ts = "[\<lparr>tl_stage = ''claimed'', tl_eventId = ''e1'', tl_time = 5, tl_generation = Some 1, tl_instance = ''a''\<rparr>,
       \<lparr>tl_stage = ''business_commit'', tl_eventId = ''e1'', tl_time = 9, tl_generation = Some 1, tl_instance = ''a''\<rparr>]"
  have h: "\<forall>c \<in> set ?ts. tl_stage c = ''claimed'' \<longrightarrow> tl_generation c \<noteq> None" by simp
  have "case check_safety ?plan ?effs ?as ?ts of Inl _ \<Rightarrow> False | Inr rep \<Rightarrow> sf_passed rep" by code_simp
  then show ?thesis using safety_verdict_exact [OF h, of ?plan ?effs ?as] by auto
qed

text \<open>C11: The liveness verdict is exact. When every accepted event was planned, the check returns a
  report, and it passes exactly when every accepted event has an effect, no permit is held, no inbox
  row is open for a delivered event, and every planned event was accepted or refused with 429.\<close>

theorem liveness_verdict_exact:
  assumes "\<forall>k. has_accepted load k \<longrightarrow> map_of plan k \<noteq> None"
  shows "\<exists>rep. check_liveness trace plan load obs effs held inbox = Inr rep \<and>
    (lv_passed rep \<longleftrightarrow> (\<forall>k. has_accepted load k \<longrightarrow> k \<in> er_event_id ` set effs) \<and> held = [] \<and>
       (\<forall>k \<in> set inbox. k \<notin> er_event_id ` set effs) \<and>
       (\<forall>k \<in> fst ` set plan. has_accepted load k \<or> was_refused load k))"
proof -
  have "undelivered load effs = [] \<longleftrightarrow> (\<forall>k. has_accepted load k \<longrightarrow> k \<in> er_event_id ` set effs)"
    using undelivered_iff [of _ load effs] by (metis empty_iff list.set(1) last_in_set)
  moreover have "pending_delivered inbox effs = [] \<longleftrightarrow> (\<forall>k \<in> set inbox. k \<notin> er_event_id ` set effs)"
    by (simp add: pending_delivered_def filter_empty_conv by_event_None)
  ultimately show ?thesis using refused_covers_iff [of plan load]
    by (simp add: check_liveness_def Let_def undelivered_sellers [OF assms])
qed

theorem liveness_verdict_exact_witness:
  "\<exists>rep. check_liveness [plan_entry_of 0 ''p'' first_event] (plan_of [plan_entry_of 0 ''p'' first_event])
      [pub_record_of 3 first_event] [] [effect_row_of 1 20 first_event] [] [] = Inr rep \<and> lv_passed rep"
proof -
  let ?plan = "plan_of [plan_entry_of 0 ''p'' first_event]" and ?load = "[pub_record_of 3 first_event]"
  let ?effs = "[effect_row_of 1 20 first_event]"
  have a: "has_accepted ?load k \<longleftrightarrow> k = ''e1''" for k
    by (auto simp: has_accepted_def published_of_def dict_of_def pub_record_of_def first_event_def
        sample_event_def truthy_def)
  have p: "?plan = [(''e1'', plan_entry_of 0 ''p'' first_event)]"
    by (simp add: plan_of_def dict_of_def plan_entry_of_def first_event_def sample_event_def)
  have e: "er_event_id ` set ?effs = {''e1''}" by (simp add: effect_row_of_def first_event_def sample_event_def)
  show ?thesis
    using liveness_verdict_exact [of ?load ?plan "[plan_entry_of 0 ''p'' first_event]" "[]" ?effs "[]" "[]"] a e
    by (simp add: p)
qed

text \<open>C12: The budget verdict is exact up to its window. For calls that do not end before they start
  and epoch-millisecond start times, it passes exactly when at every instant the open calls stay
  within the global limit, those to one seller within the seller limit and those of one order
  within one, and no second after a retry, both ends included, holds more retries to a seller than
  the limit.\<close>

theorem budget_verdict_exact:
  assumes "\<forall>a \<in> set attempts. ar_start_at a \<le> get_or eoo (ar_end_at a)"
    and "\<forall>a \<in> set attempts. 2 ^ 24 < ar_start_at a \<and> ar_start_at a + 1000 < 2 ^ 53"
    and "0 \<le> l_global lims" "0 \<le> l_seller lims" "0 \<le> l_retryPerSecond lims"
  shows "bg_passed (check_budget lims eoo attempts) \<longleftrightarrow>
    (\<forall>t. open_at (map (call_interval eoo) attempts) t \<le> l_global lims) \<and>
    (\<forall>s t. open_at (map (call_interval eoo) (filter (\<lambda>a. ar_seller_id a = s) attempts)) t \<le> l_seller lims) \<and>
    (\<forall>k t. open_at (map (call_interval eoo) (filter (\<lambda>a. attempt_order a = k) attempts)) t \<le> 1) \<and>
    (\<forall>s. \<forall>t \<in> set (seller_retries attempts s).
       int (length (filter (\<lambda>y. t \<le> y \<and> y \<le> t + 1000) (seller_retries attempts s))) \<le> l_retryPerSecond lims)"
  unfolding check_budget_def Let_def budget_report.select_convs
    max_overlap_le_iff [OF forward_calls [OF assms(1)] assms(3)] retry_peaks_le_iff [OF assms(2,5)]
    group_peaks_le_iff [OF assms(1,4)] group_peaks_le_iff [OF assms(1) zero_le_one] ..

theorem budget_verdict_exact_witness:
  "\<forall>t. open_at (map (call_interval 0) [attempt_row_of 1 20000000 20000050 first_event,
      attempt_row_of 2 20000050 20000090 first_event]) t \<le> 4"
proof -
  let ?as = "[attempt_row_of 1 20000000 20000050 first_event, attempt_row_of 2 20000050 20000090 first_event]"
  have "bg_passed (check_budget small_limits 0 ?as)" by code_simp
  then show ?thesis
    using budget_verdict_exact [of ?as 0 small_limits] by (simp add: attempt_row_of_def small_limits_def)
qed

end
