(* ===== verification/Run_Verdicts.thy ===== *)
theory Run_Verdicts
  imports Run_Checker
begin

text \<open>
  The second half of \<open>check\<close> in \<open>experiments/isolation/check.py\<close>: latency per cohort, the
  observability verdict on the backlog alert, the evidence verdict, and the whole report. Times
  that never came are \<open>None\<close> where the code uses \<open>math.inf\<close>.
\<close>

section \<open>Latency\<close>

record cohort_report =
  co_n :: nat
  co_delivered :: nat
  co_censored :: nat
  co_p50Ms :: "int option"
  co_p95Ms :: "int option"
  co_p99Ms :: "int option"
  co_maxMs :: "int option"
  co_missRate :: "rat option"
  co_misses :: nat
  co_internalP99Ms :: "int option"
  co_internalMissRate :: "rat option"
  co_acceptDelayP99Ms :: "rat option"

text \<open>\<open>inf - created > TARGET_MS\<close> holds.\<close>

definition late_by :: "int option \<Rightarrow> int \<Rightarrow> bool" where
  "late_by done_at created_at = (case done_at of None \<Rightarrow> True | Some t \<Rightarrow> TARGET_MS < t - created_at)"

definition completed_at :: "obligation list \<Rightarrow> string \<Rightarrow> int option" where
  "completed_at obs k =
     (case map_of (dict_of ob_event_id id obs) k of None \<Rightarrow> None | Some ob \<Rightarrow> ob_completed_at ob)"

text \<open>\<open>x or math.inf\<close>: a zero is no time either.\<close>

definition nonzero :: "int option \<Rightarrow> int option" where
  "nonzero v = (if v = Some 0 then None else v)"

definition rate5 :: "nat \<Rightarrow> nat \<Rightarrow> rat option" where
  "rate5 m n = (if n = 0 then None else Some (py_round 5 (fl (of_nat m / of_nat n))))"

type_synonym keyed = "string \<times> int"  \<comment> \<open>an accepted event and its creation time\<close>

definition delays :: "(string \<Rightarrow> int option) \<Rightarrow> keyed list \<Rightarrow> int list" where
  "delays done_at ks = concat (map (\<lambda>(k, c). case done_at k of None \<Rightarrow> [] | Some t \<Rightarrow> [t - c]) ks)"

definition count_late :: "(string \<Rightarrow> int option) \<Rightarrow> keyed list \<Rightarrow> nat" where
  "count_late done_at ks = length (filter (\<lambda>(k, c). late_by (done_at k) c) ks)"

definition q50 :: rat where "q50 = fl (1 / 2)"
definition q95 :: rat where "q95 = fl (95 / 100)"
definition q99 :: rat where "q99 = fl (99 / 100)"

definition cohort_of ::
    "(string \<times> int) list \<Rightarrow> obligation list \<Rightarrow> (string \<times> pub_record) list \<Rightarrow> keyed list \<Rightarrow> cohort_report result" where
  "cohort_of eff_at obs accepted ks =
     (let delivered = delays (map_of eff_at) ks; internal = delays (completed_at obs) ks;
          missing = filter (\<lambda>(k, c). map_of eff_at k = None) ks;
          misses = count_late (map_of eff_at) ks;
          internal_misses = count_late (\<lambda>k. nonzero (completed_at obs k)) ks;
          accept_delay = map (\<lambda>(k, c). fl (of_int c - pb_plannedAt (the (map_of accepted k)))) ks
      in bindR (pct delivered q50) (\<lambda>p50. bindR (pct delivered q95) (\<lambda>p95. bindR (pct delivered q99) (\<lambda>p99.
         bindR (pct internal q99) (\<lambda>ip99. bindR (pct accept_delay q99) (\<lambda>ap99. Inr
           \<lparr>co_n = length ks, co_delivered = length delivered, co_censored = length missing,
            co_p50Ms = p50, co_p95Ms = p95, co_p99Ms = p99, co_maxMs = max_opt delivered,
            co_missRate = rate5 misses (length ks), co_misses = misses, co_internalP99Ms = ip99,
            co_internalMissRate = rate5 internal_misses (length ks), co_acceptDelayP99Ms = ap99\<rparr>))))))"

text \<open>Each accepted event with its phase, its group and its seller.\<close>

definition placed :: "run_info \<Rightarrow> plan \<Rightarrow> keyed \<Rightarrow> (string \<times> string \<times> string \<times> keyed) result" where
  "placed r plan kc =
     bindR (need (fst kc) (map_of plan (fst kc))) (\<lambda>p.
       let s = ev_sellerId (pe_event p)
       in Inr (pe_phase p, if s = fault_target r then ''fault'' else ''normal'', s, kc))"

definition cohorts :: "(string \<times> string \<times> string \<times> keyed) list \<Rightarrow> (string \<times> (string \<times> keyed list) list) list" where
  "cohorts ps =
     map (\<lambda>(phase, xs). (phase, group_by fst snd xs))
       (group_by fst (\<lambda>(phase, grp, s, kc). (grp, kc)) ps)"

definition judged_phases :: "run_info \<Rightarrow> string list" where
  "judged_phases r = get_or [] (ru_judgedPhases r)"

text \<open>Per seller: accepted events of the judged phases and how many missed the target.\<close>

definition per_seller :: "run_info \<Rightarrow> (string \<times> int) list \<Rightarrow> (string \<times> string \<times> string \<times> keyed) list \<Rightarrow>
    (string \<times> nat \<times> nat) list" where
  "per_seller r eff_at ps =
     sort_key fst (map (\<lambda>(s, ks). (s, length ks, count_late (map_of eff_at) ks))
       (group_by (\<lambda>(phase, grp, s, kc). s) (\<lambda>(phase, grp, s, kc). kc)
         (filter (\<lambda>(phase, grp, s, kc). phase \<in> set (judged_phases r)) ps)))"

record latency_report =
  la_cohorts :: "(string \<times> (string \<times> cohort_report) list) list"
  la_perSellerJudged :: "(string \<times> nat \<times> nat) list"

definition check_latency ::
    "run_info \<Rightarrow> plan \<Rightarrow> pub_record list \<Rightarrow> obligation list \<Rightarrow> effect_row list \<Rightarrow> latency_report result" where
  "check_latency r plan load obs effs =
     (let eff_at = effect_times effs; accepted = accepted_of load
      in bindR (mapR (placed r plan) (created_of load)) (\<lambda>ps.
         bindR (mapR (\<lambda>(phase, groups).
             bindR (mapR (\<lambda>(grp, ks). bindR (cohort_of eff_at obs accepted ks) (\<lambda>c. Inr (grp, c))) groups)
               (\<lambda>cs. Inr (phase, cs))) (cohorts ps)) (\<lambda>lat.
         Inr \<lparr>la_cohorts = lat, la_perSellerJudged = per_seller r eff_at ps\<rparr>)))"

definition judged_cohort :: "latency_report \<Rightarrow> string \<Rightarrow> cohort_report option" where
  "judged_cohort la phase =
     (case map_of (la_cohorts la) phase of None \<Rightarrow> None | Some groups \<Rightarrow> map_of groups ''normal'')"

definition latency_passed :: "run_info \<Rightarrow> latency_report \<Rightarrow> bool option" where
  "latency_passed r la =
     (if judged_phases r = [] then None
      else Some (list_all (\<lambda>phase. case judged_cohort la phase of
          None \<Rightarrow> False
        | Some c \<Rightarrow> (case co_missRate c of None \<Rightarrow> False | Some m \<Rightarrow> m \<le> fl (1 / 100))) (judged_phases r)))"

section \<open>Observability\<close>

record obs_row =
  ow_t :: int
  ow_truth :: bool
  ow_state :: "string option"
  ow_errors :: "int list"
  ow_stale :: bool

text \<open>The accepted events that are open at \<open>t\<close>, oldest first.\<close>

definition open_events :: "(string \<times> int) list \<Rightarrow> (string \<times> int) list \<Rightarrow> int \<Rightarrow> keyed list" where
  "open_events eff_at order t =
     filter (\<lambda>(k, c). case map_of eff_at k of None \<Rightarrow> True | Some d \<Rightarrow> t < d)
       (take (bisect_right (map (\<lambda>kc. of_int (snd kc)) order) (of_int t)) order)"

definition oldest_ages :: "plan \<Rightarrow> int \<Rightarrow> keyed list \<Rightarrow> (string \<times> int) list result" where
  "oldest_ages plan t ks =
     bindR (mapR (\<lambda>(k, c). bindR (seller_of plan k) (\<lambda>s. Inr (s, t - c))) ks) (\<lambda>ps.
       Inr (map (\<lambda>(s, ages). (s, hd ages)) (group_by fst snd ps)))"

definition obs_row_of ::
    "plan \<Rightarrow> (string \<times> int) list \<Rightarrow> (string \<times> int) list \<Rightarrow> metric_sample \<Rightarrow> (string \<times> int) list \<Rightarrow> obs_row result" where
  "obs_row_of plan eff_at order s ages =
     (let t = sm_time s; ks = open_events eff_at order t
      in bindR (oldest_ages plan t ks) (\<lambda>oldest. Inr
        \<lparr>ow_t = t, ow_truth = list_ex (\<lambda>(k, c). c \<le> t - TARGET_MS) ks, ow_state = sm_alert s,
         ow_errors = map (\<lambda>(seller, age). \<bar>get_or 0 (map_of ages seller) - age\<bar>) oldest,
         ow_stale = (sm_alert s = Some ''UNKNOWN'')\<rparr>))"

record scan_state =
  sc_missed :: int
  sc_false :: int
  sc_episode :: "int option"
  sc_detected :: "int option"
  sc_detections :: "int list"

definition scan_row :: "obs_row \<Rightarrow> scan_state \<Rightarrow> scan_state" where
  "scan_row r s =
     (let s1 = (if ow_truth r \<and> sc_episode s = None then s\<lparr>sc_episode := Some (ow_t r), sc_detected := None\<rparr> else s);
          since = ow_t r - get_or 0 (sc_episode s1);
          s2 = (if ow_truth r \<and> ow_state r = Some ''ALERT'' \<and> sc_detected s1 = None
                then s1\<lparr>sc_detected := Some since, sc_detections := sc_detections s1 @ [since]\<rparr> else s1);
          s3 = (if ow_truth r \<and> ow_state r = Some ''NORMAL'' \<and> GRACE_MS < since
                then s2\<lparr>sc_missed := sc_missed s2 + 1000\<rparr> else s2)
      in if ow_truth r then s3
         else s3\<lparr>sc_false := sc_false s3 + (if ow_state r = Some ''ALERT'' then 1000 else 0), sc_episode := None\<rparr>)"

definition scan_start :: scan_state where
  "scan_start = \<lparr>sc_missed = 0, sc_false = 0, sc_episode = None, sc_detected = None, sc_detections = []\<rparr>"

definition scan_rows :: "obs_row list \<Rightarrow> scan_state" where
  "scan_rows rows = fold scan_row rows scan_start"

record obs_report =
  os_samples :: nat
  os_detectionDelaysMs :: "int list"
  os_detectionMaxMs :: "int option"
  os_missedMs :: int
  os_falseAlertMs :: int
  os_unknownSamples :: nat
  os_ageErrorP50Ms :: "int option"
  os_ageErrorP95Ms :: "int option"
  os_ageErrorMaxMs :: "int option"
  os_lagPeak :: "int option"
  os_passed :: bool

definition obs_report_of :: "metric_sample list \<Rightarrow> obs_row list \<Rightarrow> obs_report result" where
  "obs_report_of samples rows =
     (let sc = scan_rows rows; errs = concat (map ow_errors rows)
      in bindR (pct errs q50) (\<lambda>p50. bindR (pct errs q95) (\<lambda>p95. Inr
        \<lparr>os_samples = length rows, os_detectionDelaysMs = take 20 (sc_detections sc),
         os_detectionMaxMs = max_opt (sc_detections sc), os_missedMs = sc_missed sc,
         os_falseAlertMs = sc_false sc, os_unknownSamples = length (filter ow_stale rows),
         os_ageErrorP50Ms = p50, os_ageErrorP95Ms = p95, os_ageErrorMaxMs = max_opt errs,
         os_lagPeak = max_opt (map (\<lambda>s. or_else (sm_lag s) 0) samples),
         os_passed = (sc_missed sc = 0)\<rparr>)))"

definition check_observability ::
    "plan \<Rightarrow> pub_record list \<Rightarrow> effect_row list \<Rightarrow> metric_sample list \<Rightarrow> obs_report option result" where
  "check_observability plan load effs samples =
     (let order = sort_key snd (created_of load); eff_at = effect_times effs;
          sourced = concat (map (\<lambda>s. case sm_source s of None \<Rightarrow> [] | Some ages \<Rightarrow> [(s, ages)]) samples)
      in if sourced = [] then Inr None
         else bindR (mapR (\<lambda>(s, ages). obs_row_of plan eff_at order s ages) sourced) (\<lambda>rows.
           bindR (obs_report_of samples rows) (\<lambda>rep. Inr (Some rep))))"

section \<open>Evidence\<close>

record evidence_report =
  ed_generatorLateP99Ms :: "rat option"
  ed_generatorLateMaxMs :: "rat option"
  ed_loadFailures :: nat
  ed_clockOffsetMaxMs :: "rat option"
  ed_faultApplied :: "(nat \<times> nat) option"   \<comment> \<open>calls, slow calls\<close>
  ed_passed :: bool

definition fault_calls :: "string \<Rightarrow> int \<times> int \<Rightarrow> attempt_row list \<Rightarrow> attempt_row list" where
  "fault_calls target fault attempts =
     filter (\<lambda>a. ar_seller_id a = target \<and> fst fault \<le> ar_start_at a \<and> ar_start_at a < snd fault - 3000 \<and>
       truthy (ar_end_at a)) attempts"

definition slow_calls :: "attempt_row list \<Rightarrow> attempt_row list" where
  "slow_calls as = filter (\<lambda>a. 2900 \<le> get_or 0 (ar_end_at a) - ar_start_at a) as"

definition check_evidence :: "run_info \<Rightarrow> pub_record list \<Rightarrow> attempt_row list \<Rightarrow> evidence_report result" where
  "check_evidence r load attempts =
     (let pub = map snd (published_of load);
          late = map (\<lambda>v. fl (pb_sentAt v - pb_plannedAt v)) pub;
          applied = (case ru_fault r of
              None \<Rightarrow> None
            | Some f \<Rightarrow> (let cs = fault_calls (fault_target r) f attempts in Some (length cs, length (slow_calls cs))));
          offs = concat (map (\<lambda>(_, v). case v of None \<Rightarrow> [] | Some x \<Rightarrow> [\<bar>x\<bar>]) (get_or [] (ru_clockOffsetsMs r)));
          worst = max_opt offs
      in bindR (pct late q99) (\<lambda>p99. Inr
        \<lparr>ed_generatorLateP99Ms = p99, ed_generatorLateMaxMs = max_opt late,
         ed_loadFailures = length (filter (\<lambda>v. pb_status v \<noteq> Some 200) pub),
         ed_clockOffsetMaxMs = worst, ed_faultApplied = applied,
         ed_passed = ((case worst of None \<Rightarrow> True | Some w \<Rightarrow> w \<le> 5) \<and>
            (case applied of None \<Rightarrow> True | Some (_, slow) \<Rightarrow> 0 < slow))\<rparr>))"

section \<open>The whole report\<close>

record run_report =
  rr_safety :: safety_report
  rr_liveness :: liveness_report
  rr_budget :: budget_report
  rr_latency :: latency_report
  rr_latencyPassed :: "bool option"
  rr_observability :: "obs_report option"
  rr_evidence :: evidence_report

definition check_run :: "run_files \<Rightarrow> run_report result" where
  "check_run f =
     (let r = f_run f; load = f_load f; effs = f_effects f; attempts = f_attempts f
      in bindR (relabel r (f_trace f)) (\<lambda>trace. let plan = plan_of trace in
         bindR (check_safety plan effs attempts (f_traces f)) (\<lambda>safety.
         bindR (check_liveness trace plan load (f_obligations f) effs (f_heldPermits f) (f_openInbox f)) (\<lambda>live.
         bindR (check_latency r plan load (f_obligations f) effs) (\<lambda>la.
         bindR (check_observability plan load effs (f_samples f)) (\<lambda>obs.
         bindR (check_evidence r load attempts) (\<lambda>ev. Inr
           \<lparr>rr_safety = safety, rr_liveness = live,
            rr_budget = check_budget (ru_limits r) (end_of_observation r attempts) attempts,
            rr_latency = la, rr_latencyPassed = latency_passed r la, rr_observability = obs,
            rr_evidence = ev\<rparr>)))))))"

section \<open>Percentiles never raise\<close>

lemma pct_total:
  assumes "0 < q" "q \<le> 1 - 1 / 2 ^ 53"
  shows "\<exists>v. pct xs q = Inr v"
proof (cases "xs = []")
  case False
  then have "1 \<le> pct_rank q (length xs)" "pct_rank q (length xs) \<le> int (length xs)"
    using pct_rank_bounds [OF assms, of "length xs"] by auto
  then show ?thesis using False by (simp add: pct_def py_get_def max_def)
qed (simp add: pct_def)

lemma quantiles:
  "0 < q50" "q50 \<le> 1 - 1 / 2 ^ 53" "0 < q95" "q95 \<le> 1 - 1 / 2 ^ 53" "0 < q99" "q99 \<le> 1 - 1 / 2 ^ 53"
  by code_simp+

lemmas pct_q50 = pct_total [OF quantiles(1,2)]
lemmas pct_q95 = pct_total [OF quantiles(3,4)]
lemmas pct_q99 = pct_total [OF quantiles(5,6)]

lemma cohort_of_total: "\<exists>c. cohort_of eff_at obs accepted ks = Inr c"
proof -
  obtain a b c d e where
    "pct (delays (map_of eff_at) ks) q50 = Inr a" "pct (delays (map_of eff_at) ks) q95 = Inr b"
    "pct (delays (map_of eff_at) ks) q99 = Inr c" "pct (delays (completed_at obs) ks) q99 = Inr d"
    "pct (map (\<lambda>(k, c). fl (of_int c - pb_plannedAt (the (map_of accepted k)))) ks) q99 = Inr e"
    using pct_q50 pct_q95 pct_q99 by metis
  then show ?thesis by (simp add: cohort_of_def Let_def)
qed

lemma obs_report_total: "\<exists>rep. obs_report_of samples rows = Inr rep"
proof -
  obtain a b where "pct (concat (map ow_errors rows)) q50 = Inr a" "pct (concat (map ow_errors rows)) q95 = Inr b"
    using pct_q50 pct_q95 by metis
  then show ?thesis by (simp add: obs_report_of_def Let_def)
qed

lemma evidence_total: "\<exists>rep. check_evidence r load attempts = Inr rep"
proof -
  obtain a where "pct (map (\<lambda>v. fl (pb_sentAt v - pb_plannedAt v)) (map snd (published_of load))) q99 = Inr a"
    using pct_q99 by metis
  then show ?thesis by (simp add: check_evidence_def Let_def)
qed

lemma created_keys: "(k, c) \<in> set (created_of load) \<Longrightarrow> has_accepted load k"
  using accepted_keys [of k load] by (force simp: created_of_def)

text \<open>Without an exception the cohorts are computed group by group.\<close>

definition placed_all :: "run_info \<Rightarrow> plan \<Rightarrow> pub_record list \<Rightarrow> (string \<times> string \<times> string \<times> keyed) list" where
  "placed_all r plan load =
     map (\<lambda>kc. let p = the (map_of plan (fst kc)); s = ev_sellerId (pe_event p)
        in (pe_phase p, if s = fault_target r then ''fault'' else ''normal'', s, kc)) (created_of load)"

definition cohort_value ::
    "pub_record list \<Rightarrow> obligation list \<Rightarrow> effect_row list \<Rightarrow> keyed list \<Rightarrow> cohort_report" where
  "cohort_value load obs effs ks =
     (case cohort_of (effect_times effs) obs (accepted_of load) ks of Inl _ \<Rightarrow> undefined | Inr c \<Rightarrow> c)"

lemma latency_value:
  assumes "\<forall>k. has_accepted load k \<longrightarrow> map_of plan k \<noteq> None"
  shows "check_latency r plan load obs effs = Inr
    \<lparr>la_cohorts = map (\<lambda>(phase, groups). (phase, map (\<lambda>(grp, ks). (grp, cohort_value load obs effs ks)) groups))
        (cohorts (placed_all r plan load)),
     la_perSellerJudged = per_seller r (effect_times effs) (placed_all r plan load)\<rparr>"
proof -
  have ps: "mapR (placed r plan) (created_of load) = Inr (placed_all r plan load)"
    unfolding placed_all_def
  proof (rule mapR_total)
    fix x assume "x \<in> set (created_of load)"
    then show "placed r plan x = Inr (let p = the (map_of plan (fst x)); s = ev_sellerId (pe_event p)
        in (pe_phase p, if s = fault_target r then ''fault'' else ''normal'', s, x))"
      using assms created_keys [of "fst x" "snd x" load] by (auto simp: placed_def Let_def)
  qed
  have f: "cohort_of (effect_times effs) obs (accepted_of load) ks = Inr (cohort_value load obs effs ks)" for ks
    using cohort_of_total [of "effect_times effs" obs "accepted_of load" ks] by (auto simp: cohort_value_def)
  have g: "mapR (\<lambda>(grp, ks). bindR (cohort_of (effect_times effs) obs (accepted_of load) ks) (\<lambda>c. Inr (grp, c))) groups =
      Inr (map (\<lambda>(grp, ks). (grp, cohort_value load obs effs ks)) groups)" for groups :: "(string \<times> keyed list) list"
    by (rule mapR_total) (simp add: f split: prod.splits)
  have h: "mapR (\<lambda>(phase, groups). Inr (phase, F groups)) gs = Inr (map (\<lambda>(phase, groups). (phase, F groups)) gs)"
    for F :: "'x \<Rightarrow> 'y" and gs :: "('p \<times> 'x) list"
    by (rule mapR_total) auto
  show ?thesis by (simp add: check_latency_def Let_def ps g h)
qed

lemma observability_total:
  assumes "\<forall>k. has_accepted load k \<longrightarrow> map_of plan k \<noteq> None"
  shows "\<exists>rep. check_observability plan load effs samples = Inr rep"
proof -
  let ?order = "sort_key snd (created_of load)"
  have sel: "\<exists>s. seller_of plan k = Inr s" if "(k, c) \<in> set (created_of load)" for k c
    using assms created_keys [OF that] by (auto simp: seller_of_def)
  have "\<exists>y. (\<lambda>(k, c). bindR (seller_of plan k) (\<lambda>s. Inr (s, t - c))) x = Inr y"
    if x: "x \<in> set (open_events (effect_times effs) ?order t)" for x t
  proof -
    obtain k c where kc: "x = (k, c)" by (cases x)
    have "(k, c) \<in> set (created_of load)" using x kc by (auto simp: open_events_def dest: in_set_takeD)
    then show ?thesis using sel kc by fastforce
  qed
  then have "\<exists>y. oldest_ages plan t (open_events (effect_times effs) ?order t) = Inr y" for t
    unfolding oldest_ages_def by (intro bindR_exists mapR_exists) auto
  then have "\<exists>y. obs_row_of plan (effect_times effs) ?order s ages = Inr y" for s ages
    unfolding obs_row_of_def Let_def by (intro bindR_exists) auto
  then have "\<exists>rows. mapR (\<lambda>(s, ages). obs_row_of plan (effect_times effs) ?order s ages) xs = Inr rows" for xs
    by (intro mapR_exists) (auto split: prod.splits)
  then show ?thesis using obs_report_total
    by (auto simp: check_observability_def Let_def intro!: bindR_exists)
qed

section \<open>Phases\<close>

lemma find_rev_sorted:
  assumes "find P (rev (sort xs)) = Some x"
  shows "x \<in> set xs \<and> P x \<and> (\<forall>y \<in> set xs. P y \<longrightarrow> y \<le> x)"
proof -
  let ?ys = "rev (sort xs)"
  obtain i where i: "i < length ?ys" "P (?ys ! i)" "x = ?ys ! i" "\<forall>j < i. \<not> P (?ys ! j)"
    using assms by (auto simp: find_Some_iff)
  have s: "sorted_wrt (\<ge>) ?ys" by (simp add: sorted_wrt_rev)
  have "y \<le> x" if y: "y \<in> set xs" "P y" for y
  proof -
    obtain j where j: "j < length ?ys" "?ys ! j = y" using y(1) by (metis in_set_conv_nth set_rev set_sort)
    then have "i \<le> j" using i(4) y(2) by (metis not_le)
    then show ?thesis using s i j by (cases "i = j") (auto simp: sorted_wrt_iff_nth_less)
  qed
  then show ?thesis using i nth_mem [OF i(1)] by simp
qed

lemma phase_at_latest:
  assumes "phase_at (bounds_desc pb) off = Inr name"
  shows "\<exists>b. (name, b) \<in> set pb \<and> b \<le> of_int off \<and> (\<forall>n' b'. (n', b') \<in> set pb \<and> b' \<le> of_int off \<longrightarrow> b' \<le> b)"
proof -
  obtain b where "find (\<lambda>(b, name). b \<le> of_int off) (rev (sort (map (\<lambda>(name, b). (b, name)) pb))) = Some (b, name)"
    using assms by (auto simp: phase_at_def bounds_desc_def split: option.splits)
  from find_rev_sorted [OF this] show ?thesis by (force simp: less_eq_prod_def image_iff)
qed

lemma relabel_entries:
  assumes "relabel r trace = Inr trace'"
  shows "map pe_event trace' = map pe_event trace"
proof (cases "bounds_desc (get_or [] (ru_phaseBounds r)) = []")
  case False
  then have "list_all2 (\<lambda>x y. pe_event y = pe_event x) trace trace'"
    using assms by (auto simp: relabel_def Let_def mapR_Inr_iff bindR_Inr_iff elim!: list_all2_mono)
  then show ?thesis by (induction rule: list_all2_induct) auto
qed (use assms in \<open>simp add: relabel_def\<close>)

lemma relabel_total:
  assumes "\<forall>e \<in> set trace. \<forall>pb. ru_phaseBounds r = Some pb \<and> pb \<noteq> [] \<longrightarrow> (\<exists>p \<in> set pb. snd p \<le> of_int (pe_offset e))"
  shows "\<exists>trace'. relabel r trace = Inr trace'"
proof (cases "bounds_desc (get_or [] (ru_phaseBounds r)) = []")
  case False
  have "bounds_desc [] = []" by (simp add: bounds_desc_def)
  with False obtain pb where pb: "ru_phaseBounds r = Some pb" "pb \<noteq> []"
    by (cases "ru_phaseBounds r") auto
  have "\<exists>n. phase_at (bounds_desc pb) (pe_offset e) = Inr n" if e: "e \<in> set trace" for e
  proof -
    obtain n b where "(n, b) \<in> set pb" "b \<le> of_int (pe_offset e)" using assms e pb by fastforce
    then have "(b, n) \<in> set (bounds_desc pb)" "b \<le> of_int (pe_offset e)" by (force simp: bounds_desc_def)+
    then have "find (\<lambda>(b, name). b \<le> of_int (pe_offset e)) (bounds_desc pb) \<noteq> None"
      unfolding find_None_iff by blast
    then show ?thesis by (auto simp: phase_at_def)
  qed
  then show ?thesis using False pb by (auto simp: relabel_def Let_def intro!: mapR_exists bindR_exists)
qed (simp add: relabel_def)

lemma plan_of_keys: "map_of (plan_of trace) k \<noteq> None \<longleftrightarrow> k \<in> (\<lambda>e. ev_eventId (pe_event e)) ` set trace"
  unfolding plan_of_def by (metis dict_of_keys map_of_eq_None_iff)

section \<open>Episodes\<close>

text \<open>Rows \<open>j .. i\<close> are a stretch of overdue samples that begins at \<open>j\<close>.\<close>

definition episode :: "obs_row list \<Rightarrow> nat \<Rightarrow> nat \<Rightarrow> bool" where
  "episode rows j i \<longleftrightarrow> j \<le> i \<and> i < length rows \<and> (\<forall>m. j \<le> m \<and> m \<le> i \<longrightarrow> ow_truth (rows ! m)) \<and>
     (j = 0 \<or> \<not> ow_truth (rows ! (j - 1)))"

definition missed_at :: "obs_row list \<Rightarrow> nat \<Rightarrow> bool" where
  "missed_at rows i \<longleftrightarrow> (\<exists>j. episode rows j i \<and> ow_state (rows ! i) = Some ''NORMAL'' \<and>
     GRACE_MS < ow_t (rows ! i) - ow_t (rows ! j))"

definition false_at :: "obs_row list \<Rightarrow> nat \<Rightarrow> bool" where
  "false_at rows i \<longleftrightarrow> i < length rows \<and> \<not> ow_truth (rows ! i) \<and> ow_state (rows ! i) = Some ''ALERT''"

lemma episode_snoc:
  "i < length rows \<Longrightarrow> episode (rows @ [r]) j i \<longleftrightarrow> episode rows j i"
  "episode (rows @ [r]) j (length rows) \<longleftrightarrow> ow_truth r \<and>
     (j = length rows \<and> (rows = [] \<or> \<not> ow_truth (last rows)) \<or> rows \<noteq> [] \<and> episode rows j (length rows - 1))"
proof -
  show "i < length rows \<Longrightarrow> episode (rows @ [r]) j i \<longleftrightarrow> episode rows j i"
    by (auto simp: episode_def nth_append)
  show "episode (rows @ [r]) j (length rows) \<longleftrightarrow> ow_truth r \<and>
     (j = length rows \<and> (rows = [] \<or> \<not> ow_truth (last rows)) \<or> rows \<noteq> [] \<and> episode rows j (length rows - 1))"
  proof (cases "j < length rows")
    case True
    have "(\<forall>m. j \<le> m \<and> m \<le> length rows \<longrightarrow> ow_truth ((rows @ [r]) ! m)) \<longleftrightarrow>
        ow_truth r \<and> (\<forall>m. j \<le> m \<and> m \<le> length rows - 1 \<longrightarrow> ow_truth (rows ! m))"
      using True by (auto simp: nth_append le_less)
    then show ?thesis using True by (auto simp: episode_def nth_append)
  next
    case False
    then show ?thesis by (cases "rows = []") (auto simp: episode_def nth_append last_conv_nth)
  qed
qed

lemma episode_exists:
  assumes "rows \<noteq> []"
  shows "(\<exists>j. episode rows j (length rows - 1)) \<longleftrightarrow> ow_truth (last rows)"
  using assms
proof (induction rows rule: rev_induct)
  case (snoc r rows)
  show ?case
    using snoc.IH episode_snoc(2) [of "[]" r] by (cases "rows = []") (auto simp: episode_snoc(2))
qed simp

lemma scan_episode:
  "sc_episode (scan_rows rows) = Some t \<longleftrightarrow> rows \<noteq> [] \<and> (\<exists>j. episode rows j (length rows - 1) \<and> ow_t (rows ! j) = t)"
proof (induction rows arbitrary: t rule: rev_induct)
  case Nil
  then show ?case by (simp add: scan_rows_def scan_start_def)
next
  case (snoc r rows)
  have step: "scan_rows (rows @ [r]) = scan_row r (scan_rows rows)" by (simp add: scan_rows_def)
  have none: "sc_episode (scan_rows rows) = None \<longleftrightarrow> rows = [] \<or> \<not> ow_truth (last rows)"
  proof (cases "rows = []")
    case False
    have "(\<exists>j. episode rows j (length rows - 1)) \<longleftrightarrow> ow_truth (last rows)"
      by (rule episode_exists [OF False])
    then show ?thesis using snoc.IH False by (metis not_None_eq)
  qed (simp add: scan_rows_def scan_start_def)
  have ep: "sc_episode (scan_row r s) = (if \<not> ow_truth r then None else if sc_episode s = None then Some (ow_t r) else sc_episode s)" for s
    by (auto simp: scan_row_def Let_def)
  have l: "ow_t ((rows @ [r]) ! j) = ow_t (rows ! j)" if "episode rows j (length rows - 1)" "rows \<noteq> []" for j
    using that by (auto simp: episode_def nth_append)
  have new: "ow_t ((rows @ [r]) ! length rows) = ow_t r" by simp
  show ?case
  proof (cases "ow_truth r \<and> sc_episode (scan_rows rows) = None")
    case True
    then have "\<not> (rows \<noteq> [] \<and> episode rows j (length rows - 1))" for j
      using none episode_exists [of rows] by blast
    then have "episode (rows @ [r]) j (length rows) \<longleftrightarrow> j = length rows" for j
      using True none by (auto simp: episode_snoc(2))
    then show ?thesis using True by (auto simp: step ep)
  next
    case False
    then show ?thesis using none snoc.IH [of t] l by (auto simp: step ep episode_snoc(2))
  qed
qed

lemma set_snoc_indices:
  "{i. i < length (rows @ [r]) \<and> P i} =
     {i. i < length rows \<and> P i} \<union> (if P (length rows) then {length rows} else {})"
  by (auto simp: less_Suc_eq)

lemma card_snoc_indices:
  "card {i. i < length (rows @ [r]) \<and> P i} =
     card {i. i < length rows \<and> P i} + (if P (length rows) then 1 else 0)"
  unfolding set_snoc_indices by (auto simp: card_insert_if)

lemma missed_step:
  "sc_missed (scan_row r s) = sc_missed s + (if ow_truth r \<and> ow_state r = Some ''NORMAL'' \<and>
     GRACE_MS < ow_t r - get_or (ow_t r) (sc_episode s) then 1000 else 0)"
  by (cases "sc_episode s") (simp_all add: scan_row_def Let_def)

lemma false_step:
  "sc_false (scan_row r s) = sc_false s + (if \<not> ow_truth r \<and> ow_state r = Some ''ALERT'' then 1000 else 0)"
  by (simp add: scan_row_def Let_def)

lemma missed_at_new:
  "missed_at (rows @ [r]) (length rows) \<longleftrightarrow> ow_truth r \<and> ow_state r = Some ''NORMAL'' \<and>
     GRACE_MS < ow_t r - get_or (ow_t r) (sc_episode (scan_rows rows))"
proof (cases "sc_episode (scan_rows rows)")
  case None
  then have "\<not> (rows \<noteq> [] \<and> episode rows j (length rows - 1))" for j
    using scan_episode [of rows] by auto
  then show ?thesis using None by (auto simp: missed_at_def episode_snoc(2) GRACE_MS_def)
next
  case (Some t)
  then obtain j where j: "rows \<noteq> []" "episode rows j (length rows - 1)" "ow_t (rows ! j) = t"
    using scan_episode by blast
  have u: "ow_t ((rows @ [r]) ! j') = t" if "episode rows j' (length rows - 1)" for j'
    using that scan_episode [of rows "ow_t (rows ! j')"] Some j(1) by (auto simp: episode_def nth_append)
  have "ow_truth (last rows)" using episode_exists [OF j(1)] j(2) by blast
  then show ?thesis using Some j u by (auto simp: missed_at_def episode_snoc(2))
qed

lemma missed_at_old: "i < length rows \<Longrightarrow> missed_at (rows @ [r]) i \<longleftrightarrow> missed_at rows i"
  by (auto simp: missed_at_def episode_snoc(1)) (auto simp: episode_def nth_append)

lemma scan_counts:
  "sc_missed (scan_rows rows) = 1000 * int (card {i. i < length rows \<and> missed_at rows i}) \<and>
   sc_false (scan_rows rows) = 1000 * int (card {i. i < length rows \<and> false_at rows i})"
proof (induction rows rule: rev_induct)
  case Nil
  then show ?case by (simp add: scan_rows_def scan_start_def)
next
  case (snoc r rows)
  have step: "scan_rows (rows @ [r]) = scan_row r (scan_rows rows)" by (simp add: scan_rows_def)
  have old: "{i. i < length rows \<and> missed_at (rows @ [r]) i} = {i. i < length rows \<and> missed_at rows i}"
    "{i. i < length rows \<and> false_at (rows @ [r]) i} = {i. i < length rows \<and> false_at rows i}"
    using missed_at_old by (auto simp: false_at_def nth_append)
  have new: "false_at (rows @ [r]) (length rows) \<longleftrightarrow> \<not> ow_truth r \<and> ow_state r = Some ''ALERT''"
    by (simp add: false_at_def)
  show ?case
    unfolding step missed_step false_step card_snoc_indices old new missed_at_new using snoc by simp
qed

section \<open>Cohorts and their miss rates\<close>

text \<open>The accepted events of one phase and group.\<close>

definition cohort_events :: "run_info \<Rightarrow> plan \<Rightarrow> pub_record list \<Rightarrow> string \<Rightarrow> string \<Rightarrow> keyed list" where
  "cohort_events r plan load phase grp =
     filter (\<lambda>kc. let p = the (map_of plan (fst kc))
        in pe_phase p = phase \<and>
           (if ev_sellerId (pe_event p) = fault_target r then ''fault'' else ''normal'') = grp) (created_of load)"

lemma cohort_value_fields:
  "co_n (cohort_value load obs effs ks) = length ks"
  "co_delivered (cohort_value load obs effs ks) = length (delays (map_of (effect_times effs)) ks)"
  "co_censored (cohort_value load obs effs ks) = length (filter (\<lambda>(k, c). map_of (effect_times effs) k = None) ks)"
  "co_misses (cohort_value load obs effs ks) = count_late (map_of (effect_times effs)) ks"
  "co_missRate (cohort_value load obs effs ks) = rate5 (count_late (map_of (effect_times effs)) ks) (length ks)"
proof -
  obtain a b c d e where
    "pct (delays (map_of (effect_times effs)) ks) q50 = Inr a" "pct (delays (map_of (effect_times effs)) ks) q95 = Inr b"
    "pct (delays (map_of (effect_times effs)) ks) q99 = Inr c" "pct (delays (completed_at obs) ks) q99 = Inr d"
    "pct (map (\<lambda>(k, c). fl (of_int c - pb_plannedAt (the (map_of (accepted_of load) k)))) ks) q99 = Inr e"
    using pct_q50 pct_q95 pct_q99 by metis
  then show
    "co_n (cohort_value load obs effs ks) = length ks"
    "co_delivered (cohort_value load obs effs ks) = length (delays (map_of (effect_times effs)) ks)"
    "co_censored (cohort_value load obs effs ks) = length (filter (\<lambda>(k, c). map_of (effect_times effs) k = None) ks)"
    "co_misses (cohort_value load obs effs ks) = count_late (map_of (effect_times effs)) ks"
    "co_missRate (cohort_value load obs effs ks) = rate5 (count_late (map_of (effect_times effs)) ks) (length ks)"
    by (simp_all add: cohort_value_def cohort_of_def Let_def)
qed

lemma delivered_or_censored:
  "length (delays done_at ks) + length (filter (\<lambda>(k, c). done_at k = None) ks) = length ks"
  by (induction ks) (auto simp: delays_def split: option.splits)

lemma cohorts_lookup:
  "map_of (map (\<lambda>(phase, groups). (phase, map (\<lambda>(grp, ks). (grp, f ks)) groups)) (cohorts (placed_all r plan load))) phase =
     Some groups \<Longrightarrow>
   map_of groups grp = (if cohort_events r plan load phase grp = [] then None
     else Some (f (cohort_events r plan load phase grp)))"
  "map_of (map (\<lambda>(phase, groups). (phase, map (\<lambda>(grp, ks). (grp, f ks)) groups)) (cohorts (placed_all r plan load))) phase =
     None \<Longrightarrow> cohort_events r plan load phase grp = []"
proof -
  let ?ps = "placed_all r plan load" and ?h = "\<lambda>(phase, grp, s, kc). (grp, kc)"
  let ?xs = "map ?h (filter (\<lambda>x. fst x = phase) ?ps)"
  have ks: "map snd (filter (\<lambda>x. fst x = grp) ?xs) = cohort_events r plan load phase grp"
  proof -
    have "map snd (filter (\<lambda>x. fst x = grp) (map ?h (filter (\<lambda>x. fst x = phase)
        (map (\<lambda>kc. let p = the (map_of plan (fst kc)); s = ev_sellerId (pe_event p)
          in (pe_phase p, if s = fault_target r then ''fault'' else ''normal'', s, kc)) cs)))) =
      filter (\<lambda>kc. let p = the (map_of plan (fst kc))
        in pe_phase p = phase \<and>
           (if ev_sellerId (pe_event p) = fault_target r then ''fault'' else ''normal'') = grp) cs" for cs
      by (induction cs) (auto simp: Let_def)
    then show ?thesis unfolding placed_all_def cohort_events_def .
  qed
  have "map_of (group_by fst snd zs) grp = (if map snd (filter (\<lambda>x. fst x = grp) zs) = [] then None
      else Some (map snd (filter (\<lambda>x. fst x = grp) zs)))" for zs :: "(string \<times> keyed) list"
    by (auto simp: group_by_lookup filter_empty_conv)
  from this [of ?xs] have ev: "map_of (group_by fst snd ?xs) grp =
      (if cohort_events r plan load phase grp = [] then None else Some (cohort_events r plan load phase grp))"
    unfolding ks .
  have m: "map_of (map (\<lambda>(k, v). (k, F v)) gs) k = map_option F (map_of gs k)"
    for F :: "'x \<Rightarrow> 'y" and gs :: "('k \<times> 'x) list" and k
    by (simp add: map_of_map)
  have l: "map_of (cohorts ?ps) phase = (if phase \<in> fst ` set ?ps then Some (group_by fst snd ?xs) else None)"
    unfolding cohorts_def m by (simp add: group_by_lookup)
  show "map_of (map (\<lambda>(phase, groups). (phase, map (\<lambda>(grp, ks). (grp, f ks)) groups)) (cohorts ?ps)) phase =
     Some groups \<Longrightarrow> map_of groups grp = (if cohort_events r plan load phase grp = [] then None
     else Some (f (cohort_events r plan load phase grp)))"
    unfolding m l using ev by (auto simp: m split: if_splits)
  assume "map_of (map (\<lambda>(phase, groups). (phase, map (\<lambda>(grp, ks). (grp, f ks)) groups)) (cohorts ?ps)) phase = None"
  then have "phase \<notin> fst ` set ?ps" unfolding m l by (simp split: if_splits)
  then have "?xs = []" by (auto simp: filter_empty_conv)
  then show "cohort_events r plan load phase grp = []" using ev by (auto simp: group_by_def split: if_splits)
qed

lemma judged_cohort_value:
  assumes "\<forall>k. has_accepted load k \<longrightarrow> map_of plan k \<noteq> None" "check_latency r plan load obs effs = Inr la"
  shows "judged_cohort la phase = (if cohort_events r plan load phase ''normal'' = [] then None
    else Some (cohort_value load obs effs (cohort_events r plan load phase ''normal'')))"
proof -
  have la: "la_cohorts la = map (\<lambda>(phase, groups). (phase, map (\<lambda>(grp, ks). (grp, cohort_value load obs effs ks)) groups))
      (cohorts (placed_all r plan load))"
    using latency_value [OF assms(1), of r obs effs] assms(2) by auto
  show ?thesis
  proof (cases "map_of (la_cohorts la) phase")
    case None
    then show ?thesis using cohorts_lookup(2) [OF None [unfolded la]] by (simp add: judged_cohort_def)
  next
    case (Some groups)
    then show ?thesis using cohorts_lookup(1) [OF Some [unfolded la]] by (simp add: judged_cohort_def)
  qed
qed

text \<open>Rounding to five digits makes the one per cent limit a little wider.\<close>

lemma round5_le_percent:
  assumes "0 < h"
  shows "fl (of_int h / 100000) \<le> fl (1 / 100) \<longleftrightarrow> h \<le> 1000"
proof -
  have d: "fl (1 / 100) \<le> 1 / 100 + 1 / 900719925474099200" "1 / 100 - 1 / 900719925474099200 \<le> fl (1 / 100)"
    by code_simp+
  have x: "0 < (of_int h :: rat) / 100000" using assms by simp
  have "\<bar>fl (of_int h / 100000) - of_int h / 100000\<bar> \<le> of_int h / 900719925474099200000"
    using fl_err [OF x] by simp
  then have e: "fl (of_int h / 100000) \<le> of_int h / 100000 + of_int h / 900719925474099200000"
      "of_int h / 100000 - of_int h / 900719925474099200000 \<le> fl (of_int h / 100000)"
    by (simp_all only: abs_le_iff) linarith+
  consider "h < 1000" | "h = 1000" | "1000 < h" by linarith
  then show ?thesis
  proof cases
    case 1
    then have "(of_int h :: rat) \<le> of_int 999" by (simp only: of_int_le_iff)
    then have "fl (of_int h / 100000) \<le> fl (1 / 100)" using d e by linarith
    then show ?thesis using 1 by simp
  next
    case 3
    then have "(of_int 1001 :: rat) \<le> of_int h" by (simp only: of_int_le_iff)
    then have "fl (1 / 100) < fl (of_int h / 100000)" using d e by linarith
    then show ?thesis using 3 by simp
  qed simp
qed

lemma rate5_bounds:
  assumes "0 < n"
  shows "100 * m \<le> n \<Longrightarrow> \<exists>x. rate5 m n = Some x \<and> x \<le> fl (1 / 100)"
    and "rate5 m n = Some x \<Longrightarrow> x \<le> fl (1 / 100) \<Longrightarrow> 100000 * m < 1001 * n"
proof -
  define w :: rat where "w = of_nat m / of_nat n"
  define h where "h = half_even (fl w * 100000)"
  have r: "rate5 m n = Some (fl (of_int h / 100000))" using assms by (simp add: rate5_def py_round_def h_def w_def)
  have p53: "(2 :: rat) ^ 53 = 9007199254740992" by simp
  have y: "w - w / 9007199254740992 \<le> fl w" "fl w \<le> w + w / 9007199254740992" if "0 < w"
    using fl_err [OF that] unfolding abs_le_iff p53 by linarith+
  have w0: "fl w = 0 \<and> h = 0" if "m = 0" using that by (simp add: w_def h_def half_even_def)
  have hz: "of_int h \<le> fl w * 100000 + 1 / 2" "fl w * 100000 \<le> of_int h + 1 / 2"
    using half_even_err [of "fl w * 100000"] unfolding h_def [symmetric] by linarith+
  have pass: "fl (of_int h / 100000) \<le> fl (1 / 100) \<longleftrightarrow> h \<le> 1000" if "0 < w"
  proof (cases "0 < h")
    case True
    then show ?thesis by (rule round5_le_percent)
  next
    case False
    have "0 < fl w" using fl_positive [OF that] .
    then have "0 \<le> h" using hz(2) False by linarith
    then have "h = 0" using False by simp
    moreover have "0 \<le> fl (1 / 100)" by code_simp
    ultimately show ?thesis by simp
  qed
  have pos: "0 < w" if "m \<noteq> 0" using that assms by (simp add: w_def)
  show "\<exists>x. rate5 m n = Some x \<and> x \<le> fl (1 / 100)" if le: "100 * m \<le> n"
  proof (cases "m = 0")
    case True
    moreover have "0 \<le> fl (1 / 100)" by code_simp
    ultimately show ?thesis using w0 r by simp
  next
    case False
    have "(of_nat (100 * m) :: rat) \<le> of_nat n" using le by (simp only: of_nat_le_iff)
    then have "w \<le> 1 / 100" using assms by (simp add: w_def field_simps)
    then have "(of_int h :: rat) < 1001" using y [OF pos [OF False]] hz(1) by linarith
    then have "h < 1001" by simp
    then show ?thesis using pass [OF pos [OF False]] r by simp
  qed
  show "100000 * m < 1001 * n" if x: "rate5 m n = Some x" "x \<le> fl (1 / 100)"
  proof (cases "m = 0")
    case False
    have "h \<le> 1000" using x r pass [OF pos [OF False]] by simp
    then have "(of_int h :: rat) \<le> of_int 1000" by (simp only: of_int_le_iff)
    then have "w < 1001 / 100000" using y [OF pos [OF False]] hz(2) by simp
    then have "(of_nat (100000 * m) :: rat) < of_nat (1001 * n)" using assms by (simp add: w_def field_simps)
    then show ?thesis by (simp only: of_nat_less_iff)
  qed (use assms in simp)
qed

section \<open>Properties\<close>

text \<open>C15: The run checker returns a report. It raises nothing when every accepted event was planned,
  every claim line has a generation, and each planned offset lies at or after some phase's
  beginning.\<close>

theorem check_run_returns:
  assumes "\<forall>k. has_accepted (f_load f) k \<longrightarrow> k \<in> (\<lambda>e. ev_eventId (pe_event e)) ` set (f_trace f)"
    and "\<forall>c \<in> set (f_traces f). tl_stage c = ''claimed'' \<longrightarrow> tl_generation c \<noteq> None"
    and "\<forall>e \<in> set (f_trace f). \<forall>pb. ru_phaseBounds (f_run f) = Some pb \<and> pb \<noteq> [] \<longrightarrow>
           (\<exists>p \<in> set pb. snd p \<le> of_int (pe_offset e))"
  shows "\<exists>rep. check_run f = Inr rep"
proof -
  obtain trace where trace: "relabel (f_run f) (f_trace f) = Inr trace" using relabel_total [OF assms(3)] ..
  have "map (\<lambda>e. ev_eventId (pe_event e)) trace = map (\<lambda>e. ev_eventId (pe_event e)) (f_trace f)"
    using relabel_entries [OF trace] by (metis (no_types, lifting) comp_def map_map map_eq_conv)
  then have "(\<lambda>e. ev_eventId (pe_event e)) ` set trace = (\<lambda>e. ev_eventId (pe_event e)) ` set (f_trace f)"
    by (metis set_map)
  then have planned: "\<forall>k. has_accepted (f_load f) k \<longrightarrow> map_of (plan_of trace) k \<noteq> None"
    using assms(1) by (simp only: plan_of_keys)
  obtain sf where "check_safety (plan_of trace) (f_effects f) (f_attempts f) (f_traces f) = Inr sf"
    using stale_writes_total [OF assms(2)] by (auto simp: check_safety_def Let_def)
  moreover obtain lv where "check_liveness trace (plan_of trace) (f_load f) (f_obligations f) (f_effects f)
      (f_heldPermits f) (f_openInbox f) = Inr lv"
    using liveness_total [OF planned] by blast
  moreover obtain la where "check_latency (f_run f) (plan_of trace) (f_load f) (f_obligations f) (f_effects f) = Inr la"
    using latency_value [OF planned] by blast
  moreover obtain obs where "check_observability (plan_of trace) (f_load f) (f_effects f) (f_samples f) = Inr obs"
    using observability_total [OF planned] by blast
  moreover obtain ev where "check_evidence (f_run f) (f_load f) (f_attempts f) = Inr ev"
    using evidence_total by blast
  ultimately show ?thesis using trace by (simp add: check_run_def Let_def)
qed

definition sample_run :: run_files where
  "sample_run = \<lparr>f_run = \<lparr>ru_startAt = 0, ru_collectedAt = Some 9000, ru_faultSeller = None, ru_limits = small_limits,
       ru_phaseBounds = Some [(''warm'', 0), (''fault'', 5)], ru_judgedPhases = Some [''fault''],
       ru_fault = None, ru_clockOffsetsMs = None\<rparr>,
     f_trace = [plan_entry_of 1 ''warm'' first_event, plan_entry_of 7 ''warm'' second_event],
     f_load = [pub_record_of 3 first_event, pub_record_of 8 second_event], f_obligations = [],
     f_effects = [effect_row_of 1 20 first_event, effect_row_of 2 30 second_event],
     f_attempts = [attempt_row_of 1 10 20 first_event, attempt_row_of 2 21 30 second_event],
     f_heldPermits = [], f_openInbox = [],
     f_samples = [\<lparr>sm_time = 15, sm_source = Some [], sm_alert = Some ''NORMAL'', sm_lag = None\<rparr>], f_traces = []\<rparr>"

lemma sample_run_accepted: "has_accepted (f_load sample_run) k \<Longrightarrow> k \<in> {''e1'', ''e2''}"
  by (auto simp: has_accepted_def sample_run_def published_of_def dict_of_def pub_record_of_def
      first_event_def second_event_def sample_event_def split: if_splits)

lemma sample_run_facts:
  "(\<lambda>e. ev_eventId (pe_event e)) ` set (f_trace sample_run) = {''e1'', ''e2''}"
  "f_traces sample_run = []" "ru_phaseBounds (f_run sample_run) = Some [(''warm'', 0), (''fault'', 5)]"
  "\<forall>e \<in> set (f_trace sample_run). 0 \<le> pe_offset e"
  by (auto simp: sample_run_def plan_entry_of_def first_event_def second_event_def sample_event_def)

theorem check_run_returns_witness: "\<exists>rep. check_run sample_run = Inr rep"
proof (rule check_run_returns)
  show "\<forall>k. has_accepted (f_load sample_run) k \<longrightarrow> k \<in> (\<lambda>e. ev_eventId (pe_event e)) ` set (f_trace sample_run)"
    unfolding sample_run_facts using sample_run_accepted by blast
qed (use sample_run_facts in auto)

text \<open>Cohorts follow each operation's own planned time: relabelling keeps every event and gives
  it the phase with the latest beginning that is not after its planned offset, whatever phase the
  trace had named.\<close>

lemma relabel_latest_phase:
  assumes "relabel r trace = Inr trace'" "ru_phaseBounds r = Some pb" "pb \<noteq> []" "i < length trace"
  shows "length trace' = length trace \<and> pe_event (trace' ! i) = pe_event (trace ! i) \<and>
    (\<exists>b. (pe_phase (trace' ! i), b) \<in> set pb \<and> b \<le> of_int (pe_offset (trace ! i)) \<and>
       (\<forall>n' b'. (n', b') \<in> set pb \<and> b' \<le> of_int (pe_offset (trace ! i)) \<longrightarrow> b' \<le> b))"
proof -
  have ne: "bounds_desc pb \<noteq> []" using assms(3) by (metis bounds_desc_def length_0_conv length_map length_rev length_sort)
  then have all: "list_all2 (\<lambda>x y. \<exists>n. phase_at (bounds_desc pb) (pe_offset x) = Inr n \<and> y = x\<lparr>pe_phase := n\<rparr>) trace trace'"
    using assms(1,2) by (auto simp: relabel_def Let_def mapR_Inr_iff bindR_Inr_iff elim!: list_all2_mono)
  then obtain n where "phase_at (bounds_desc pb) (pe_offset (trace ! i)) = Inr n" "trace' ! i = (trace ! i)\<lparr>pe_phase := n\<rparr>"
    using assms(4) by (auto simp: list_all2_conv_all_nth)
  then show ?thesis using phase_at_latest [of pb "pe_offset (trace ! i)" n] list_all2_lengthD [OF all] by simp
qed

lemma relabel_latest_phase_witness:
  "\<exists>trace'. relabel (f_run sample_run) (f_trace sample_run) = Inr trace' \<and>
     pe_event (trace' ! 1) = second_event \<and> pe_phase (trace' ! 1) = ''fault''"
proof -
  have "case relabel (f_run sample_run) (f_trace sample_run) of Inl _ \<Rightarrow> False | Inr t \<Rightarrow> True" by code_simp
  then obtain trace' where t: "relabel (f_run sample_run) (f_trace sample_run) = Inr trace'"
    by (auto split: sum.splits)
  have n: "1 < length (f_trace sample_run)" "pe_event (f_trace sample_run ! 1) = second_event"
      "pe_offset (f_trace sample_run ! 1) = 7"
    by (simp_all add: sample_run_def plan_entry_of_def)
  have f: "ru_phaseBounds (f_run sample_run) = Some [(''warm'', 0), (''fault'', 5)]" by (simp add: sample_run_def)
  obtain b where b: "(pe_phase (trace' ! 1), b) \<in> set [(''warm'', 0), (''fault'', 5 :: rat)]"
      "\<forall>n' b'. (n', b') \<in> set [(''warm'', 0), (''fault'', 5 :: rat)] \<and> b' \<le> 7 \<longrightarrow> b' \<le> b"
      "pe_event (trace' ! 1) = second_event"
    using relabel_latest_phase [OF t f _ n(1)] n(2,3) by auto
  have "5 \<le> b" using b(2) [rule_format, of "''fault''" 5] by simp
  then show ?thesis using t b(1,3) by auto
qed

text \<open>C14: The observability scan counts exactly the samples it should. Missed time is one second for
  each NORMAL sample more than the grace after the first sample of its overdue stretch, false alert
  time one second for each ALERT sample with nothing overdue, and the verdict passes exactly when
  nothing was missed.\<close>

theorem observability_exact:
  assumes "obs_report_of samples rows = Inr rep"
  shows "os_missedMs rep = 1000 * int (card {i. i < length rows \<and> missed_at rows i}) \<and>
    os_falseAlertMs rep = 1000 * int (card {i. i < length rows \<and> false_at rows i}) \<and>
    (os_passed rep \<longleftrightarrow> (\<forall>i < length rows. \<not> missed_at rows i))"
proof -
  have "os_missedMs rep = sc_missed (scan_rows rows)" "os_falseAlertMs rep = sc_false (scan_rows rows)"
      "os_passed rep \<longleftrightarrow> sc_missed (scan_rows rows) = 0"
    using assms by (auto simp: obs_report_of_def Let_def bindR_Inr_iff)
  moreover have "card {i. i < length rows \<and> missed_at rows i} = 0 \<longleftrightarrow> (\<forall>i < length rows. \<not> missed_at rows i)"
    by auto
  ultimately show ?thesis using scan_counts [of rows] by simp
qed

definition sample_rows :: "obs_row list" where
  "sample_rows = map (\<lambda>(t, tr, st). \<lparr>ow_t = t, ow_truth = tr, ow_state = Some st, ow_errors = [], ow_stale = False\<rparr>)
     [(1000, False, ''ALERT''), (2000, True, ''NORMAL''), (5000, True, ''NORMAL''), (6000, True, ''NORMAL'')]"

theorem observability_exact_witness:
  "card {i. i < length sample_rows \<and> missed_at sample_rows i} = 1"
proof -
  have "case obs_report_of [] sample_rows of Inl _ \<Rightarrow> False | Inr rep \<Rightarrow> os_missedMs rep = 1000" by code_simp
  then obtain rep where "obs_report_of [] sample_rows = Inr rep" "os_missedMs rep = 1000"
    by (auto split: sum.splits)
  then show ?thesis using observability_exact [of "[]" sample_rows rep] by simp
qed

text \<open>C13: The latency verdict bounds the miss rate of the healthy sellers. With every judged phase
  holding an accepted event of a healthy seller, at most one per cent late or undelivered events in
  each of them is enough to pass; and a pass means that no judged phase had 1.001 per cent or more
  (the rate is rounded to five digits before it is compared).\<close>

theorem latency_verdict_bounds:
  assumes "\<forall>k. has_accepted load k \<longrightarrow> map_of plan k \<noteq> None" "check_latency r plan load obs effs = Inr la"
    and "judged_phases r \<noteq> []"
  shows "((\<forall>ph \<in> set (judged_phases r). cohort_events r plan load ph ''normal'' \<noteq> [] \<and>
        100 * count_late (map_of (effect_times effs)) (cohort_events r plan load ph ''normal'')
          \<le> length (cohort_events r plan load ph ''normal'')) \<longrightarrow> latency_passed r la = Some True) \<and>
    (latency_passed r la = Some True \<longrightarrow> (\<forall>ph \<in> set (judged_phases r).
        cohort_events r plan load ph ''normal'' \<noteq> [] \<and>
        100000 * count_late (map_of (effect_times effs)) (cohort_events r plan load ph ''normal'')
          < 1001 * length (cohort_events r plan load ph ''normal'')))"
proof -
  let ?ev = "\<lambda>ph. cohort_events r plan load ph ''normal''"
  let ?late = "\<lambda>ph. count_late (map_of (effect_times effs)) (?ev ph)"
  let ?ok = "\<lambda>ph. ?ev ph \<noteq> [] \<and> (\<exists>x. rate5 (?late ph) (length (?ev ph)) = Some x \<and> x \<le> fl (1 / 100))"
  have "latency_passed r la = Some True \<longleftrightarrow> (\<forall>ph \<in> set (judged_phases r). ?ok ph)"
    using assms(3) by (auto simp: latency_passed_def list_all_iff judged_cohort_value [OF assms(1,2)]
        cohort_value_fields split: option.splits if_splits)
  then show ?thesis
    using rate5_bounds [of "length (?ev _)" "?late _"] by (metis length_greater_0_conv)
qed

theorem latency_verdict_bounds_witness:
  "\<exists>la. check_latency (f_run sample_run) (plan_of [plan_entry_of 1 ''fault'' first_event]) [pub_record_of 3 first_event] []
      [effect_row_of 1 20 first_event] = Inr la \<and> latency_passed (f_run sample_run) la = Some True"
proof -
  let ?plan = "plan_of [plan_entry_of 1 ''fault'' first_event]" and ?load = "[pub_record_of 3 first_event]"
  let ?effs = "[effect_row_of 1 20 first_event]"
  have acc: "\<forall>k. has_accepted ?load k \<longrightarrow> map_of ?plan k \<noteq> None"
    by (auto simp: has_accepted_def published_of_def plan_of_def dict_of_def pub_record_of_def plan_entry_of_def
        first_event_def sample_event_def)
  have j: "judged_phases (f_run sample_run) = [''fault'']" by (simp add: judged_phases_def sample_run_def)
  obtain la where la: "check_latency (f_run sample_run) ?plan ?load [] ?effs = Inr la"
    using latency_value [OF acc] by blast
  have c: "cohort_events (f_run sample_run) ?plan ?load ''fault'' ''normal'' = [(''e1'', 3)]"
    "count_late (map_of (effect_times ?effs)) [(''e1'', 3)] = 0"
    by code_simp+
  show ?thesis using latency_verdict_bounds [OF acc la] la j c by simp
qed

end
