(* ===== verification/Observer.thy ===== *)
theory Observer
  imports Prelude
begin

text \<open>
  The once-per-second observer of a run, \<open>experiments/isolation/observer.py\<close>: what it writes for
  each tick and the rule of its delivery alert. A tick is either paused or a sample with what the
  source answered and the committed lag of each partner; clocks and HTTP calls are arguments.
\<close>

section \<open>The observer\<close>

definition STALE_MS :: int where
  "STALE_MS = 3000"

datatype alert = ALERT | UNKNOWN | NORMAL

text \<open>The source's answer: the time of its backlog snapshot and each seller's overdue count; or the
  call failed.\<close>

datatype fetched = Snapshot int "(string \<times> int) list" | FetchFailed

record tick_input =
  ti_time :: int
  ti_source :: "fetched option"          \<comment> \<open>\<open>None\<close>: run without \<open>--source\<close>\<close>
  ti_partners :: "int option list"       \<comment> \<open>\<open>committedRemaining\<close> where a partner reported one\<close>

datatype tick = Paused | Sampled tick_input

record observed =
  on_time :: int
  on_alert :: "alert option"
  on_lag :: "int option"

record observer_state =
  previous_overdue :: bool
  previous_state :: "alert option"

definition observer_start :: observer_state where
  "observer_start = \<lparr>previous_overdue = False, previous_state = None\<rparr>"

fun snapshot_valid :: "int \<Rightarrow> fetched \<Rightarrow> bool" where
  "snapshot_valid t (Snapshot at_ms sellers) = (t - at_ms \<le> STALE_MS)"
| "snapshot_valid t FetchFailed = False"

fun shows_overdue :: "fetched \<Rightarrow> bool" where
  "shows_overdue (Snapshot at_ms sellers) = (0 < sum_list (map snd sellers))"
| "shows_overdue FetchFailed = False"

definition judge :: "int \<Rightarrow> fetched \<Rightarrow> observer_state \<Rightarrow> alert \<times> observer_state" where
  "judge t f s =
     (if \<not> snapshot_valid t f then (UNKNOWN, \<lparr>previous_overdue = False, previous_state = Some UNKNOWN\<rparr>)
      else (let overdue = shows_overdue f;
                al = (if overdue \<and> previous_overdue s then ALERT
                      else if overdue \<and> previous_state s = Some UNKNOWN then UNKNOWN
                      else NORMAL)
            in (al, \<lparr>previous_overdue = overdue, previous_state = Some al\<rparr>)))"

definition lag_of :: "int option list \<Rightarrow> int option" where
  "lag_of ps =
     (let lags = concat (map (\<lambda>v. case v of None \<Rightarrow> [] | Some x \<Rightarrow> [x]) ps)
      in if lags = [] then None else Some (max_default 0 lags))"

definition sample_tick :: "tick_input \<Rightarrow> observer_state \<Rightarrow> observed \<times> observer_state" where
  "sample_tick i s =
     (case ti_source i of
        None \<Rightarrow> (\<lparr>on_time = ti_time i, on_alert = None, on_lag = lag_of (ti_partners i)\<rparr>, s)
      | Some f \<Rightarrow> (let (al, s') = judge (ti_time i) f s
          in (\<lparr>on_time = ti_time i, on_alert = Some al, on_lag = lag_of (ti_partners i)\<rparr>, s')))"

fun observe :: "tick list \<Rightarrow> observer_state \<Rightarrow> observed list" where
  "observe [] s = []"
| "observe (Paused # ts) s = observe ts s"
| "observe (Sampled i # ts) s = (let (o1, s') = sample_tick i s in o1 # observe ts s')"

section \<open>What the alert says\<close>

text \<open>The samples of a run against one source, with the pauses left out.\<close>

fun samples_of :: "tick list \<Rightarrow> (int \<times> fetched) list" where
  "samples_of [] = []"
| "samples_of (Paused # ts) = samples_of ts"
| "samples_of (Sampled i # ts) =
     (case ti_source i of None \<Rightarrow> samples_of ts | Some f \<Rightarrow> (ti_time i, f) # samples_of ts)"

definition fresh :: "int \<times> fetched \<Rightarrow> bool" where
  "fresh x = snapshot_valid (fst x) (snd x)"

definition late :: "int \<times> fetched \<Rightarrow> bool" where
  "late x \<longleftrightarrow> fresh x \<and> shows_overdue (snd x)"

text \<open>The rule on a sample and the one before it.\<close>

definition rule_of :: "(int \<times> fetched) option \<Rightarrow> int \<times> fetched \<Rightarrow> alert" where
  "rule_of prev x =
     (if \<not> fresh x then UNKNOWN
      else if \<not> shows_overdue (snd x) then NORMAL
      else (case prev of
          None \<Rightarrow> NORMAL
        | Some p \<Rightarrow> if \<not> fresh p then UNKNOWN else if shows_overdue (snd p) then ALERT else NORMAL))"

fun judge_all :: "(int \<times> fetched) list \<Rightarrow> observer_state \<Rightarrow> alert list" where
  "judge_all [] s = []"
| "judge_all (x # xs) s = (let (al, s') = judge (fst x) (snd x) s in al # judge_all xs s')"

fun rules :: "(int \<times> fetched) option \<Rightarrow> (int \<times> fetched) list \<Rightarrow> alert list" where
  "rules prev [] = []"
| "rules prev (x # xs) = rule_of prev x # rules (Some x) xs"

text \<open>What the state remembers of the previous sample.\<close>

definition remembers :: "observer_state \<Rightarrow> (int \<times> fetched) option \<Rightarrow> bool" where
  "remembers s prev \<longleftrightarrow>
     (case prev of
        None \<Rightarrow> s = observer_start
      | Some p \<Rightarrow> previous_overdue s = late p \<and> (\<not> fresh p \<longrightarrow> previous_state s = Some UNKNOWN) \<and>
          (fresh p \<and> \<not> late p \<longrightarrow> previous_state s = Some NORMAL))"

lemma judge_rule:
  assumes "remembers s prev"
  shows "fst (judge (fst x) (snd x) s) = rule_of prev x \<and> remembers (snd (judge (fst x) (snd x) s)) (Some x)"
  using assms
  by (cases prev) (auto simp: judge_def rule_of_def remembers_def late_def fresh_def observer_start_def Let_def)

lemma judge_all_rules: "remembers s prev \<Longrightarrow> judge_all xs s = rules prev xs"
proof (induction xs arbitrary: s prev)
  case (Cons x xs)
  then show ?case using judge_rule [OF Cons.prems, of x] by (simp add: case_prod_unfold Let_def)
qed simp

lemma observe_alerts:
  "concat (map (\<lambda>o1. case on_alert o1 of None \<Rightarrow> [] | Some a \<Rightarrow> [a]) (observe ts s)) = judge_all (samples_of ts) s"
  by (induction ts arbitrary: s rule: samples_of.induct)
    (auto simp: sample_tick_def Let_def split: option.splits prod.splits)

lemma rules_nth:
  "i < length xs \<Longrightarrow> rules prev xs ! i = rule_of (if i = 0 then prev else Some (xs ! (i - 1))) (xs ! i)"
proof (induction xs arbitrary: prev i)
  case (Cons x xs)
  show ?case
  proof (cases i)
    case (Suc j)
    then show ?thesis using Cons by (cases j) auto
  qed simp
qed simp

lemma length_rules [simp]: "length (rules prev xs) = length xs"
  by (induction xs arbitrary: prev) auto

section \<open>Properties\<close>

text \<open>C18: The alert follows its documented rule in every run, pauses included: a sample is ALERT
  exactly when it and the sample before it are both fresh and overdue; it is UNKNOWN exactly when its
  snapshot is stale or missing, or it is the first overdue sample after such a one; so a NORMAL
  sample always has a fresh snapshot.\<close>

theorem alert_rule:
  assumes "as = concat (map (\<lambda>o1. case on_alert o1 of None \<Rightarrow> [] | Some a \<Rightarrow> [a]) (observe ts observer_start))"
    and "xs = samples_of ts" "i < length xs"
  shows "length as = length xs \<and>
    (as ! i = ALERT \<longleftrightarrow> late (xs ! i) \<and> 0 < i \<and> late (xs ! (i - 1))) \<and>
    (as ! i = UNKNOWN \<longleftrightarrow> \<not> fresh (xs ! i) \<or> late (xs ! i) \<and> 0 < i \<and> \<not> fresh (xs ! (i - 1))) \<and>
    (as ! i = NORMAL \<longrightarrow> fresh (xs ! i))"
proof -
  have "as = rules None xs"
    using assms(1,2) observe_alerts judge_all_rules [of observer_start None] by (simp add: remembers_def)
  then show ?thesis using rules_nth [OF assms(3), of None] by (auto simp: rule_of_def late_def)
qed

definition sample_ticks :: "tick list" where
  "sample_ticks =
     [Sampled \<lparr>ti_time = 10000, ti_source = Some (Snapshot 9500 [(''slow'', 1)]), ti_partners = []\<rparr>, Paused,
      Sampled \<lparr>ti_time = 12000, ti_source = Some (Snapshot 11500 [(''slow'', 2)]), ti_partners = [Some 4, None]\<rparr>,
      Sampled \<lparr>ti_time = 13000, ti_source = Some FetchFailed, ti_partners = []\<rparr>]"

theorem alert_rule_witness:
  "concat (map (\<lambda>o1. case on_alert o1 of None \<Rightarrow> [] | Some a \<Rightarrow> [a]) (observe sample_ticks observer_start)) ! 1 = ALERT"
proof -
  have x: "samples_of sample_ticks = [(10000, Snapshot 9500 [(''slow'', 1)]), (12000, Snapshot 11500 [(''slow'', 2)]), (13000, FetchFailed)]"
    by (simp add: sample_ticks_def)
  show ?thesis using alert_rule [OF refl x [symmetric], of 1] by (simp add: late_def fresh_def STALE_MS_def)
qed

end
