(* ===== verification/Sender.thy ===== *)
theory Sender
  imports Mock_Server Intervals
begin

text \<open>
  The load generator, \<open>experiments/isolation/load.py\<close>: the retry loop of \<open>Sender.run\<close> and the
  summary of \<open>main\<close>. What the network returns for one POST is an \<open>outcome\<close>; the receiver is an
  argument of the loop. The locale \<open>exactly_once_api\<close> states what a receiver must promise for the
  loop to deliver an event exactly once, and the seller API mock, driven through \<open>serve\<close>, is its
  interpretation.
\<close>

section \<open>One event\<close>

datatype target = Source | Mock

text \<open>A response with its status and, for the source, the \<open>createdAt\<close> of its body; or an exception
  (refused, reset or closed connection, timeout).\<close>

datatype outcome = Answer int "int option" | NoAnswer

record send_record =
  s_eventId :: string
  s_sellerId :: string
  s_plannedAt :: rat
  s_attempts :: nat
  s_sentAt :: rat
  s_createdAt :: "int option"
  s_status :: "int option"
  s_error :: bool
  s_doneAt :: rat

text \<open>What one attempt leaves in the record, and whether the loop stops: on 200, and on any 4xx, which
  is the target's decision. The source's 200 without a \<open>createdAt\<close> raises and counts as no answer.\<close>

fun digest :: "target \<Rightarrow> outcome \<Rightarrow> send_record \<Rightarrow> send_record \<times> bool" where
  "digest tg NoAnswer rec = (rec\<lparr>s_status := None, s_error := True\<rparr>, False)"
| "digest tg (Answer st created) rec =
     (if tg = Source \<and> st = 200 \<and> created = None then (rec\<lparr>s_status := None, s_error := True\<rparr>, False)
      else ((if tg = Source \<and> st = 200 then rec\<lparr>s_createdAt := created\<rparr> else rec)\<lparr>s_status := Some st\<rparr>,
            st = 200 \<or> 400 \<le> st \<and> st < 500))"

definition MAX_ATTEMPTS :: nat where
  "MAX_ATTEMPTS = 5"

fun send_loop :: "target \<Rightarrow> (nat \<Rightarrow> 's \<Rightarrow> 's \<times> outcome) \<Rightarrow> nat list \<Rightarrow> send_record \<Rightarrow> 's \<Rightarrow> 's \<times> send_record" where
  "send_loop tg post [] rec s = (s, rec)"
| "send_loop tg post (k # ks) rec s =
     (let (s', out) = post k s; (rec', stop) = digest tg out (rec\<lparr>s_attempts := k\<rparr>)
      in if stop then (s', rec') else send_loop tg post ks rec' s')"

definition start_record :: "rat \<Rightarrow> rat \<Rightarrow> event \<Rightarrow> send_record" where
  "start_record planned sent e =
     \<lparr>s_eventId = ev_eventId e, s_sellerId = ev_sellerId e, s_plannedAt = planned, s_attempts = 0,
      s_sentAt = sent, s_createdAt = None, s_status = None, s_error = False, s_doneAt = 0\<rparr>"

definition send :: "target \<Rightarrow> (nat \<Rightarrow> 's \<Rightarrow> 's \<times> outcome) \<Rightarrow> rat \<Rightarrow> rat \<Rightarrow> rat \<Rightarrow> event \<Rightarrow> 's \<Rightarrow> 's \<times> send_record" where
  "send tg post planned sent fin e s =
     (let (s', rec) = send_loop tg post [1 ..< MAX_ATTEMPTS + 1] (start_record planned sent e) s
      in (s', rec\<lparr>s_doneAt := fin\<rparr>))"

lemma send_value:
  "fst (send tg post planned sent fin e s) = fst (send_loop tg post [Suc 0 ..< Suc 0 + 5] (start_record planned sent e) s)"
  "s_status (snd (send tg post planned sent fin e s)) =
     s_status (snd (send_loop tg post [Suc 0 ..< Suc 0 + 5] (start_record planned sent e) s))"
  "s_attempts (snd (send tg post planned sent fin e s)) =
     s_attempts (snd (send_loop tg post [Suc 0 ..< Suc 0 + 5] (start_record planned sent e) s))"
  by (simp_all add: send_def MAX_ATTEMPTS_def case_prod_unfold Let_def del: upt_Suc)

section \<open>The summary\<close>

text \<open>\<open>late[int(len(late) * 0.99) - 1]\<close>: index \<open>-1\<close> is the last element.\<close>

definition late_p99 :: "rat list \<Rightarrow> rat option" where
  "late_p99 late =
     (if late = [] then None
      else (let i = \<lfloor>fl (of_nat (length late) * fl (99 / 100))\<rfloor> - 1
            in Some (py_round 2 (if i < 0 then last late else late ! nat i))))"

record load_summary =
  ls_events :: nat
  ls_failed :: nat
  ls_lateP99Ms :: "rat option"
  ls_lateMaxMs :: "rat option"

definition summarise :: "send_record list \<Rightarrow> load_summary" where
  "summarise recs =
     (let late = sort (map (\<lambda>r. fl (s_sentAt r - s_plannedAt r)) recs)
      in \<lparr>ls_events = length recs, ls_failed = length (filter (\<lambda>r. s_status r \<noteq> Some 200) recs),
          ls_lateP99Ms = late_p99 late,
          ls_lateMaxMs = (if late = [] then None else Some (py_round 2 (last late)))\<rparr>)"

definition load_lines :: "send_record list \<Rightarrow> send_record list" where
  "load_lines recs = sort_key s_plannedAt recs"

section \<open>The loop against any receiver\<close>

text \<open>Whether the loop sends again after an outcome.\<close>

definition retryable :: "target \<Rightarrow> outcome \<Rightarrow> bool" where
  "retryable tg out \<longleftrightarrow> (case out of NoAnswer \<Rightarrow> True
     | Answer st created \<Rightarrow> (tg = Source \<and> st = 200 \<and> created = None) \<or> \<not> (st = 200 \<or> 400 \<le> st \<and> st < 500))"

lemma digest_stop: "snd (digest tg out rec) \<longleftrightarrow> \<not> retryable tg out"
  by (cases out) (auto simp: retryable_def)

lemma digest_attempts [simp]: "s_attempts (fst (digest tg out rec)) = s_attempts rec"
  by (cases out) auto

lemma digest_status:
  "s_status (fst (digest tg out rec)) = Some st \<longleftrightarrow>
     (\<exists>c. out = Answer st c \<and> \<not> (tg = Source \<and> st = 200 \<and> c = None))"
  by (cases out) auto

locale exactly_once_api =
  fixes post :: "nat \<Rightarrow> 's \<Rightarrow> 's \<times> outcome"
    and ready :: "'s \<Rightarrow> bool"
    and effects_of :: "'s \<Rightarrow> nat"
  assumes post_ready: "ready s \<Longrightarrow> ready (fst (post k s))"
    and at_most_once: "ready s \<Longrightarrow> effects_of s \<le> 1"
    and never_undone: "ready s \<Longrightarrow> effects_of s \<le> effects_of (fst (post k s))"
    and ack_applied: "ready s \<Longrightarrow> snd (post k s) = Answer 200 c \<Longrightarrow> effects_of (fst (post k s)) = 1"
begin

lemma loop_ready: "ready s \<Longrightarrow> ready (fst (send_loop tg post ks rec s))"
  by (induction ks arbitrary: rec s) (auto simp: Let_def case_prod_unfold post_ready)

lemma loop_acknowledged:
  "ready s \<Longrightarrow> s_status rec \<noteq> Some 200 \<Longrightarrow> s_status (snd (send_loop tg post ks rec s)) = Some 200 \<Longrightarrow>
     effects_of (fst (send_loop tg post ks rec s)) = 1"
proof (induction ks arbitrary: rec s)
  case (Cons k ks)
  obtain s' out where p: "post k s = (s', out)" by fastforce
  let ?d = "digest tg out (rec\<lparr>s_attempts := k\<rparr>)"
  show ?case
  proof (cases "snd ?d")
    case True
    then have "s_status (fst ?d) = Some 200" using Cons.prems(3) p by (simp add: case_prod_unfold)
    then obtain c where "out = Answer 200 c" using digest_status [of tg out _ 200] by blast
    then have "effects_of s' = 1" using ack_applied [OF Cons.prems(1), of k c] p by simp
    then show ?thesis using p True by (simp add: case_prod_unfold)
  next
    case False
    have "s_status (fst ?d) \<noteq> Some 200" using False by (cases out) (auto split: if_splits)
    then show ?thesis using Cons.IH [of s' "fst ?d"] Cons.prems p False post_ready [OF Cons.prems(1), of k]
      by (simp add: case_prod_unfold)
  qed
qed simp

lemma send_exactly_once:
  assumes "ready s"
  shows "effects_of (fst (send tg post planned sent fin e s)) \<le> 1 \<and>
    (s_status (snd (send tg post planned sent fin e s)) = Some 200 \<longrightarrow>
       effects_of (fst (send tg post planned sent fin e s)) = 1)"
  unfolding send_value
  using at_most_once [OF loop_ready [OF assms]] loop_acknowledged [OF assms, of "start_record planned sent e"]
  by (simp add: start_record_def del: upt_Suc)

end

section \<open>The seller API mock as receiver\<close>

fun outcome_of :: "response \<Rightarrow> outcome" where
  "outcome_of (Reply st _ _ _) = Answer st None"
| "outcome_of BadKey = Answer 400 None"
| "outcome_of _ = NoAnswer"

text \<open>The request of \<open>target == 'mock'\<close>: the event with its planned time as \<open>occurredAt\<close>.\<close>

definition mock_request :: "rat \<Rightarrow> event \<Rightarrow> request" where
  "mock_request planned e =
     \<lparr>r_body = (body_of e)\<lparr>b_occurredAt := Some \<lfloor>planned\<rfloor>\<rparr>, r_key = Some (ev_eventId e), r_instance = Some ''load''\<rparr>"

record delivery =
  dl_controls :: controls
  dl_request :: request
  dl_seller :: string
  dl_key :: string
  dl_timing :: "nat \<Rightarrow> timing"
  dl_server :: server

definition mock_post :: "nat \<Rightarrow> delivery \<Rightarrow> delivery \<times> outcome" where
  "mock_post k d =
     (let (S, x) = serve (dl_controls d) (dl_timing d k) (dl_request d) (dl_server d)
      in (d\<lparr>dl_server := S\<rparr>, outcome_of x))"

definition dl_policy :: "delivery \<Rightarrow> policy" where
  "dl_policy d = policy_for (dl_controls d) (dl_seller d)"

definition dl_count :: "delivery \<Rightarrow> int" where
  "dl_count d = attempt_counts (mem (dl_server d)) (dl_key d)"

definition dl_rows :: "delivery \<Rightarrow> nat" where
  "dl_rows d = length (rows_of (dl_key d) (dl_server d))"

definition delivery_ready :: "delivery \<Rightarrow> bool" where
  "delivery_ready d \<longleftrightarrow> (\<forall>k. commits (dl_timing d k)) \<and> nap (dl_policy d) = None \<and>
     get_or True (p_idempotent (dl_policy d)) \<and> 0 \<le> dl_count d \<and>
     (due (dl_request d) (dl_seller d) (dl_key d) (dl_server d) \<and> dl_rows d = 0 \<or>
      applied (dl_request d) (dl_seller d) (dl_key d) (dl_server d) \<and> dl_rows d = 1 \<and> 0 < dl_count d \<and>
        get_or 0 (p_failureCount (dl_policy d)) \<le> dl_count d)"

lemma ready_serves:
  assumes "delivery_ready d"
  shows "commits (dl_timing d k)" "nap (policy_for (dl_controls d) (dl_seller d)) = None"
    "get_or True (p_idempotent (policy_for (dl_controls d) (dl_seller d)))"
  using assms by (auto simp: delivery_ready_def dl_policy_def)

text \<open>One POST, in the three situations an event can be in.\<close>

lemma post_refused:
  assumes "delivery_ready d" "due (dl_request d) (dl_seller d) (dl_key d) (dl_server d)"
    and "dl_count d < get_or 0 (p_failureCount (dl_policy d))"
  shows "\<exists>S. mock_post k d = (d\<lparr>dl_server := S\<rparr>, Answer 503 None) \<and> delivery_ready (d\<lparr>dl_server := S\<rparr>) \<and>
    due (dl_request d) (dl_seller d) (dl_key d) S \<and>
    dl_count (d\<lparr>dl_server := S\<rparr>) = dl_count d + 1 \<and> dl_rows (d\<lparr>dl_server := S\<rparr>) = dl_rows d"
proof -
  obtain S where "serve (dl_controls d) (dl_timing d k) (dl_request d) (dl_server d) = (S, Reply 503 (dl_key d) False False)"
      "due (dl_request d) (dl_seller d) (dl_key d) S"
      "attempt_counts (mem S) (dl_key d) = dl_count d + 1" "t_effects (db S) = t_effects (db (dl_server d))"
    using serve_refused [OF assms(2), of "dl_timing d k" "dl_controls d"] assms
    by (auto simp: delivery_ready_def dl_policy_def dl_count_def)
  moreover have "dl_rows d = 0" using assms(1,2) by (auto simp: delivery_ready_def due_def applied_def)
  ultimately show ?thesis using assms(1)
    by (intro exI [of _ S]) (auto simp: mock_post_def delivery_ready_def dl_policy_def dl_count_def dl_rows_def rows_of_def)
qed

lemma post_accepted:
  assumes "delivery_ready d" "due (dl_request d) (dl_seller d) (dl_key d) (dl_server d)"
    and "get_or 0 (p_failureCount (dl_policy d)) \<le> dl_count d"
  shows "\<exists>S. mock_post k d = (d\<lparr>dl_server := S\<rparr>,
      if get_or False (p_dropResponse (dl_policy d)) \<and> dl_count d = 0 then NoAnswer else Answer 200 None) \<and>
    delivery_ready (d\<lparr>dl_server := S\<rparr>) \<and> applied (dl_request d) (dl_seller d) (dl_key d) S \<and>
    dl_count (d\<lparr>dl_server := S\<rparr>) = dl_count d + 1 \<and> dl_rows (d\<lparr>dl_server := S\<rparr>) = 1"
proof -
  obtain S e where "serve (dl_controls d) (dl_timing d k) (dl_request d) (dl_server d) =
      (S, if get_or False (p_dropResponse (dl_policy d)) \<and> dl_count d = 0 then ConnectionDropped
          else Reply 200 (dl_key d) True False)"
      "applied (dl_request d) (dl_seller d) (dl_key d) S" "attempt_counts (mem S) (dl_key d) = dl_count d + 1"
      "t_effects (db S) = t_effects (db (dl_server d)) @ [e]" "er_event_id e = dl_key d"
    using serve_accepted [OF assms(2) ready_serves(1,2) [OF assms(1)] assms(3) [unfolded dl_policy_def dl_count_def]]
    unfolding dl_policy_def dl_count_def by blast
  moreover have "dl_rows d = 0" using assms(1,2) by (auto simp: delivery_ready_def due_def applied_def)
  ultimately show ?thesis using assms(1,3)
    by (intro exI [of _ S]) (auto simp: mock_post_def delivery_ready_def dl_policy_def dl_count_def dl_rows_def rows_of_def)
qed

lemma post_duplicate:
  assumes "delivery_ready d" "applied (dl_request d) (dl_seller d) (dl_key d) (dl_server d)"
  shows "\<exists>S. mock_post k d = (d\<lparr>dl_server := S\<rparr>, Answer 200 None) \<and> delivery_ready (d\<lparr>dl_server := S\<rparr>) \<and>
    applied (dl_request d) (dl_seller d) (dl_key d) S \<and> dl_rows d = 1 \<and> dl_rows (d\<lparr>dl_server := S\<rparr>) = 1"
proof -
  have d: "0 < dl_count d" "get_or 0 (p_failureCount (dl_policy d)) \<le> dl_count d" "dl_rows d = 1"
    using assms by (auto simp: delivery_ready_def due_def applied_def)
  obtain S where "serve (dl_controls d) (dl_timing d k) (dl_request d) (dl_server d) = (S, Reply 200 (dl_key d) True True)"
      "applied (dl_request d) (dl_seller d) (dl_key d) S"
      "attempt_counts (mem S) (dl_key d) = dl_count d + 1" "t_effects (db S) = t_effects (db (dl_server d))"
    using serve_duplicate [OF assms(2) ready_serves(1,2) [OF assms(1)] d(2) [unfolded dl_policy_def dl_count_def]
        ready_serves(3) [OF assms(1)] d(1) [unfolded dl_count_def]]
    unfolding dl_count_def by blast
  then show ?thesis using assms(1) d
    by (intro exI [of _ S]) (auto simp: mock_post_def delivery_ready_def dl_policy_def dl_count_def dl_rows_def rows_of_def)
qed

lemma ready_cases:
  assumes "delivery_ready d"
  obtains (refused) "due (dl_request d) (dl_seller d) (dl_key d) (dl_server d)"
      "dl_count d < get_or 0 (p_failureCount (dl_policy d))" "dl_rows d = 0"
    | (accepted) "due (dl_request d) (dl_seller d) (dl_key d) (dl_server d)"
      "get_or 0 (p_failureCount (dl_policy d)) \<le> dl_count d" "dl_rows d = 0"
    | (duplicate) "applied (dl_request d) (dl_seller d) (dl_key d) (dl_server d)" "dl_rows d = 1"
  using assms by (auto simp: delivery_ready_def) (meson not_le)

interpretation mock_api: exactly_once_api mock_post delivery_ready dl_rows
proof
  fix d k c
  assume r: "delivery_ready d"
  show "delivery_ready (fst (mock_post k d))" "dl_rows d \<le> 1" "dl_rows d \<le> dl_rows (fst (mock_post k d))"
    using r by (cases rule: ready_cases; use post_refused [OF r, of k] post_accepted [OF r, of k]
        post_duplicate [OF r, of k] in force)+
  assume a: "snd (mock_post k d) = Answer 200 c"
  show "dl_rows (fst (mock_post k d)) = 1"
    using r by (cases rule: ready_cases; use a post_refused [OF r, of k] post_accepted [OF r, of k]
        post_duplicate [OF r, of k] in force)
qed

lemma loop_until_accepted:
  assumes "delivery_ready d" "due (dl_request d) (dl_seller d) (dl_key d) (dl_server d)"
    and "dl_count d \<le> n" "n = get_or 0 (p_failureCount (dl_policy d))" "n - dl_count d < int m"
    and "\<not> get_or False (p_dropResponse (dl_policy d))"
  shows "s_status (snd (send_loop Mock mock_post [a ..< a + m] rec d)) = Some 200 \<and>
    int (s_attempts (snd (send_loop Mock mock_post [a ..< a + m] rec d))) = int a + (n - dl_count d)"
  using assms
proof (induction m arbitrary: a rec d)
  case (Suc m)
  have upt: "[a ..< a + Suc m] = a # [Suc a ..< Suc a + m]" by (simp add: upt_conv_Cons)
  show ?case
  proof (cases "dl_count d < n")
    case True
    obtain S where S: "mock_post a d = (d\<lparr>dl_server := S\<rparr>, Answer 503 None)" "delivery_ready (d\<lparr>dl_server := S\<rparr>)"
        "due (dl_request d) (dl_seller d) (dl_key d) S" "dl_count (d\<lparr>dl_server := S\<rparr>) = dl_count d + 1"
      using post_refused [OF Suc.prems(1,2), of a] True Suc.prems(4) by auto
    show ?thesis
      using Suc.IH [of "d\<lparr>dl_server := S\<rparr>" "Suc a"] S Suc.prems True
      unfolding upt by (simp add: dl_policy_def del: upt_Suc)
  next
    case False
    then obtain S where "mock_post a d = (d\<lparr>dl_server := S\<rparr>, Answer 200 None)"
      using post_accepted [OF Suc.prems(1,2), of a] Suc.prems(3,4,6) by auto
    then show ?thesis using False Suc.prems(3) unfolding upt by (simp del: upt_Suc)
  qed
qed simp

text \<open>The receiver after the first \<open>k\<close> attempts, if all were made.\<close>

fun after :: "(nat \<Rightarrow> 's \<Rightarrow> 's \<times> outcome) \<Rightarrow> nat \<Rightarrow> 's \<Rightarrow> 's" where
  "after post 0 s = s"
| "after post (Suc k) s = fst (post (Suc k) (after post k s))"

definition outcome_at :: "(nat \<Rightarrow> 's \<Rightarrow> 's \<times> outcome) \<Rightarrow> 's \<Rightarrow> nat \<Rightarrow> outcome" where
  "outcome_at post s k = snd (post k (after post (k - 1) s))"

lemma loop_trace:
  assumes "0 < m" "send_loop tg post [Suc a ..< Suc a + m] rec (after post a s) = (s', rec')" "n = s_attempts rec'"
  shows "a < n \<and> n \<le> a + m \<and> s' = after post n s \<and> (\<forall>k. a < k \<and> k < n \<longrightarrow> retryable tg (outcome_at post s k)) \<and>
    (n < a + m \<longrightarrow> \<not> retryable tg (outcome_at post s n))"
  using assms
proof (induction m arbitrary: a rec)
  case (Suc m)
  have upt: "[Suc a ..< Suc a + Suc m] = Suc a # [Suc (Suc a) ..< Suc (Suc a) + m]" by (simp add: upt_conv_Cons)
  let ?out = "outcome_at post s (Suc a)"
  have p: "post (Suc a) (after post a s) = (after post (Suc a) s, ?out)" by (simp add: outcome_at_def)
  let ?d = "digest tg ?out (rec\<lparr>s_attempts := Suc a\<rparr>)"
  have step: "(s', rec') = (if snd ?d then (after post (Suc a) s, fst ?d)
      else send_loop tg post [Suc (Suc a) ..< Suc (Suc a) + m] (fst ?d) (after post (Suc a) s))"
    using Suc.prems(2) unfolding upt send_loop.simps(2) p by (simp add: Let_def case_prod_unfold del: upt_Suc after.simps split: if_splits)
  show ?case
  proof (cases "snd ?d")
    case True
    then show ?thesis using step Suc.prems(3) by (auto simp: digest_stop)
  next
    case False
    show ?thesis
    proof (cases "m = 0")
      case True
      then show ?thesis using step False Suc.prems(3) by (auto simp: le_Suc_eq)
    next
      case m: False
      then have IH: "Suc a < n \<and> n \<le> Suc a + m \<and> s' = after post n s \<and>
          (\<forall>k. Suc a < k \<and> k < n \<longrightarrow> retryable tg (outcome_at post s k)) \<and>
          (n < Suc a + m \<longrightarrow> \<not> retryable tg (outcome_at post s n))"
        using Suc.IH [of "Suc a" "fst ?d"] step False Suc.prems(3) by (simp del: upt_Suc after.simps)
      have "retryable tg (outcome_at post s k)" if "a < k" "k < n" for k
        using IH that False digest_stop [of tg ?out] by (cases "k = Suc a") auto
      then show ?thesis using IH by simp
    qed
  qed
qed simp

section \<open>Sample delivery\<close>

definition flaky_delivery :: delivery where
  "flaky_delivery = \<lparr>dl_controls = [''slow'' \<mapsto> no_policy\<lparr>p_failureCount := Some 3\<rparr>],
     dl_request = sample_request ''e1'' 1, dl_seller = ''slow'', dl_key = ''e1'', dl_timing = (\<lambda>_. good_timing),
     dl_server = open_server empty_tables\<rparr>"

lemma flaky_ready: "delivery_ready flaky_delivery"
  using sample_due
  by (simp add: delivery_ready_def flaky_delivery_def dl_policy_def dl_count_def dl_rows_def rows_of_def
      policy_for_def nap_def no_policy_def open_server_def open_ledger_def empty_tables_def)

section \<open>Properties\<close>

text \<open>C9: Sending through failures and lost responses is exactly once, as long as the mock commits. Against a mock that
  serves the sender's requests one at a time, whose commits all succeed and whose policy for the seller is idempotent
  and of a valid delay, whatever number of failures that policy injects, a dropped response included, the sender's retries
  leave at most one effect of an event that was due or already applied once, and a record with status 200 means exactly
  one. (Without the commits a retry can be answered 200 with no committed effect.)\<close>

theorem send_to_mock_exactly_once:
  assumes "delivery_ready d"
  shows "dl_rows (fst (send Mock mock_post planned sent fin e d)) \<le> 1 \<and>
    (s_status (snd (send Mock mock_post planned sent fin e d)) = Some 200 \<longrightarrow>
       dl_rows (fst (send Mock mock_post planned sent fin e d)) = 1)"
  by (rule mock_api.send_exactly_once [OF assms])

definition sample_send :: "delivery \<times> send_record" where
  "sample_send = send Mock mock_post 1 1 2 (sample_event ''e1'' 1 ''CREATE'') flaky_delivery"

theorem send_to_mock_exactly_once_witness:
  "s_status (snd sample_send) = Some 200 \<and> dl_rows (fst sample_send) = 1"
proof -
  have "s_status (snd sample_send) = Some 200" by code_simp
  then show ?thesis
    using send_to_mock_exactly_once [OF flaky_ready, of 1 1 2 "sample_event ''e1'' 1 ''CREATE''"]
    by (simp add: sample_send_def)
qed

text \<open>C19: Five attempts are enough for four failures: a due event against a seller that fails
  \<open>n \<le> 4\<close> times and drops no response ends with status 200 on attempt \<open>n + 1\<close>.\<close>

theorem send_to_mock_succeeds:
  assumes "delivery_ready d" "due (dl_request d) (dl_seller d) (dl_key d) (dl_server d)" "dl_count d = 0"
    and "get_or 0 (p_failureCount (dl_policy d)) = int n" "n \<le> 4" "\<not> get_or False (p_dropResponse (dl_policy d))"
  shows "s_status (snd (send Mock mock_post planned sent fin e d)) = Some 200 \<and>
    s_attempts (snd (send Mock mock_post planned sent fin e d)) = n + 1"
proof -
  let ?r = "snd (send_loop Mock mock_post [Suc 0 ..< Suc 0 + 5] (start_record planned sent e) d)"
  have r: "s_status ?r = Some 200 \<and> int (s_attempts ?r) = int (Suc 0) + (int n - dl_count d)"
    by (rule loop_until_accepted [OF assms(1,2)]) (use assms(3-6) in simp_all)
  then have "s_attempts ?r = n + 1" using assms(3) by linarith
  then show ?thesis unfolding send_value using r by (intro conjI) (rule conjunct1)
qed

theorem send_to_mock_succeeds_witness: "s_attempts (snd sample_send) = 4"
proof -
  have due: "due (dl_request flaky_delivery) (dl_seller flaky_delivery) (dl_key flaky_delivery) (dl_server flaky_delivery)"
    using sample_due by (simp add: flaky_delivery_def)
  have h: "dl_count flaky_delivery = 0" "get_or 0 (p_failureCount (dl_policy flaky_delivery)) = int 3"
      "(3 :: nat) \<le> 4" "\<not> get_or False (p_dropResponse (dl_policy flaky_delivery))"
    by code_simp+
  have "s_attempts (snd sample_send) = 3 + 1"
    unfolding sample_send_def using send_to_mock_succeeds [OF flaky_ready due h] by blast
  then show ?thesis by simp
qed

text \<open>The sender's loop against any receiver makes between one and five attempts, resends exactly
  after the outcomes that settle nothing (no answer, or a status other than 200 and 4xx), and stops
  early only at an outcome that settles the event: a 4xx refusal is never followed by a resend.\<close>

lemma sender_attempts:
  assumes "send tg post planned sent fin e s = (s', rec)" "n = s_attempts rec"
  shows "1 \<le> n \<and> n \<le> 5 \<and> s' = after post n s \<and>
    (\<forall>k. 1 \<le> k \<and> k < n \<longrightarrow> retryable tg (outcome_at post s k)) \<and>
    (n < 5 \<longrightarrow> \<not> retryable tg (outcome_at post s n))"
proof -
  have v: "s' = fst (send tg post planned sent fin e s)" "n = s_attempts (snd (send tg post planned sent fin e s))"
    using assms by simp_all
  have "send_loop tg post [Suc 0 ..< Suc 0 + 5] (start_record planned sent e) (after post 0 s) =
      (s', snd (send_loop tg post [Suc 0 ..< Suc 0 + 5] (start_record planned sent e) s))"
    using v(1) by (simp add: send_value prod_eq_iff del: upt_Suc)
  from loop_trace [OF _ this, of n] show ?thesis using v(2) by (simp add: send_value Suc_le_eq del: upt_Suc)
qed

lemma sender_attempts_witness:
  "retryable Mock (outcome_at mock_post flaky_delivery 2) \<and> \<not> retryable Mock (outcome_at mock_post flaky_delivery 4)"
proof -
  have a: "s_attempts (snd sample_send) = 4" by code_simp
  have s: "send Mock mock_post 1 1 2 (sample_event ''e1'' 1 ''CREATE'') flaky_delivery = (fst sample_send, snd sample_send)"
    by (simp add: sample_send_def)
  show ?thesis using sender_attempts [OF s a [symmetric]] by auto
qed

end
