(* ===== verification/Workload.thy ===== *)
theory Workload
  imports Run_Verdicts "HOL-Library.Word"
begin

unbundle bit_operations_syntax

text \<open>
  The planned workload of a run, \<open>experiments/isolation/trace.py\<close>: routing keys (with zlib's
  CRC-32), padding to a fixed JSON size, the Poisson schedule of orders and the phase bounds. The
  random streams are arguments: \<open>draws\<close> are the values of \<open>arrivals.expovariate\<close> in the order
  they are drawn, \<open>picks\<close> hold for each order the value of \<open>sellers.random()\<close> and the index that
  \<open>sellers.choice\<close> would take; \<open>uuid\<close> is \<open>uuid5\<close> in the URL namespace. A schedule whose streams
  run out before the last phase ends is \<open>None\<close>.
\<close>

section \<open>Decimal text and JSON\<close>

fun show_nat :: "nat \<Rightarrow> string" where
  "show_nat n = (if n < 10 then [char_of (48 + n)] else show_nat (n div 10) @ [char_of (48 + n mod 10)])"

declare show_nat.simps [simp del]

definition show_int :: "int \<Rightarrow> string" where
  "show_int i = (if i < 0 then ''-'' @ show_nat (nat (- i)) else show_nat (nat i))"

definition hex_digit :: "nat \<Rightarrow> char" where
  "hex_digit n = char_of (if n < 10 then 48 + n else 87 + n)"

text \<open>\<open>json.dumps\<close> escapes everything outside the printable ASCII characters.\<close>

definition json_char :: "char \<Rightarrow> string" where
  "json_char c =
     (let n = of_char c :: nat; bs = char_of (92 :: nat)
      in if n = 34 then [bs, c] else if n = 92 then [bs, bs]
         else if n = 10 then bs # ''n'' else if n = 13 then bs # ''r'' else if n = 9 then bs # ''t''
         else if n = 12 then bs # ''f'' else if n = 8 then bs # ''b''
         else if 32 \<le> n \<and> n \<le> 126 then [c]
         else bs # ''u00'' @ [hex_digit (n div 16), hex_digit (n mod 16)])"

definition json_string :: "string \<Rightarrow> string" where
  "json_string s = (let q = char_of (34 :: nat) in q # concat (map json_char s) @ [q])"

text \<open>\<open>repr\<close> of an integral float below \<open>1e16\<close>, which every price of the trace is.\<close>

definition json_float :: "rat \<Rightarrow> string" where
  "json_float x = show_int \<lfloor>x\<rfloor> @ ''.0''"

definition json_field :: "string \<Rightarrow> string \<Rightarrow> string" where
  "json_field k v = json_string k @ '':'' @ v"

fun join_with :: "string \<Rightarrow> string list \<Rightarrow> string" where
  "join_with sep [] = []"
| "join_with sep [x] = x"
| "join_with sep (x # xs) = x @ sep @ join_with sep xs"

definition json_event :: "event \<Rightarrow> string" where
  "json_event e = ''{'' @ join_with '',''
     [json_field ''eventId'' (json_string (ev_eventId e)), json_field ''runId'' (json_string (ev_runId e)),
      json_field ''sellerId'' (json_string (ev_sellerId e)), json_field ''orderId'' (show_int (ev_orderId e)),
      json_field ''sequence'' (show_int (ev_sequence e)), json_field ''operation'' (json_string (ev_operation e)),
      json_field ''occurredAt'' (show_int (ev_occurredAt e)), json_field ''schemaVersion'' (show_int (ev_schemaVersion e)),
      json_field ''quantity'' (show_int (ev_quantity e)), json_field ''price'' (json_float (ev_price e)),
      json_field ''padding'' (json_string (get_or [] (ev_padding e)))] @ ''}''"

section \<open>Routing keys\<close>

definition crc_step :: "32 word \<Rightarrow> 32 word" where
  "crc_step c = (if bit c 0 then drop_bit 1 c XOR 0xEDB88320 else drop_bit 1 c)"

definition crc_byte :: "32 word \<Rightarrow> char \<Rightarrow> 32 word" where
  "crc_byte c b = (crc_step ^^ 8) (c XOR word_of_nat (of_char b))"

definition crc32 :: "string \<Rightarrow> 32 word" where
  "crc32 s = NOT (foldl crc_byte (NOT 0) s)"

datatype routing = ByOrder | ByBucket

definition routing_key :: "routing \<Rightarrow> string \<Rightarrow> int \<Rightarrow> nat \<Rightarrow> string" where
  "routing_key p seller oid buckets =
     (case p of
        ByBucket \<Rightarrow> seller @ '':'' @ show_int (uint (crc32 (show_int oid)) mod int buckets)
      | ByOrder \<Rightarrow> seller @ '':'' @ show_int oid)"

section \<open>Padding\<close>

definition EVENT_BYTES :: nat where
  "EVENT_BYTES = 1024"

definition padded :: "event \<Rightarrow> event" where
  "padded e =
     (let size = length (json_event (e\<lparr>ev_padding := Some []\<rparr>))
      in e\<lparr>ev_padding := Some (replicate (EVENT_BYTES - size) (CHR ''x''))\<rparr>)"

section \<open>The schedule\<close>

definition BIG_SELLER :: string where
  "BIG_SELLER = ''slow''"

definition OTHER_SELLERS :: "string list" where
  "OTHER_SELLERS = map (\<lambda>i. ''s'' @ (if i < 10 then ''0'' else []) @ show_nat i) [1 ..< 20]"

definition OFFSETS_MS :: "int list" where
  "OFFSETS_MS = [0, 2000, 5000]"

definition OPERATIONS :: "string list" where
  "OPERATIONS = [''CREATE'', ''CHANGE'', ''CANCEL'']"

type_synonym phase = "string \<times> rat \<times> rat"  \<comment> \<open>name, seconds, events per second\<close>
type_synonym pick = "rat \<times> nat"

definition pick_seller :: "rat \<Rightarrow> pick \<Rightarrow> string" where
  "pick_seller big_share p = (if fst p < big_share then BIG_SELLER else OTHER_SELLERS ! snd p)"

text \<open>The arrival times of one phase: draw, add, stop at the first time not before the end.\<close>

fun arrivals :: "rat \<Rightarrow> rat \<Rightarrow> rat list \<Rightarrow> (rat list \<times> rat list) option" where
  "arrivals t fin [] = None"
| "arrivals t fin (d # ds) =
     (let t' = fl (t + d)
      in if fin \<le> t' then Some ([], ds)
         else (case arrivals t' fin ds of None \<Rightarrow> None | Some (ts, rest) \<Rightarrow> Some (t' # ts, rest)))"

record build_params =
  bp_seed :: string
  bp_big_share :: rat
  bp_run_id :: string
  bp_uuid :: "string \<Rightarrow> string"

definition keep_last :: "nat \<Rightarrow> string \<Rightarrow> string" where
  "keep_last n s = drop (length s - n) s"

definition operation_of :: "build_params \<Rightarrow> string \<Rightarrow> rat \<Rightarrow> nat \<Rightarrow> string \<Rightarrow> nat \<Rightarrow> plan_entry" where
  "operation_of bp phase t oid seller sq =
     \<lparr>pe_offset = \<lfloor>fl (t * 1000)\<rfloor> + OFFSETS_MS ! (sq - 1), pe_phase = phase,
      pe_event = padded
        \<lparr>ev_eventId = bp_uuid bp (bp_seed bp @ ''/'' @ show_nat oid @ ''/'' @ show_nat sq),
         ev_runId = keep_last 64 (bp_run_id bp), ev_sellerId = seller, ev_orderId = int oid,
         ev_sequence = int sq, ev_operation = OPERATIONS ! (sq - 1), ev_occurredAt = 1, ev_schemaVersion = 1,
         ev_quantity = int sq + 1, ev_price = of_nat (100 + sq), ev_padding = None\<rparr>\<rparr>"

definition order_entries :: "build_params \<Rightarrow> string \<Rightarrow> rat \<Rightarrow> nat \<Rightarrow> string \<Rightarrow> plan_entry list" where
  "order_entries bp phase t oid seller = map (operation_of bp phase t oid seller) [1, 2, 3]"

fun orders_of :: "build_params \<Rightarrow> string \<Rightarrow> nat \<Rightarrow> rat list \<Rightarrow> pick list \<Rightarrow> (plan_entry list \<times> pick list) option" where
  "orders_of bp phase oid [] ps = Some ([], ps)"
| "orders_of bp phase oid (t # ts) [] = None"
| "orders_of bp phase oid (t # ts) (p # ps) =
     (case orders_of bp phase (Suc oid) ts ps of
        None \<Rightarrow> None
      | Some (es, rest) \<Rightarrow> Some (order_entries bp phase t oid (pick_seller (bp_big_share bp) p) @ es, rest))"

text \<open>Phase after phase: \<open>start\<close> and the last order ID used are carried along. A phase with a rate of
  0 draws nothing.\<close>

fun build_phases :: "build_params \<Rightarrow> phase list \<Rightarrow> rat \<Rightarrow> nat \<Rightarrow> rat list \<Rightarrow> pick list \<Rightarrow> plan_entry list option" where
  "build_phases bp [] start oid ds ps = Some []"
| "build_phases bp ((name, seconds, rate) # phs) start oid ds ps =
     (let fin = fl (start + seconds);
          drawn = (if 0 < fl (rate / 3) then arrivals start fin ds else Some ([], ds))
      in case drawn of
           None \<Rightarrow> None
         | Some (ts, ds') \<Rightarrow>
            (case orders_of bp name (Suc oid) ts ps of
               None \<Rightarrow> None
             | Some (es, ps') \<Rightarrow>
                (case build_phases bp phs fin (oid + length ts) ds' ps' of
                   None \<Rightarrow> None
                 | Some rest \<Rightarrow> Some (es @ rest))))"

definition plan_key :: "plan_entry \<Rightarrow> int \<times> int \<times> int" where
  "plan_key e = (pe_offset e, ev_orderId (pe_event e), ev_sequence (pe_event e))"

definition build :: "build_params \<Rightarrow> phase list \<Rightarrow> rat list \<Rightarrow> pick list \<Rightarrow> plan_entry list option" where
  "build bp phases ds ps =
     (case build_phases bp phases 0 0 ds ps of None \<Rightarrow> None | Some es \<Rightarrow> Some (sort_key plan_key es))"

text \<open>\<open>phase_bounds\<close>: each phase with where it starts and ends, in milliseconds.\<close>

fun bounds_from :: "rat \<Rightarrow> phase list \<Rightarrow> (string \<times> rat \<times> rat) list" where
  "bounds_from start [] = []"
| "bounds_from start ((name, seconds, _) # phs) =
     (name, fl (start * 1000), fl (fl (start + seconds) * 1000)) # bounds_from (fl (start + seconds)) phs"

definition phase_bounds :: "phase list \<Rightarrow> (string \<times> rat \<times> rat) list" where
  "phase_bounds phases = dict_of fst snd (bounds_from 0 phases)"

text \<open>The routing key that \<open>write\<close> adds to each line.\<close>

definition trace_lines :: "plan_entry list \<Rightarrow> routing \<Rightarrow> (plan_entry \<times> string) list" where
  "trace_lines es p = map (\<lambda>e. (e, routing_key p (ev_sellerId (pe_event e)) (ev_orderId (pe_event e)) 2)) es"

section \<open>Padding\<close>

lemma padded_fields [simp]:
  "ev_eventId (padded e) = ev_eventId e" "ev_sellerId (padded e) = ev_sellerId e" "ev_orderId (padded e) = ev_orderId e"
  "ev_sequence (padded e) = ev_sequence e" "ev_operation (padded e) = ev_operation e" "ev_quantity (padded e) = ev_quantity e"
  "ev_price (padded e) = ev_price e"
  by (simp_all add: padded_def Let_def)

lemma json_string_replicate: "length (json_string (replicate n (CHR ''x''))) = n + 2"
  by (induction n) (simp_all add: json_string_def json_char_def Let_def)

lemma json_padding_length:
  "length (json_event (e\<lparr>ev_padding := Some (replicate n (CHR ''x''))\<rparr>)) = length (json_event (e\<lparr>ev_padding := Some []\<rparr>)) + n"
  using json_string_replicate [of n] json_string_replicate [of 0] by (simp add: json_event_def json_field_def)

section \<open>Structure of a schedule\<close>

type_synonym block = "string \<times> rat \<times> string"  \<comment> \<open>phase, arrival, seller\<close>

definition entries_from :: "build_params \<Rightarrow> nat \<Rightarrow> block list \<Rightarrow> plan_entry list" where
  "entries_from bp n xs = concat (map (\<lambda>(i, ph, t, s). order_entries bp ph t i s) (enumerate n xs))"

lemma entries_from_simps [simp]:
  "entries_from bp n [] = []"
  "entries_from bp n (x # xs) = order_entries bp (fst x) (fst (snd x)) n (snd (snd x)) @ entries_from bp (Suc n) xs"
  by (simp_all add: entries_from_def case_prod_unfold)

lemma entries_from_append:
  "entries_from bp n (xs @ ys) = entries_from bp n xs @ entries_from bp (n + length xs) ys"
  by (simp add: entries_from_def enumerate_append_eq)

lemma orders_of_blocks:
  "orders_of bp ph oid ts ps = Some (es, rest) \<Longrightarrow>
     \<exists>xs. length xs = length ts \<and> es = entries_from bp oid xs \<and> (\<forall>x \<in> set xs. fst (snd x) \<in> set ts)"
proof (induction bp ph oid ts ps arbitrary: es rest rule: orders_of.induct)
  case (3 bp ph oid t ts p ps)
  then obtain es' where es: "orders_of bp ph (Suc oid) ts ps = Some (es', rest)"
      "es = order_entries bp ph t oid (pick_seller (bp_big_share bp) p) @ es'"
    by (auto split: option.splits)
  then obtain xs where "length xs = length ts" "es' = entries_from bp (Suc oid) xs" "\<forall>x \<in> set xs. fst (snd x) \<in> set ts"
    using 3 by blast
  then show ?case
    using es by (intro exI [of _ "(ph, t, pick_seller (bp_big_share bp) p) # xs"]) auto
qed auto

lemma arrivals_nonneg:
  "arrivals t fin ds = Some (ts, rest) \<Longrightarrow> 0 \<le> t \<Longrightarrow> \<forall>d \<in> set ds. 0 \<le> d \<Longrightarrow>
     (\<forall>x \<in> set ts. 0 \<le> x) \<and> set rest \<subseteq> set ds"
proof (induction t fin ds arbitrary: ts rest rule: arrivals.induct)
  case (2 t fin d ds)
  have t': "0 \<le> fl (t + d)" using 2 by (intro fl_nonneg) simp
  show ?case
  proof (cases "fin \<le> fl (t + d)")
    case False
    then obtain ts' where "arrivals (fl (t + d)) fin ds = Some (ts', rest)" "ts = fl (t + d) # ts'"
      using 2 by (auto simp: Let_def split: option.splits)
    then show ?thesis using 2 False t' by auto
  qed (use 2 in \<open>auto simp: Let_def\<close>)
qed simp

lemma build_phases_blocks:
  "build_phases bp phases start oid ds ps = Some es \<Longrightarrow> 0 \<le> start \<Longrightarrow> \<forall>p \<in> set phases. 0 \<le> fst (snd p) \<Longrightarrow>
     \<forall>d \<in> set ds. 0 \<le> d \<Longrightarrow> \<exists>xs. es = entries_from bp (Suc oid) xs \<and> (\<forall>x \<in> set xs. 0 \<le> fst (snd x))"
proof (induction bp phases start oid ds ps arbitrary: es rule: build_phases.induct)
  case (2 bp name seconds rate phs start oid ds ps)
  let ?fin = "fl (start + seconds)"
  obtain ts ds' es1 ps' es2 where
      ts: "(if 0 < fl (rate / 3) then arrivals start ?fin ds else Some ([], ds)) = Some (ts, ds')"
      and es1: "orders_of bp name (Suc oid) ts ps = Some (es1, ps')"
      and es2: "build_phases bp phs ?fin (oid + length ts) ds' ps' = Some es2" and es: "es = es1 @ es2"
    using "2.prems"(1) by (auto simp: Let_def split: option.splits)
  have ds': "(\<forall>x \<in> set ts. 0 \<le> x) \<and> set ds' \<subseteq> set ds"
    using ts arrivals_nonneg "2.prems"(2,4) by (auto split: if_splits)
  obtain xs where xs: "length xs = length ts" "es1 = entries_from bp (Suc oid) xs" "\<forall>x \<in> set xs. fst (snd x) \<in> set ts"
    using orders_of_blocks [OF es1] by blast
  have "\<forall>d \<in> set ds'. 0 \<le> d" using ds' "2.prems"(4) by blast
  moreover have "0 \<le> ?fin" using "2.prems"(2,3) by (intro fl_nonneg) simp
  ultimately obtain ys where "es2 = entries_from bp (Suc (oid + length ts)) ys" "\<forall>x \<in> set ys. 0 \<le> fst (snd x)"
    using "2.IH" [OF refl refl ts refl es1 refl es2] "2.prems"(3,4) ds' by auto
  then show ?case
    using es xs ds' by (intro exI [of _ "xs @ ys"]) (auto simp: entries_from_append)
qed (auto intro: exI [of _ "[]"])

lemma entry_fields:
  assumes "sq \<in> {1, 2, 3}"
  shows "ev_orderId (pe_event (operation_of bp ph t oid s sq)) = int oid"
    "ev_sequence (pe_event (operation_of bp ph t oid s sq)) = int sq"
    "ev_sellerId (pe_event (operation_of bp ph t oid s sq)) = s"
    "ev_operation (pe_event (operation_of bp ph t oid s sq)) = OPERATIONS ! (sq - 1)"
    "pe_phase (operation_of bp ph t oid s sq) = ph"
    "pe_offset (operation_of bp ph t oid s sq) = \<lfloor>fl (t * 1000)\<rfloor> + OFFSETS_MS ! (sq - 1)"
  by (simp_all add: operation_of_def)

lemma set_entries_from:
  "e \<in> set (entries_from bp n xs) \<longleftrightarrow> (\<exists>i sq. i < length xs \<and> sq \<in> {1, 2, 3} \<and>
     e = operation_of bp (fst (xs ! i)) (fst (snd (xs ! i))) (n + i) (snd (snd (xs ! i))) sq)"
proof
  assume "e \<in> set (entries_from bp n xs)"
  then obtain j ph t s where "(j, ph, t, s) \<in> set (enumerate n xs)" "e \<in> set (order_entries bp ph t j s)"
    by (auto simp: entries_from_def)
  moreover from this obtain sq where "sq \<in> {1, 2, 3}" "e = operation_of bp ph t j s sq"
    by (auto simp: order_entries_def)
  ultimately have "j - n < length xs \<and> sq \<in> {1, 2, 3} \<and>
      e = operation_of bp (fst (xs ! (j - n))) (fst (snd (xs ! (j - n)))) (n + (j - n)) (snd (snd (xs ! (j - n)))) sq"
    by (auto simp: in_set_enumerate_eq)
  then show "\<exists>i sq. i < length xs \<and> sq \<in> {1, 2, 3} \<and>
      e = operation_of bp (fst (xs ! i)) (fst (snd (xs ! i))) (n + i) (snd (snd (xs ! i))) sq"
    by blast
next
  assume "\<exists>i sq. i < length xs \<and> sq \<in> {1, 2, 3} \<and>
      e = operation_of bp (fst (xs ! i)) (fst (snd (xs ! i))) (n + i) (snd (snd (xs ! i))) sq"
  then obtain i where "(n + i, xs ! i) \<in> set (enumerate n xs)"
      "e \<in> set (order_entries bp (fst (xs ! i)) (fst (snd (xs ! i))) (n + i) (snd (snd (xs ! i))))"
    by (auto simp: in_set_enumerate_eq order_entries_def)
  then show "e \<in> set (entries_from bp n xs)" by (force simp: entries_from_def case_prod_unfold)
qed

lemma same_order_entries:
  assumes "e \<in> set (entries_from bp n xs)" "e' \<in> set (entries_from bp n xs)"
    and "ev_orderId (pe_event e) = ev_orderId (pe_event e')"
  shows "ev_sellerId (pe_event e) = ev_sellerId (pe_event e')" "pe_phase e = pe_phase e'"
    "pe_offset e - OFFSETS_MS ! nat (ev_sequence (pe_event e) - 1) =
       pe_offset e' - OFFSETS_MS ! nat (ev_sequence (pe_event e') - 1)"
proof -
  obtain i sq where i: "sq \<in> {1, 2, 3}"
      "e = operation_of bp (fst (xs ! i)) (fst (snd (xs ! i))) (n + i) (snd (snd (xs ! i))) sq"
    using assms(1) unfolding set_entries_from by blast
  obtain j sq' where j: "sq' \<in> {1, 2, 3}"
      "e' = operation_of bp (fst (xs ! j)) (fst (snd (xs ! j))) (n + j) (snd (snd (xs ! j))) sq'"
    using assms(2) unfolding set_entries_from by blast
  have "i = j" using assms(3) by (simp add: i(2) j(2) entry_fields [OF i(1)] entry_fields [OF j(1)])
  moreover have "nat (int k - 1) = k - 1" for k by simp
  ultimately show "ev_sellerId (pe_event e) = ev_sellerId (pe_event e')" "pe_phase e = pe_phase e'"
    "pe_offset e - OFFSETS_MS ! nat (ev_sequence (pe_event e) - 1) =
       pe_offset e' - OFFSETS_MS ! nat (ev_sequence (pe_event e') - 1)"
    by (simp_all add: i(2) j(2) entry_fields [OF i(1)] entry_fields [OF j(1)])
qed

definition order_seq :: "plan_entry \<Rightarrow> int \<times> int" where
  "order_seq e = (ev_orderId (pe_event e), ev_sequence (pe_event e))"

lemma entries_order_seq:
  "map order_seq (entries_from bp n xs) = List.product (map int [n ..< n + length xs]) [1, 2, 3]"
proof (induction xs arbitrary: n)
  case (Cons x xs)
  have "[n ..< n + length (x # xs)] = n # [Suc n ..< Suc n + length xs]"
    by (simp add: upt_conv_Cons del: upt_Suc)
  then show ?case
    unfolding entries_from_simps map_append Cons.IH
    by (simp add: order_entries_def order_seq_def entry_fields del: upt_Suc)
qed simp

section \<open>Schedules that end\<close>

text \<open>Where each phase ends.\<close>

fun ends_from :: "rat \<Rightarrow> phase list \<Rightarrow> rat list" where
  "ends_from start [] = []"
| "ends_from start ((_, seconds, _) # phs) = fl (start + seconds) # ends_from (fl (start + seconds)) phs"

text \<open>A gap of twice the end of the phase closes it.\<close>

lemma arrivals_long:
  assumes "0 \<le> t" "\<forall>d \<in> set ds. 0 \<le> d" "0 < b" "2 * fin \<le> b" "list_ex (\<lambda>d. b \<le> d) ds"
  shows "\<exists>ts rest. arrivals t fin ds = Some (ts, rest) \<and> length ts + length rest < length ds \<and>
    set rest \<subseteq> set ds \<and> length (filter (\<lambda>d. b \<le> d) ds) \<le> length (filter (\<lambda>d. b \<le> d) rest) + 1"
  using assms(1,2,5)
proof (induction ds arbitrary: t)
  case (Cons d ds)
  have t': "0 \<le> fl (t + d)" using Cons.prems by (intro fl_nonneg) simp
  show ?case
  proof (cases "fin \<le> fl (t + d)")
    case True
    then show ?thesis by auto
  next
    case False
    have "\<not> b \<le> d"
    proof
      assume "b \<le> d"
      then have "2 * fin \<le> t + d" "0 < t + d" using assms(3,4) Cons.prems(1) by linarith+
      moreover from this(2) have "t + d \<le> 2 * fl (t + d)" by (rule fl_half)
      ultimately have "2 * fin \<le> 2 * fl (t + d)" by (meson order_trans)
      then have "fin \<le> fl (t + d)" by simp
      then show False using False by simp
    qed
    then obtain ts rest where "arrivals (fl (t + d)) fin ds = Some (ts, rest)" "length ts + length rest < length ds"
        "set rest \<subseteq> set ds" "length (filter (\<lambda>d. b \<le> d) ds) \<le> length (filter (\<lambda>d. b \<le> d) rest) + 1"
      using Cons.IH [OF t'] Cons.prems by auto
    then show ?thesis using False \<open>\<not> b \<le> d\<close> by (auto simp: Let_def)
  qed
qed simp

lemma orders_of_enough:
  "length ts \<le> length ps \<Longrightarrow> \<exists>es rest. orders_of bp ph oid ts ps = Some (es, rest) \<and> length rest = length ps - length ts"
proof (induction bp ph oid ts ps rule: orders_of.induct)
  case (3 bp ph oid t ts p ps)
  then show ?case by fastforce
qed auto

lemma build_phases_returns:
  assumes "0 < b"
  shows "0 \<le> start \<Longrightarrow> \<forall>p \<in> set phases. 0 \<le> fst (snd p) \<Longrightarrow> \<forall>d \<in> set ds. 0 \<le> d \<Longrightarrow>
    \<forall>x \<in> set (ends_from start phases). 2 * x \<le> b \<Longrightarrow> length phases \<le> length (filter (\<lambda>d. b \<le> d) ds) \<Longrightarrow>
    length ds \<le> length ps \<Longrightarrow> \<exists>es. build_phases bp phases start oid ds ps = Some es"
proof (induction phases arbitrary: start oid ds ps)
  case (Cons p phs)
  obtain name seconds rate where p: "p = (name, seconds, rate)" by (cases p)
  let ?fin = "fl (start + seconds)"
  have fin: "0 \<le> ?fin" using Cons.prems(1,2) p by (intro fl_nonneg) simp
  have "list_ex (\<lambda>d. b \<le> d) ds"
    using Cons.prems(5) by (metis (mono_tags, lifting) filter_False impossible_Cons length_Cons list.size(3) list_ex_iff not_less_eq_eq zero_le)
  then obtain ts rest where ts: "(if 0 < fl (rate / 3) then arrivals start ?fin ds else Some ([], ds)) = Some (ts, rest)"
      "length ts + length rest \<le> length ds" "set rest \<subseteq> set ds"
      "length (filter (\<lambda>d. b \<le> d) ds) \<le> length (filter (\<lambda>d. b \<le> d) rest) + 1"
    using arrivals_long [OF Cons.prems(1,3) assms, of ?fin] Cons.prems(4) p
    by (cases "0 < fl (rate / 3)") (auto intro: less_imp_le)
  obtain es1 ps' where es1: "orders_of bp name (Suc oid) ts ps = Some (es1, ps')" "length ps' = length ps - length ts"
    using orders_of_enough [of ts ps bp name "Suc oid"] ts(2) Cons.prems(6) by auto
  have "\<forall>d \<in> set rest. 0 \<le> d" "length rest \<le> length ps'" using ts(2,3) es1(2) Cons.prems(3,6) by auto
  then obtain es2 where "build_phases bp phs ?fin (oid + length ts) rest ps' = Some es2"
    using Cons.IH [of ?fin rest ps' "oid + length ts"] fin Cons.prems(2-6) p ts es1(2) by auto
  then show ?case using ts(1) es1(1) by (simp add: p Let_def)
qed simp

lemma build_blocks:
  assumes "build bp phases ds ps = Some es" "\<forall>p \<in> set phases. 0 \<le> fst (snd p)" "\<forall>d \<in> set ds. 0 \<le> d"
  obtains xs where "es = sort_key plan_key (entries_from bp 1 xs)" "\<forall>x \<in> set xs. 0 \<le> fst (snd x)"
proof -
  obtain es0 where "build_phases bp phases 0 0 ds ps = Some es0" "es = sort_key plan_key es0"
    using assms(1) by (auto simp: build_def split: option.splits)
  then show ?thesis using build_phases_blocks [of bp phases 0 0 ds ps es0] assms(2,3) that by auto
qed

lemma bounds_from_names: "map fst (bounds_from start phases) = map fst phases"
  by (induction start phases rule: bounds_from.induct) auto

lemma first_bound:
  assumes "phases \<noteq> []" "distinct (map fst phases)"
  shows "\<exists>name hi. (name, 0, hi) \<in> set (phase_bounds phases)"
proof -
  obtain name seconds rate phs where p: "phases = (name, seconds, rate) # phs"
    using assms(1) by (metis list.exhaust prod_cases3)
  let ?hi = "fl (fl (0 + seconds) * 1000)"
  have "(name, 0, ?hi) \<in> set (bounds_from 0 phases)" by (simp add: p)
  then have "map_of (phase_bounds phases) name = Some (0, ?hi)"
    using dict_of_distinct_lookup [of fst "bounds_from 0 phases" "(name, 0, ?hi)" snd] assms(2)
    by (simp add: phase_bounds_def bounds_from_names)
  then show ?thesis by (meson map_of_SomeD)
qed

section \<open>Properties\<close>

text \<open>Padding makes every event's JSON exactly \<open>EVENT_BYTES\<close> long, or leaves it at its own length
  when that is more, and changes no other field.\<close>

lemma padded_size:
  "length (json_event (padded e)) = max EVENT_BYTES (length (json_event (e\<lparr>ev_padding := Some []\<rparr>))) \<and>
   (padded e)\<lparr>ev_padding := ev_padding e\<rparr> = e"
  by (auto simp: padded_def Let_def json_padding_length)

text \<open>C20: A built trace is a complete, ordered plan: sorted by planned time, it has exactly the
  operations 1, 2, 3 (CREATE, CHANGE, CANCEL) of the orders \<open>1 .. N\<close>, each once; the operations of
  one order share their seller and phase, and CHANGE and CANCEL come 2 and 5 seconds after CREATE.\<close>

theorem build_well_formed:
  assumes "build bp phases ds ps = Some es" "\<forall>p \<in> set phases. 0 \<le> fst (snd p)" "\<forall>d \<in> set ds. 0 \<le> d"
  shows "sorted (map plan_key es) \<and> distinct (map order_seq es) \<and>
    (\<exists>n. set (map order_seq es) = {1 .. int n} \<times> {1, 2, 3}) \<and>
    (\<forall>e \<in> set es. ev_operation (pe_event e) = OPERATIONS ! nat (ev_sequence (pe_event e) - 1) \<and> 0 \<le> pe_offset e) \<and>
    (\<forall>e \<in> set es. \<forall>e' \<in> set es. ev_orderId (pe_event e) = ev_orderId (pe_event e') \<longrightarrow>
       ev_sellerId (pe_event e) = ev_sellerId (pe_event e') \<and> pe_phase e = pe_phase e' \<and>
       pe_offset e - OFFSETS_MS ! nat (ev_sequence (pe_event e) - 1) =
         pe_offset e' - OFFSETS_MS ! nat (ev_sequence (pe_event e') - 1))"
proof -
  obtain xs where xs: "es = sort_key plan_key (entries_from bp 1 xs)" "\<forall>x \<in> set xs. 0 \<le> fst (snd x)"
    using build_blocks [OF assms] by blast
  have m: "mset (map order_seq es) = mset (List.product (map int [1 ..< 1 + length xs]) [1, 2, 3])"
    by (metis entries_order_seq mset_map mset_sort xs(1))
  have "distinct (List.product (map int [1 ..< 1 + length xs]) [1, 2, 3 :: int])"
    by (intro distinct_product) (simp_all add: distinct_map)
  then have d: "distinct (map order_seq es)" using m by (metis mset_eq_imp_distinct_iff)
  have st: "set (map order_seq es) = {1 .. int (length xs)} \<times> {1, 2, 3}"
    using mset_eq_setD [OF m] image_int_atLeastLessThan [of 1 "1 + length xs"]
    by (auto simp: set_product simp del: upt_Suc)
  have e: "\<exists>i sq. i < length xs \<and> sq \<in> {1, 2, 3} \<and>
      e = operation_of bp (fst (xs ! i)) (fst (snd (xs ! i))) (1 + i) (snd (snd (xs ! i))) sq" if "e \<in> set es" for e
    using that set_entries_from [of e bp 1 xs] by (simp add: xs(1))
  have op: "ev_operation (pe_event e) = OPERATIONS ! nat (ev_sequence (pe_event e) - 1) \<and> 0 \<le> pe_offset e"
    if mem: "e \<in> set es" for e
  proof -
    obtain i sq where i: "i < length xs" "sq \<in> {1, 2, 3}"
        "e = operation_of bp (fst (xs ! i)) (fst (snd (xs ! i))) (1 + i) (snd (snd (xs ! i))) sq"
      using e [OF mem] by blast
    have "0 \<le> fl (fst (snd (xs ! i)) * 1000)" using xs(2) i(1) by (intro fl_nonneg) simp
    then show ?thesis using i by (auto simp: entry_fields OFFSETS_MS_def)
  qed
  have same: "ev_sellerId (pe_event e) = ev_sellerId (pe_event e') \<and> pe_phase e = pe_phase e' \<and>
      pe_offset e - OFFSETS_MS ! nat (ev_sequence (pe_event e) - 1) =
        pe_offset e' - OFFSETS_MS ! nat (ev_sequence (pe_event e') - 1)"
    if "e \<in> set es" "e' \<in> set es" "ev_orderId (pe_event e) = ev_orderId (pe_event e')" for e e'
    using same_order_entries [of e bp 1 xs e'] that by (simp add: xs(1))
  have srt: "sorted (map plan_key es)" by (simp add: xs(1))
  show ?thesis
    using srt d st op same by (intro conjI ballI impI exI [of _ "length xs"]; blast)
qed

definition sample_params :: build_params where
  "sample_params = \<lparr>bp_seed = ''1251'', bp_big_share = 1 / 5, bp_run_id = ''run'', bp_uuid = (\<lambda>s. s)\<rparr>"

definition sample_phases :: "phase list" where
  "sample_phases = [(''warmup'', 4, 3), (''fault'', 4, 3)]"

definition sample_draws :: "rat list" where
  "sample_draws = [1, 20, 1 / 2, 30]"

definition sample_picks :: "pick list" where
  "sample_picks = [(1 / 10, 0), (1 / 2, 3), (1 / 2, 4), (1 / 2, 5)]"

lemma sample_build_facts:
  "\<forall>p \<in> set sample_phases. 0 \<le> fst (snd p)" "\<forall>d \<in> set sample_draws. 0 \<le> d"
  "\<forall>x \<in> set (ends_from 0 sample_phases). 2 * x \<le> 20"
  "length sample_phases \<le> length (filter (\<lambda>d. 20 \<le> d) sample_draws)" "length sample_draws \<le> length sample_picks"
  by code_simp+

lemma sample_build: "\<exists>es. build sample_params sample_phases sample_draws sample_picks = Some es"
  using build_phases_returns [of 20 0 sample_phases sample_draws sample_picks sample_params 0] sample_build_facts
  by (auto simp: build_def)

theorem build_well_formed_witness:
  "\<exists>es n. build sample_params sample_phases sample_draws sample_picks = Some es \<and>
     set (map order_seq es) = {1 .. int n} \<times> {1, 2, 3}"
proof -
  obtain es where es: "build sample_params sample_phases sample_draws sample_picks = Some es"
    using sample_build by blast
  show ?thesis using build_well_formed [OF es sample_build_facts(1,2)] es by blast
qed

text \<open>Building returns. With non-negative gaps and durations, as many seller picks as gaps, and for
  each phase one gap of at least twice the end of the plan among the gaps drawn, every phase ends and
  the trace is built.\<close>

lemma build_returns:
  assumes "0 < b" "\<forall>p \<in> set phases. 0 \<le> fst (snd p)" "\<forall>d \<in> set ds. 0 \<le> d"
    and "\<forall>x \<in> set (ends_from 0 phases). 2 * x \<le> b" "length phases \<le> length (filter (\<lambda>d. b \<le> d) ds)"
    and "length ds \<le> length ps"
  shows "\<exists>es. build bp phases ds ps = Some es"
  using build_phases_returns [OF assms(1) _ assms(2-6), of bp 0] by (auto simp: build_def)

lemma build_returns_witness: "\<exists>es. build sample_params sample_phases sample_draws sample_picks = Some es"
  by (rule build_returns [of 20]) (use sample_build_facts in simp_all)

text \<open>The run checker can label every operation of a built trace: with the trace's own phase bounds
  and distinct phase names, relabelling raises nothing.\<close>

lemma built_trace_relabels:
  assumes "build bp phases ds ps = Some es" "\<forall>p \<in> set phases. 0 \<le> fst (snd p)" "\<forall>d \<in> set ds. 0 \<le> d"
    and "distinct (map fst phases)" "ru_phaseBounds r = Some (map (\<lambda>(name, lo, hi). (name, lo)) (phase_bounds phases))"
  shows "\<exists>es'. relabel r es = Inr es'"
proof (rule relabel_total, intro ballI allI impI)
  fix e pb assume e: "e \<in> set es" and pb: "ru_phaseBounds r = Some pb \<and> pb \<noteq> []"
  obtain xs where xs: "es = sort_key plan_key (entries_from bp 1 xs)" "\<forall>x \<in> set xs. 0 \<le> fst (snd x)"
    using build_blocks [OF assms(1-3)] by blast
  have "phases \<noteq> []" using pb assms(5) by (auto simp: phase_bounds_def dict_of_def)
  then obtain name hi where "(name, 0, hi) \<in> set (phase_bounds phases)" using first_bound [OF _ assms(4)] by blast
  then have "(name, 0) \<in> set pb" using pb assms(5) by force
  moreover obtain i sq where "i < length xs" "sq \<in> {1, 2, 3}"
      "e = operation_of bp (fst (xs ! i)) (fst (snd (xs ! i))) (1 + i) (snd (snd (xs ! i))) sq"
    using e set_entries_from [of e bp 1 xs] by (auto simp: xs(1))
  moreover from this have "0 \<le> fl (fst (snd (xs ! i)) * 1000)" using xs(2) by (intro fl_nonneg) simp
  ultimately have "0 \<le> pe_offset e" by (auto simp: entry_fields OFFSETS_MS_def)
  then show "\<exists>p \<in> set pb. snd p \<le> of_int (pe_offset e)" using \<open>(name, 0) \<in> set pb\<close> by force
qed

text \<open>Routing keeps an order together: in a built trace all operations of one order have the same
  routing key under either policy, and under the bucket policy a seller uses at most two keys.\<close>

lemma routing_keeps_orders_together:
  assumes "build bp phases ds ps = Some es" "\<forall>p \<in> set phases. 0 \<le> fst (snd p)" "\<forall>d \<in> set ds. 0 \<le> d"
  shows "(\<forall>x \<in> set (trace_lines es pol). \<forall>y \<in> set (trace_lines es pol).
       ev_orderId (pe_event (fst x)) = ev_orderId (pe_event (fst y)) \<longrightarrow> snd x = snd y) \<and>
    card {snd x | x. x \<in> set (trace_lines es ByBucket) \<and> ev_sellerId (pe_event (fst x)) = seller} \<le> 2"
proof -
  obtain xs where xs: "es = sort_key plan_key (entries_from bp 1 xs)"
    using build_blocks [OF assms] by blast
  have same: "ev_sellerId (pe_event e) = ev_sellerId (pe_event e')"
    if "e \<in> set es" "e' \<in> set es" "ev_orderId (pe_event e) = ev_orderId (pe_event e')" for e e'
    using same_order_entries(1) [of e bp 1 xs e'] that by (simp add: xs)
  have b: "uint w mod 2 = 0 \<or> uint w mod 2 = 1" for w :: "32 word" by auto
  have k: "routing_key ByBucket s oid 2 \<in> (\<lambda>i. s @ '':'' @ show_int i) ` {0, 1}" for s oid
    using b [of "crc32 (show_int oid)"] by (auto simp: routing_key_def)
  have "{snd x | x. x \<in> set (trace_lines es ByBucket) \<and> ev_sellerId (pe_event (fst x)) = seller} \<subseteq>
      (\<lambda>i. seller @ '':'' @ show_int i) ` {0, 1}"
  proof
    fix z assume "z \<in> {snd x | x. x \<in> set (trace_lines es ByBucket) \<and> ev_sellerId (pe_event (fst x)) = seller}"
    then obtain x where x: "x \<in> set (trace_lines es ByBucket)" "ev_sellerId (pe_event (fst x)) = seller" "z = snd x"
      by blast
    then have "z = routing_key ByBucket seller (ev_orderId (pe_event (fst x))) 2" by (auto simp: trace_lines_def)
    then show "z \<in> (\<lambda>i. seller @ '':'' @ show_int i) ` {0, 1}" using k by blast
  qed
  from card_mono [OF _ this] have "card {snd x | x. x \<in> set (trace_lines es ByBucket) \<and> ev_sellerId (pe_event (fst x)) = seller} \<le>
      card ((\<lambda>i. seller @ '':'' @ show_int i) ` {0, 1})" by simp
  also have "\<dots> \<le> card {0, 1 :: int}" by (rule card_image_le) simp
  finally have two: "card {snd x | x. x \<in> set (trace_lines es ByBucket) \<and> ev_sellerId (pe_event (fst x)) = seller} \<le> 2"
    by simp
  have "snd x = snd y" if xy: "x \<in> set (trace_lines es pol)" "y \<in> set (trace_lines es pol)"
      "ev_orderId (pe_event (fst x)) = ev_orderId (pe_event (fst y))" for x y
  proof -
    have "fst x \<in> set es" "snd x = routing_key pol (ev_sellerId (pe_event (fst x))) (ev_orderId (pe_event (fst x))) 2"
        "fst y \<in> set es" "snd y = routing_key pol (ev_sellerId (pe_event (fst y))) (ev_orderId (pe_event (fst y))) 2"
      using xy(1,2) by (auto simp: trace_lines_def)
    then show ?thesis using same [of "fst x" "fst y"] xy(3) by simp
  qed
  then show ?thesis using two by blast
qed

lemma built_trace_relabels_witness:
  "\<exists>es es'. build sample_params sample_phases sample_draws sample_picks = Some es \<and>
     relabel ((f_run sample_run)\<lparr>ru_phaseBounds := Some (map (\<lambda>(name, lo, hi). (name, lo)) (phase_bounds sample_phases))\<rparr>) es = Inr es'"
proof -
  obtain es where es: "build sample_params sample_phases sample_draws sample_picks = Some es"
    using sample_build by blast
  have d: "distinct (map fst sample_phases)" by (simp add: sample_phases_def)
  show ?thesis
    using built_trace_relabels [OF es sample_build_facts(1,2) d,
        of "(f_run sample_run)\<lparr>ru_phaseBounds := Some (map (\<lambda>(name, lo, hi). (name, lo)) (phase_bounds sample_phases))\<rparr>"] es
    by simp
qed

lemma routing_keeps_orders_together_witness:
  "\<exists>es. build sample_params sample_phases sample_draws sample_picks = Some es \<and>
     card {snd x | x. x \<in> set (trace_lines es ByBucket) \<and> ev_sellerId (pe_event (fst x)) = ''slow''} \<le> 2"
proof -
  obtain es where es: "build sample_params sample_phases sample_draws sample_picks = Some es"
    using sample_build by blast
  show ?thesis using routing_keeps_orders_together [OF es sample_build_facts(1,2)] es by blast
qed

end
