(* ===== verification/Budgets.thy ===== *)
theory Budgets
  imports Run_Checker
begin

text \<open>
  Two further readings of the seller mock's call history. \<open>experiments/verify_budgets.py\<close> judges a
  run's concurrency and retry budgets; \<open>experiments/ops_report.py\<close> reports the peak of concurrent
  calls per seller. Both sweep start and end points as \<open>isolation/check.py\<close> does; the point lists
  are shown equal to its own, so that the facts of the locale \<open>point_sweep\<close> of \<open>Intervals\<close>
  apply. They differ in what they take for the end of a call that has none. The set \<open>{'normal', 'slow'}\<close> that
  \<open>verify_budgets.py\<close> iterates over has no fixed order: the order is an argument.
\<close>

section \<open>verify\_budgets.py\<close>

record budget_trace =
  bt_stage :: "string option"
  bt_instance :: "string option"
  bt_eventId :: "string option"
  bt_time :: "int option"
  bt_sellerId :: "string option"
  bt_admittedAt :: "int option"

record run_settings =
  se_mode :: "string option"
  se_scenario :: "string option"

datatype budget_error =
    ConcurrentCalls string int
  | SameOrderOverlaps nat
  | CompletedConsumedRetry string
  | RetryAdmissions string nat
  | EvidenceMissing

type_synonym change = "int \<times> int \<times> int"  \<comment> \<open>time, delta, order\<close>

definition changes_of :: "attempt_row list \<Rightarrow> change list" where
  "changes_of rows = concat (map (\<lambda>r. [(ar_start_at r, 1, ar_order_id r),
     (or_else (ar_end_at r) (ar_start_at r), -1, ar_order_id r)]) rows)"

definition sorted_changes :: "change list \<Rightarrow> change list" where
  "sorted_changes cs = sort_key (\<lambda>c. (fst c, fst (snd c))) cs"

fun active_peak :: "int \<Rightarrow> int \<Rightarrow> change list \<Rightarrow> int" where
  "active_peak current peak [] = peak"
| "active_peak current peak ((_, delta, _) # cs) =
     active_peak (current + delta) (max peak (current + delta)) cs"

definition external_peak :: "attempt_row list \<Rightarrow> int" where
  "external_peak rows = active_peak 0 0 (sorted_changes (changes_of rows))"

definition requests_of :: "string \<Rightarrow> attempt_row list \<Rightarrow> attempt_row list" where
  "requests_of seller attempts = filter (\<lambda>a. ar_seller_id a = seller) attempts"

definition starts_within :: "attempt_row \<Rightarrow> attempt_row \<Rightarrow> bool" where
  "starts_within a b \<longleftrightarrow> ar_start_at a < ar_start_at b \<and> ar_start_at b < or_else (ar_end_at a) 0"

definition parallel_orders :: "attempt_row list \<Rightarrow> bool" where
  "parallel_orders rows \<longleftrightarrow>
     list_ex (\<lambda>a. list_ex (\<lambda>b. ar_order_id a \<noteq> ar_order_id b \<and> starts_within a b) rows) rows"

definition same_order_overlaps :: "attempt_row list \<Rightarrow> nat" where
  "same_order_overlaps rows = length (filter (\<lambda>(a, b). ar_order_id a = ar_order_id b \<and>
     ar_event_id a \<noteq> ar_event_id b \<and> starts_within a b) (List.product rows rows))"

definition concurrency_errors :: "string list \<Rightarrow> attempt_row list \<Rightarrow> budget_error list" where
  "concurrency_errors sellers attempts = concat (map (\<lambda>s.
     let peak = external_peak (requests_of s attempts)
     in if 2 < peak then [ConcurrentCalls s peak] else []) sellers)"

definition all_overlaps :: "string list \<Rightarrow> attempt_row list \<Rightarrow> nat" where
  "all_overlaps sellers attempts = sum_list (map (\<lambda>s. same_order_overlaps (requests_of s attempts)) sellers)"

text \<open>The walk over the trace: the commits seen so far, by instance and event.\<close>

type_synonym trace_key = "string option \<times> string option"

fun commit_errors ::
    "string option \<Rightarrow> (trace_key \<times> int) list \<Rightarrow> budget_trace list \<Rightarrow> budget_error list result" where
  "commit_errors mode committed [] = Inr []"
| "commit_errors mode committed (t # ts) =
     bindR (need ''stage'' (bt_stage t)) (\<lambda>stage.
     bindR (if stage = ''business_commit''
            then bindR (need ''time'' (bt_time t)) (\<lambda>x. Inr (AList.update (bt_instance t, bt_eventId t) x committed))
            else Inr committed) (\<lambda>committed'.
     if mode = Some ''inbox'' \<and> stage = ''retry_admitted'' \<and>
        map_of committed' (bt_instance t, bt_eventId t) \<noteq> None
     then bindR (need ''eventId'' (bt_eventId t)) (\<lambda>e.
          bindR (commit_errors mode committed' ts) (\<lambda>es. Inr (CompletedConsumedRetry e # es)))
     else commit_errors mode committed' ts))"

definition admissions :: "budget_trace list \<Rightarrow> (string \<times> int) list result" where
  "admissions traces = mapR (\<lambda>t. bindR (need ''sellerId'' (bt_sellerId t)) (\<lambda>s.
     bindR (need ''admittedAt'' (bt_admittedAt t)) (\<lambda>a. Inr (s, a))))
     (filter (\<lambda>t. bt_stage t = Some ''retry_admitted'') traces)"

definition admitted_in_second :: "int list \<Rightarrow> int \<Rightarrow> nat" where
  "admitted_in_second values v = length (filter (\<lambda>x. v - 1000 < x \<and> x \<le> v) values)"

definition retry_errors :: "(string \<times> int list) list \<Rightarrow> budget_error list" where
  "retry_errors starts = concat (map (\<lambda>(s, vs). concat (map (\<lambda>v.
     let n = admitted_in_second (sort vs) v in if 2 < n then [RetryAdmissions s n] else []) (sort vs))) starts)"

definition evidence_errors :: "run_settings \<Rightarrow> (string \<times> int list) list \<Rightarrow> budget_error list" where
  "evidence_errors st starts =
     (if se_mode st \<in> {Some ''async'', Some ''inbox''} \<and> se_scenario st \<in> {Some ''retry'', Some ''hotkey''} \<and>
         starts = [] then [EvidenceMissing] else [])"

record budget_check =
  bc_passed :: bool
  bc_errors :: "budget_error list"
  bc_peakExternalCalls :: "(string \<times> int) list"
  bc_differentOrdersOverlapped :: bool
  bc_sameOrderOverlaps :: nat
  bc_retryAdmissions :: "(string \<times> nat) list"
  bc_retryWindowMs :: nat
  bc_retryBudget :: nat
  bc_budgetTraceAvailable :: bool

definition verify_budgets ::
    "string list \<Rightarrow> run_settings \<Rightarrow> attempt_row list \<Rightarrow> budget_trace list \<Rightarrow> budget_check result" where
  "verify_budgets sellers st attempts traces =
     (let overlaps = all_overlaps sellers attempts
      in bindR (commit_errors (se_mode st) [] traces) (\<lambda>consumed.
         bindR (admissions traces) (\<lambda>adm.
           let starts = group_by fst snd adm;
               errs = concurrency_errors sellers attempts @
                 (if overlaps \<noteq> 0 then [SameOrderOverlaps overlaps] else []) @
                 consumed @ retry_errors starts @ evidence_errors st starts
           in Inr \<lparr>bc_passed = (errs = []), bc_errors = errs,
             bc_peakExternalCalls = map (\<lambda>s. (s, external_peak (requests_of s attempts))) sellers,
             bc_differentOrdersOverlapped = list_ex (\<lambda>s. parallel_orders (requests_of s attempts)) sellers,
             bc_sameOrderOverlaps = overlaps,
             bc_retryAdmissions = map (\<lambda>(s, vs). (s, length vs)) starts,
             bc_retryWindowMs = 1000, bc_retryBudget = 2, bc_budgetTraceAvailable = (starts \<noteq> [])\<rparr>)))"

section \<open>ops\_report.py\<close>

definition peak_per_seller :: "attempt_row list \<Rightarrow> (string \<times> int) list" where
  "peak_per_seller attempts =
     map (\<lambda>(s, cs). (s, sweep_peak 0 0 (sort (concat cs))))
       (group_by ar_seller_id (\<lambda>r. [(ar_start_at r, 1), (or_else (ar_end_at r) (ar_start_at r), -1)]) attempts)"

section \<open>The sweeps\<close>

text \<open>The interval both scripts give a call: a call without an end is empty.\<close>

definition closed_interval :: "attempt_row \<Rightarrow> interval" where
  "closed_interval r = (ar_start_at r, or_else (ar_end_at r) (ar_start_at r))"

lemma active_peak_sweep: "active_peak c p cs = sweep_peak c p (map (\<lambda>x. (fst x, fst (snd x))) cs)"
  by (induction cs arbitrary: c p) auto

lemma sorted_points_unique: "mset ps = mset qs \<Longrightarrow> sorted ps \<Longrightarrow> sorted qs \<Longrightarrow> ps = qs" for ps qs :: "point list"
  by (metis properties_for_sort sort_key_id_if_sorted)

lemma external_peak_overlap: "external_peak rows = max_overlap (map closed_interval rows)"
proof -
  have "map (\<lambda>c. (fst c, fst (snd c))) (sorted_changes (changes_of rows)) =
      overlap_points (map closed_interval rows)"
  proof (rule sorted_points_unique)
    have "map (\<lambda>c. (fst c, fst (snd c))) (changes_of rows) =
        concat (map (\<lambda>(s, e). [(s, 1), (e, -1)]) (map closed_interval rows))"
      by (induction rows) (auto simp: changes_of_def closed_interval_def)
    then show "mset (map (\<lambda>c. (fst c, fst (snd c))) (sorted_changes (changes_of rows))) =
        mset (overlap_points (map closed_interval rows))"
      unfolding overlap_points_def mset_sort sorted_changes_def mset_map by (metis mset_map)
  qed (simp_all add: sorted_changes_def check_overlap.points_sorted)
  then show ?thesis by (simp add: external_peak_def active_peak_sweep max_overlap_def)
qed

lemma peak_per_seller_overlap:
  "peak_per_seller attempts = peaks (group_by ar_seller_id closed_interval attempts)"
proof -
  let ?pts = "\<lambda>r. [(ar_start_at r, 1), (or_else (ar_end_at r) (ar_start_at r), -1)]"
  have pt: "map ?pts rows = map (\<lambda>(s, e). [(s, 1), (e, -1)]) (map closed_interval rows)" for rows
    by (simp add: closed_interval_def)
  have g: "group_by ar_seller_id h attempts = map (\<lambda>(k, rows). (k, map h rows)) (group_by ar_seller_id id attempts)"
    for h :: "attempt_row \<Rightarrow> 'a"
    using group_by_map [of ar_seller_id h id attempts] by simp
  show ?thesis
    unfolding peak_per_seller_def peaks_def g [of ?pts] g [of closed_interval] map_map
    by (intro map_cong refl) (auto simp: max_overlap_def overlap_points_def pt simp del: map_map)
qed

lemma closed_is_call:
  assumes "truthy (ar_end_at a)" shows "closed_interval a = call_interval eoo a"
  using assms by (auto simp: closed_interval_def call_interval_def or_else_def truthy_def split: option.splits)

lemma peak_unique:
  assumes "forward ivs" "forward ivs'" "\<And>t. open_at ivs t = open_at ivs' t"
  shows "max_overlap ivs = max_overlap ivs'"
proof -
  have pos: "0 \<le> max_overlap xs" for xs by (simp add: max_overlap_def sweep_peak_keeps)
  have "max_overlap ivs \<le> b \<longleftrightarrow> max_overlap ivs' \<le> b" if "0 \<le> b" for b
    using that max_overlap_le_iff [OF assms(1)] max_overlap_le_iff [OF assms(2)] assms(3) by simp
  then show ?thesis using pos by (meson order_antisym order_refl)
qed

lemma external_peak_le_iff:
  assumes "\<forall>a \<in> set rows. ar_start_at a \<le> or_else (ar_end_at a) (ar_start_at a)" "0 \<le> b"
  shows "external_peak rows \<le> b \<longleftrightarrow> (\<forall>t. open_at (map closed_interval rows) t \<le> b)"
  unfolding external_peak_overlap
  using assms by (intro max_overlap_le_iff) (auto simp: forward_def list_all_iff closed_interval_def)

section \<open>The admissions of a second\<close>

text \<open>Looking back one second from every admission is enough: the fullest window of 1000 ms,
  wherever it starts, is seen from its last admission.\<close>

lemma windows_from_admissions:
  "(\<forall>v \<in> set vs. admitted_in_second vs v \<le> n) \<longleftrightarrow>
     (\<forall>u. length (filter (\<lambda>x. u \<le> x \<and> x < u + 1000) vs) \<le> n)" (is "?seen \<longleftrightarrow> ?all")
proof
  assume seen: ?seen
  show ?all
  proof
    fix u
    let ?w = "filter (\<lambda>x. u \<le> x \<and> x < u + 1000) vs"
    show "length ?w \<le> n"
    proof (cases "?w = []")
      case False
      define v where "v = Max (set ?w)"
      have v: "v \<in> set ?w" unfolding v_def using False by (metis List.finite_set Max_in set_empty)
      have "length ?w \<le> admitted_in_second vs v"
        unfolding admitted_in_second_def
      proof (rule length_filter_mono)
        fix x assume "x \<in> set vs" "u \<le> x \<and> x < u + 1000"
        moreover from this have "x \<le> v" unfolding v_def by (intro Max_ge) auto
        ultimately show "v - 1000 < x \<and> x \<le> v" using v by auto
      qed
      with seen v show ?thesis by fastforce
    qed simp
  qed
next
  assume all: ?all
  show ?seen
  proof
    fix v
    have "filter (\<lambda>x. v - 1000 < x \<and> x \<le> v) vs = filter (\<lambda>x. v - 999 \<le> x \<and> x < v - 999 + 1000) vs"
      by (intro filter_cong) auto
    then show "admitted_in_second vs v \<le> n" using all [rule_format, of "v - 999"] by (simp add: admitted_in_second_def)
  qed
qed

lemma admitted_sort: "admitted_in_second (sort vs) v = admitted_in_second vs v"
  by (simp add: admitted_in_second_def filter_sort_length)

lemma retry_errors_iff:
  "retry_errors (group_by fst snd adm) = [] \<longleftrightarrow>
     (\<forall>s u. length (filter (\<lambda>x. fst x = s \<and> u \<le> snd x \<and> snd x < u + 1000) adm) \<le> 2)"
proof -
  let ?vs = "\<lambda>s. map snd (filter (\<lambda>x. fst x = s) adm)"
  have "retry_errors (group_by fst snd adm) = [] \<longleftrightarrow>
      (\<forall>s \<in> fst ` set adm. \<forall>v \<in> set (?vs s). admitted_in_second (?vs s) v \<le> 2)"
    unfolding retry_errors_def concat_map_Nil_iff set_group_by
    unfolding Let_def ball_simps prod.case concat_map_if_Nil_iff admitted_sort set_sort not_less ..
  also have "\<dots> \<longleftrightarrow> (\<forall>s. \<forall>v \<in> set (?vs s). admitted_in_second (?vs s) v \<le> 2)"
    by (simp only: set_map set_filter) blast
  also have "\<dots> \<longleftrightarrow> (\<forall>s u. length (filter (\<lambda>x. u \<le> x \<and> x < u + 1000) (?vs s)) \<le> 2)"
    by (intro iff_allI windows_from_admissions)
  finally show ?thesis by (simp add: filter_map comp_def conj_commute conj_left_commute)
qed

section \<open>What the verdict means\<close>

text \<open>A retry is admitted after its event was committed on the same instance.\<close>

definition committed_before :: "budget_trace list \<Rightarrow> bool" where
  "committed_before traces \<longleftrightarrow> (\<exists>i j. i < j \<and> j < length traces \<and>
     bt_stage (traces ! i) = Some ''business_commit'' \<and> bt_stage (traces ! j) = Some ''retry_admitted'' \<and>
     bt_instance (traces ! i) = bt_instance (traces ! j) \<and> bt_eventId (traces ! i) = bt_eventId (traces ! j))"

lemma ex_pair_less_Suc:
  "(\<exists>i j. i < j \<and> j < Suc n \<and> P i j) \<longleftrightarrow>
     (\<exists>j < n. P 0 (Suc j)) \<or> (\<exists>i j. i < j \<and> j < n \<and> P (Suc i) (Suc j))"
proof
  assume "\<exists>i j. i < j \<and> j < Suc n \<and> P i j"
  then obtain i j where ij: "i < j" "j < Suc n" "P i j" by blast
  then obtain j' where j': "j = Suc j'" using less_imp_Suc_add by auto
  show "(\<exists>j < n. P 0 (Suc j)) \<or> (\<exists>i j. i < j \<and> j < n \<and> P (Suc i) (Suc j))"
    using ij j' by (cases i) auto
next
  assume "(\<exists>j < n. P 0 (Suc j)) \<or> (\<exists>i j. i < j \<and> j < n \<and> P (Suc i) (Suc j))"
  then show "\<exists>i j. i < j \<and> j < Suc n \<and> P i j" by (metis Suc_less_eq zero_less_Suc)
qed

lemma ball_insert_list: "(\<forall>x \<in> set (y # ys). P x) \<longleftrightarrow> P y \<and> (\<forall>x \<in> set ys. P x)"
  by simp

lemma commit_errors_iff:
  assumes "commit_errors mode committed ts = Inr es" "mode = Some ''inbox''"
  shows "es = [] \<longleftrightarrow> \<not> committed_before ts \<and>
    (\<forall>t \<in> set ts. bt_stage t = Some ''retry_admitted'' \<longrightarrow> map_of committed (bt_instance t, bt_eventId t) = None)"
  using assms(1)
proof (induction ts arbitrary: committed es)
  case Nil
  then show ?case by (simp add: committed_before_def)
next
  case (Cons t ts)
  let ?k = "(bt_instance t, bt_eventId t)"
  have e: "(\<exists>u \<in> set ts. P u) \<longleftrightarrow> (\<exists>j < length ts. P (ts ! j))" for P
    by (metis in_set_conv_nth)
  have cb: "committed_before (t # ts) \<longleftrightarrow> committed_before ts \<or> (bt_stage t = Some ''business_commit'' \<and>
      (\<exists>u \<in> set ts. bt_stage u = Some ''retry_admitted'' \<and> ?k = (bt_instance u, bt_eventId u)))"
    unfolding committed_before_def length_Cons ex_pair_less_Suc e nth_Cons_0 nth_Cons_Suc prod.inject by blast
  obtain stage where st: "bt_stage t = Some stage" using Cons.prems by (auto simp: bindR_Inr_iff)
  show ?case
  proof (cases "stage = ''business_commit''")
    case True
    then obtain x where "commit_errors mode (AList.update ?k x committed) ts = Inr es"
      using Cons.prems st by (auto simp: bindR_Inr_iff)
    moreover have "map_of (AList.update ?k x committed) k = None \<longleftrightarrow> ?k \<noteq> k \<and> map_of committed k = None" for k
      by (auto simp: update_conv')
    moreover have "bt_stage t = Some ''business_commit''" "bt_stage t \<noteq> Some ''retry_admitted''"
      using st True by simp_all
    ultimately show ?thesis unfolding cb ball_insert_list using Cons.IH by blast
  next
    case False
    show ?thesis
    proof (cases "stage = ''retry_admitted'' \<and> map_of committed ?k \<noteq> None")
      case True
      then show ?thesis using Cons.prems st assms(2) by (auto simp: bindR_Inr_iff)
    next
      case quiet: False
      then have "commit_errors mode committed ts = Inr es" using Cons.prems st False assms(2) by auto
      moreover have "bt_stage t = Some ''retry_admitted'' \<longrightarrow> map_of committed ?k = None"
      proof
        assume "bt_stage t = Some ''retry_admitted''"
        then have "stage = ''retry_admitted''" using st by simp
        with quiet show "map_of committed ?k = None" by blast
      qed
      moreover have "bt_stage t \<noteq> Some ''business_commit''" using st False by simp
      ultimately show ?thesis unfolding cb ball_insert_list using Cons.IH by blast
    qed
  qed
qed

lemma commit_errors_other:
  "commit_errors mode committed ts = Inr es \<Longrightarrow> mode \<noteq> Some ''inbox'' \<Longrightarrow> es = []"
  by (induction mode committed ts arbitrary: es rule: commit_errors.induct) (auto simp: bindR_Inr_iff split: if_splits)

lemma overlaps_iff:
  "all_overlaps sellers attempts = 0 \<longleftrightarrow>
    (\<forall>a \<in> set attempts. \<forall>b \<in> set attempts. ar_seller_id a \<in> set sellers \<and> ar_seller_id b = ar_seller_id a \<and>
       ar_order_id a = ar_order_id b \<and> ar_event_id a \<noteq> ar_event_id b \<longrightarrow> \<not> starts_within a b)"
  by (auto simp: all_overlaps_def same_order_overlaps_def requests_of_def filter_empty_conv sum_list_eq_0_iff)

lemma admissions_value:
  assumes "admissions traces = Inr adm"
  shows "adm = map (\<lambda>t. (the (bt_sellerId t), the (bt_admittedAt t)))
    (filter (\<lambda>t. bt_stage t = Some ''retry_admitted'') traces)"
proof -
  have "list_all2 (\<lambda>t y. y = (the (bt_sellerId t), the (bt_admittedAt t)))
      (filter (\<lambda>t. bt_stage t = Some ''retry_admitted'') traces) adm"
    using assms unfolding admissions_def mapR_Inr_iff
    by (rule list_all2_mono) (auto simp: bindR_Inr_iff)
  then show ?thesis by (auto simp: list_all2_conv_all_nth intro!: nth_equalityI)
qed

section \<open>Properties\<close>

definition ended :: "attempt_row \<Rightarrow> bool" where
  "ended a \<longleftrightarrow> truthy (ar_end_at a)"

text \<open>The three peak routines agree. When every call has an end, \<open>ops_report.peak_per_seller\<close>
  returns the dictionary of per-seller peaks that \<open>isolation/check.py\<close> computes, whatever its end
  of observation, and \<open>verify_budgets.py\<close> finds the same peak for each seller.\<close>

lemma peaks_agree:
  assumes "\<forall>a \<in> set attempts. ended a"
  shows "peak_per_seller attempts = peaks (group_by ar_seller_id (call_interval eoo) attempts) \<and>
    external_peak (requests_of s attempts) = max_overlap (map (call_interval eoo) (requests_of s attempts))"
proof -
  have c: "closed_interval a = call_interval eoo a" if "a \<in> set attempts" for a
    using assms that by (intro closed_is_call) (simp add: ended_def)
  have "group_by ar_seller_id closed_interval attempts = group_by ar_seller_id (call_interval eoo) attempts"
    unfolding group_by_def by (intro fold_cong) (simp_all add: c)
  moreover have "map closed_interval (requests_of s attempts) = map (call_interval eoo) (requests_of s attempts)"
    by (intro map_cong refl c) (simp add: requests_of_def)
  ultimately show ?thesis unfolding peak_per_seller_overlap external_peak_overlap by (simp only: simp_thms)
qed

lemma peaks_agree_witness:
  "peak_per_seller [attempt_row_of 1 10 20 first_event, attempt_row_of 2 15 30 first_event] =
     peaks (group_by ar_seller_id (call_interval 0)
       [attempt_row_of 1 10 20 first_event, attempt_row_of 2 15 30 first_event])"
  by (rule peaks_agree [THEN conjunct1]) code_simp

text \<open>Calls that never ended are invisible to \<open>verify_budgets.py\<close> and \<open>ops_report.py\<close>: both
  peaks are those of the ended calls alone, while \<open>isolation/check.py\<close> holds such a call open to the
  end of observation.\<close>

lemma unended_calls_uncounted:
  assumes "\<forall>a \<in> set attempts. ended a \<longrightarrow> ar_start_at a \<le> the (ar_end_at a)"
  shows "external_peak attempts = external_peak (filter ended attempts) \<and>
    (\<forall>p. (s, p) \<in> set (peak_per_seller attempts) \<longrightarrow> p = external_peak (filter ended (requests_of s attempts)))"
proof -
  have drop: "external_peak as = external_peak (filter ended as)" if "set as \<subseteq> set attempts" for as
  proof -
    have fw: "forward (map closed_interval bs)" if "set bs \<subseteq> set attempts" for bs
      using assms that
      by (auto simp: forward_def list_all_iff closed_interval_def ended_def truthy_def or_else_def split: option.splits)
    have "open_at (map closed_interval bs) t = open_at (map closed_interval (filter ended bs)) t" for bs t
      by (induction bs)
        (auto simp: open_at_def closed_interval_def ended_def truthy_def or_else_def split: option.splits)
    then show ?thesis
      unfolding external_peak_overlap using that by (intro peak_unique fw) auto
  qed
  have "p = external_peak (requests_of s attempts)" if "(s, p) \<in> set (peak_per_seller attempts)" for p
    using that by (auto simp: peak_per_seller_overlap peaks_def set_group_by external_peak_overlap requests_of_def)
  moreover have "set (requests_of s attempts) \<subseteq> set attempts" by (auto simp: requests_of_def)
  ultimately show ?thesis using drop by (metis order_refl)
qed

definition open_call :: "int \<Rightarrow> attempt_row" where
  "open_call i = (attempt_row_of i (20000000 + i) 0 first_event)\<lparr>ar_end_at := None, ar_order_id := i\<rparr>"

lemma unended_calls_uncounted_witness:
  "external_peak (map open_call [1, 2, 3]) = 0 \<and>
   \<not> bg_passed (check_budget small_limits 20000100 (map open_call [1, 2, 3]))"
proof -
  have e: "\<forall>a \<in> set (map open_call [1, 2, 3]). ended a \<longrightarrow> ar_start_at a \<le> the (ar_end_at a)" by code_simp
  have "external_peak (filter ended (map open_call [1, 2, 3])) = 0" by code_simp
  moreover have "\<not> bg_passed (check_budget small_limits 20000100 (map open_call [1, 2, 3]))" by code_simp
  ultimately show ?thesis using unended_calls_uncounted [OF e] by simp
qed

text \<open>C23: The verdict of \<open>verify_budgets.py\<close>, whatever order it takes the two sellers in. It passes
  exactly when neither seller ever has more than two (ended) calls open, no call starts strictly inside
  a call for another event of its order, in inbox mode no event's retry is admitted after the event
  committed on the same instance, every half-open second has at most two admissions of a seller, and
  the admissions are there in a run that must have them.\<close>

theorem verify_budgets_exact:
  assumes "verify_budgets sellers st attempts traces = Inr rep" "set sellers = {''normal'', ''slow''}"
    and "\<forall>a \<in> set attempts. ar_start_at a \<le> or_else (ar_end_at a) (ar_start_at a)"
  shows "bc_passed rep \<longleftrightarrow>
    (\<forall>s \<in> {''normal'', ''slow''}. \<forall>t. open_at (map closed_interval (requests_of s attempts)) t \<le> 2) \<and>
    (\<forall>a \<in> set attempts. \<forall>b \<in> set attempts. ar_seller_id a \<in> {''normal'', ''slow''} \<and>
       ar_seller_id b = ar_seller_id a \<and> ar_order_id a = ar_order_id b \<and> ar_event_id a \<noteq> ar_event_id b \<longrightarrow>
       \<not> starts_within a b) \<and>
    (se_mode st = Some ''inbox'' \<longrightarrow> \<not> committed_before traces) \<and>
    (\<forall>s u. length (filter (\<lambda>t. bt_stage t = Some ''retry_admitted'' \<and> the (bt_sellerId t) = s \<and>
       u \<le> the (bt_admittedAt t) \<and> the (bt_admittedAt t) < u + 1000) traces) \<le> 2) \<and>
    (se_mode st \<in> {Some ''async'', Some ''inbox''} \<and> se_scenario st \<in> {Some ''retry'', Some ''hotkey''} \<longrightarrow>
       (\<exists>t \<in> set traces. bt_stage t = Some ''retry_admitted''))"
proof -
  obtain consumed adm where ca: "commit_errors (se_mode st) [] traces = Inr consumed" "admissions traces = Inr adm"
      "bc_passed rep \<longleftrightarrow> concurrency_errors sellers attempts = [] \<and> all_overlaps sellers attempts = 0 \<and>
         consumed = [] \<and> retry_errors (group_by fst snd adm) = [] \<and> evidence_errors st (group_by fst snd adm) = []"
    using assms(1) by (auto simp: verify_budgets_def Let_def bindR_Inr_iff)
  have adm: "adm = map (\<lambda>t. (the (bt_sellerId t), the (bt_admittedAt t)))
      (filter (\<lambda>t. bt_stage t = Some ''retry_admitted'') traces)"
    by (rule admissions_value [OF ca(2)])
  have peak: "concurrency_errors sellers attempts = [] \<longleftrightarrow>
      (\<forall>s \<in> {''normal'', ''slow''}. \<forall>t. open_at (map closed_interval (requests_of s attempts)) t \<le> 2)"
  proof -
    have "external_peak (requests_of s attempts) \<le> 2 \<longleftrightarrow>
        (\<forall>t. open_at (map closed_interval (requests_of s attempts)) t \<le> 2)" for s
      using assms(3) by (intro external_peak_le_iff) (auto simp: requests_of_def)
    then show ?thesis
      unfolding concurrency_errors_def Let_def concat_map_if_Nil_iff assms(2) not_less by simp
  qed
  have commit: "consumed = [] \<longleftrightarrow> (se_mode st = Some ''inbox'' \<longrightarrow> \<not> committed_before traces)"
    using commit_errors_iff [OF ca(1)] commit_errors_other [OF ca(1)] by auto
  have retry: "retry_errors (group_by fst snd adm) = [] \<longleftrightarrow>
      (\<forall>s u. length (filter (\<lambda>t. bt_stage t = Some ''retry_admitted'' \<and> the (bt_sellerId t) = s \<and>
       u \<le> the (bt_admittedAt t) \<and> the (bt_admittedAt t) < u + 1000) traces) \<le> 2)"
    unfolding retry_errors_iff adm by (simp add: filter_map comp_def conj_ac)
  have "group_by fst snd adm = [] \<longleftrightarrow> adm = []"
    by (metis fst_set_group_by image_is_empty set_empty)
  then have ev: "evidence_errors st (group_by fst snd adm) = [] \<longleftrightarrow>
      (se_mode st \<in> {Some ''async'', Some ''inbox''} \<and> se_scenario st \<in> {Some ''retry'', Some ''hotkey''} \<longrightarrow>
       (\<exists>t \<in> set traces. bt_stage t = Some ''retry_admitted''))"
    unfolding evidence_errors_def adm by (simp add: filter_empty_conv del: insert_iff)
  show ?thesis unfolding ca(3) peak commit retry ev overlaps_iff assms(2) ..
qed

definition sample_admission :: "int \<Rightarrow> budget_trace" where
  "sample_admission t = \<lparr>bt_stage = Some ''retry_admitted'', bt_instance = Some ''a'', bt_eventId = Some ''e1'',
     bt_time = Some t, bt_sellerId = Some ''slow'', bt_admittedAt = Some t\<rparr>"

theorem verify_budgets_exact_witness:
  "\<exists>rep. verify_budgets [''slow'', ''normal''] \<lparr>se_mode = Some ''inbox'', se_scenario = Some ''retry''\<rparr>
      [attempt_row_of 1 10 20 first_event] (map sample_admission [10, 500, 1010]) = Inr rep \<and>
    \<not> committed_before (map sample_admission [10, 500, 1010])"
proof -
  let ?v = "verify_budgets [''slow'', ''normal''] \<lparr>se_mode = Some ''inbox'', se_scenario = Some ''retry''\<rparr>
      [attempt_row_of 1 10 20 first_event] (map sample_admission [10, 500, 1010])"
  have "case ?v of Inl _ \<Rightarrow> False | Inr rep \<Rightarrow> bc_passed rep" by code_simp
  then obtain rep where rep: "?v = Inr rep" "bc_passed rep" by (auto split: sum.splits)
  have "\<forall>a \<in> set [attempt_row_of 1 10 20 first_event]. ar_start_at a \<le> or_else (ar_end_at a) (ar_start_at a)"
    by code_simp
  from verify_budgets_exact [OF rep(1) _ this] rep show ?thesis by auto
qed

end
