(* ===== verification/Polling.thy ===== *)
theory Polling
  imports Prelude
begin

text \<open>
  The waiting loops of the experiment scripts: \<open>wait_for\<close> of \<open>isolation/runner.py\<close> and of
  \<open>run.py\<close>, and \<open>Run._drain\<close>. All have one shape: while the monotonic clock is before a deadline,
  look once, stop if satisfied, else sleep a fixed time; an exception of the look is swallowed.
  \<open>poll_loop\<close> is that loop over the durations and outcomes of the successive looks. It may run for
  ever if a look could turn the clock back, so it is a partial function; that it returns, and after
  how many looks, is proved for looks that take non-negative time.
\<close>

section \<open>The loop\<close>

text \<open>\<open>took i\<close> is the time from the start of look \<open>i\<close> to its sleep; \<open>look i s\<close> is \<open>Inr\<close> to stop
  with a value and \<open>Inl\<close> to go on with a new state. The result is the last state or the value, the
  number of looks and the clock.\<close>

partial_function (option) poll_loop ::
    "rat \<Rightarrow> (nat \<Rightarrow> rat) \<Rightarrow> (nat \<Rightarrow> 's \<Rightarrow> 's + 'r) \<Rightarrow> rat \<Rightarrow> rat \<Rightarrow> nat \<Rightarrow> 's \<Rightarrow> (('s + 'r) \<times> nat \<times> rat) option"
where
  [code]: "poll_loop nap took look deadline now i s =
     (if now < deadline
      then (case look i s of
              Inr r \<Rightarrow> Some (Inr r, Suc i, now + took i)
            | Inl s' \<Rightarrow> poll_loop nap took look deadline (now + took i + nap) (Suc i) s')
      else Some (Inl s, i, now))"

definition RUNNER_NAP :: rat where
  "RUNNER_NAP = 1 / 4"

definition RUN_NAP :: rat where
  "RUN_NAP = 1 / 10"

definition DRAIN_NAP :: rat where
  "DRAIN_NAP = 2"

text \<open>One look of \<open>wait_for\<close>: the predicate raises, is falsy (\<open>None\<close>) or has a value. The state is
  the last exception.\<close>

type_synonym 'a look = "'a option result"

definition wait_look :: "(nat \<Rightarrow> 'a look) \<Rightarrow> nat \<Rightarrow> py_error option \<Rightarrow> py_error option + 'a" where
  "wait_look predicate i last_error =
     (case predicate i of
        Inl e \<Rightarrow> Inl (Some e)
      | Inr None \<Rightarrow> Inl last_error
      | Inr (Some v) \<Rightarrow> Inr v)"

text \<open>The value, or the \<open>TimeoutError\<close>, whose message carries the last exception.\<close>

definition wait_for ::
    "rat \<Rightarrow> (nat \<Rightarrow> rat) \<Rightarrow> (nat \<Rightarrow> 'a look) \<Rightarrow> rat \<Rightarrow> rat \<Rightarrow> (('a result \<times> py_error option) \<times> nat \<times> rat) option" where
  "wait_for nap took predicate timeout now =
     map_option (\<lambda>(res, n, t). ((case res of Inl e \<Rightarrow> (Inl TimeoutError, e) | Inr v \<Rightarrow> (Inr v, None)), n, t))
       (poll_loop nap took (wait_look predicate) (now + timeout) now 0 None)"

text \<open>One look of \<open>_drain\<close>: the number of obligations (the database may raise, or its text may not be
  a number) and then the seller's effects. The state is the last number read.\<close>

definition drain_look ::
    "(nat \<Rightarrow> int result) \<Rightarrow> (nat \<Rightarrow> int result) \<Rightarrow> nat \<Rightarrow> int option \<Rightarrow> int option + int" where
  "drain_look accepted effects_done i before =
     (case accepted i of
        Inl e \<Rightarrow> Inl before
      | Inr n \<Rightarrow>
         (case effects_done i of
            Inl e \<Rightarrow> Inl (Some n)
          | Inr d \<Rightarrow> if n \<noteq> 0 \<and> n \<le> d then Inr n else Inl (Some n)))"

text \<open>The recorded \<open>accepted\<close>, the looks and the clock at the end.\<close>

definition drain ::
    "(nat \<Rightarrow> rat) \<Rightarrow> (nat \<Rightarrow> int result) \<Rightarrow> (nat \<Rightarrow> int result) \<Rightarrow> rat \<Rightarrow> rat \<Rightarrow> (int option \<times> nat \<times> rat) option" where
  "drain took accepted effects_done seconds now =
     map_option (\<lambda>(res, n, t). ((case res of Inl s \<Rightarrow> s | Inr a \<Rightarrow> Some a), n, t))
       (poll_loop DRAIN_NAP took (drain_look accepted effects_done) (now + seconds) now 0 None)"

section \<open>What the loop does\<close>

text \<open>The clock before look \<open>i\<close>, and the state after the first \<open>n\<close> looks when none of them stops.\<close>

fun clock :: "rat \<Rightarrow> (nat \<Rightarrow> rat) \<Rightarrow> rat \<Rightarrow> nat \<Rightarrow> rat" where
  "clock nap took now 0 = now"
| "clock nap took now (Suc i) = clock nap took now i + took i + nap"

lemma clock_shift: "clock nap (\<lambda>i. took (Suc i)) (now + took 0 + nap) i = clock nap took now (Suc i)"
  by (induction i) simp_all

lemma clock_grows: "\<forall>i. 0 \<le> took i \<Longrightarrow> now + of_nat i * nap \<le> clock nap took now i"
proof (induction i)
  case (Suc i)
  then have "now + of_nat i * nap \<le> clock nap took now i" "0 \<le> took i" by simp_all
  moreover have "now + of_nat (Suc i) * nap = now + of_nat i * nap + nap" by (simp add: algebra_simps)
  ultimately show ?case by (simp del: of_nat_Suc)
qed simp

fun states :: "(nat \<Rightarrow> 's \<Rightarrow> 's + 'r) \<Rightarrow> 's \<Rightarrow> nat \<Rightarrow> 's option" where
  "states look s 0 = Some s"
| "states look s (Suc i) =
     (case states look s i of None \<Rightarrow> None
      | Some s' \<Rightarrow> (case look i s' of Inl s'' \<Rightarrow> Some s'' | Inr _ \<Rightarrow> None))"

text \<open>Unrolling: while looks do not stop and the clock is before the deadline, the loop is at the next
  look.\<close>

lemma poll_loop_unroll:
  assumes "states look s n = Some s'" "\<forall>i < n. clock nap took now i < deadline"
  shows "poll_loop nap took look deadline now 0 s =
    poll_loop nap took look deadline (clock nap took now n) n s'"
  using assms
proof (induction n arbitrary: s')
  case (Suc n)
  then obtain s1 where s1: "states look s n = Some s1" "look n s1 = Inl s'"
    by (auto split: option.splits sum.splits)
  have "poll_loop nap took look deadline now 0 s = poll_loop nap took look deadline (clock nap took now n) n s1"
    using Suc.IH [OF s1(1)] Suc.prems(2) by simp
  also have "\<dots> = poll_loop nap took look deadline (clock nap took now (Suc n)) (Suc n) s'"
    using s1(2) Suc.prems(2) by (subst poll_loop.simps) simp
  finally show ?case .
qed simp

lemma poll_loop_value:
  assumes "states look s n = Some s'" "look n s' = Inr r" "\<forall>i \<le> n. clock nap took now i < deadline"
  shows "poll_loop nap took look deadline now 0 s = Some (Inr r, Suc n, clock nap took now n + took n)"
proof -
  have "poll_loop nap took look deadline now 0 s = poll_loop nap took look deadline (clock nap took now n) n s'"
    using assms by (intro poll_loop_unroll) simp_all
  also have "\<dots> = Some (Inr r, Suc n, clock nap took now n + took n)"
    using assms(2,3) by (subst poll_loop.simps) simp
  finally show ?thesis .
qed

lemma poll_loop_late:
  assumes "states look s n = Some s'" "\<forall>i < n. clock nap took now i < deadline" "deadline \<le> clock nap took now n"
  shows "poll_loop nap took look deadline now 0 s = Some (Inl s', n, clock nap took now n)"
  unfolding poll_loop_unroll [OF assms(1,2)] using assms(3) by (subst poll_loop.simps) simp

text \<open>Every loop ends in one of the two ways.\<close>

lemma poll_loop_ends:
  assumes "0 < nap" "\<forall>i. 0 \<le> took i"
  obtains (stopped) n s' r where "states look s n = Some s'" "look n s' = Inr r"
      "\<forall>i \<le> n. clock nap took now i < deadline"
    | (late) n s' where "states look s n = Some s'" "\<forall>i < n. clock nap took now i < deadline"
      "deadline \<le> clock nap took now n"
proof -
  define N where "N = (LEAST n. deadline \<le> clock nap took now n)"
  obtain k :: nat where "(deadline - now) / nap < of_nat k" using reals_Archimedean2 by blast
  then have "deadline \<le> now + of_nat k * nap" using assms(1) by (simp add: divide_less_eq)
  then have ex: "deadline \<le> clock nap took now k" using clock_grows [OF assms(2), of now k nap] by simp
  have N: "deadline \<le> clock nap took now N" unfolding N_def by (rule LeastI, rule ex)
  have before: "clock nap took now i < deadline" if "i < N" for i
    using not_less_Least [of i "\<lambda>n. deadline \<le> clock nap took now n"] that by (simp add: N_def not_le)
  show thesis
  proof (cases "states look s N")
    case (Some s')
    then show thesis using late N before by blast
  next
    case None
    define m where "m = (LEAST n. states look s n = None)"
    have m: "states look s m = None" unfolding m_def by (rule LeastI, rule None)
    have "m \<le> N" unfolding m_def by (rule Least_le, rule None)
    obtain n where n: "m = Suc n" using m by (cases m) auto
    have "states look s n \<noteq> None"
      using not_less_Least [of n "\<lambda>n. states look s n = None"] n by (simp add: m_def)
    then obtain s' where s': "states look s n = Some s'" by blast
    then obtain r where "look n s' = Inr r" using m n by (auto split: sum.splits)
    then show thesis using stopped s' before n \<open>m \<le> N\<close> by (metis Suc_le_lessD le_imp_less_Suc order_less_le_trans less_Suc_eq_le)
  qed
qed

section \<open>Properties\<close>

lemma wait_states:
  "states (wait_look predicate) e n \<noteq> None \<longleftrightarrow> (\<forall>i < n. \<forall>v. predicate i \<noteq> Inr (Some v))"
proof (induction n)
  case (Suc n)
  show ?case
  proof (cases "states (wait_look predicate) e n")
    case None
    with Suc.IH show ?thesis by (auto simp: less_Suc_eq)
  next
    case (Some s)
    with Suc.IH show ?thesis
      by (auto simp: less_Suc_eq wait_look_def split: sum.splits option.splits)
  qed
qed simp

lemma looks_bound:
  assumes "\<forall>i. 0 \<le> took i" "0 < timeout" "0 < nap" "\<forall>i < n. clock nap took now i < now + timeout"
  shows "of_nat n * nap < timeout + nap"
proof (cases n)
  case 0
  then show ?thesis using assms by simp
next
  case (Suc k)
  then have "clock nap took now k < now + timeout" using assms(4) by simp
  moreover have "now + of_nat k * nap \<le> clock nap took now k" using clock_grows [OF assms(1)] .
  ultimately have "of_nat k * nap < timeout" by linarith
  then show ?thesis using Suc by (simp add: algebra_simps)
qed

text \<open>C40: \<open>wait_for\<close> always returns. It looks at most once per nap within its timeout; it gives the value
  of the first satisfied look if that look starts before the deadline, swallowing every earlier
  exception, and otherwise raises \<open>TimeoutError\<close> after all looks before the deadline were in vain.\<close>

theorem wait_for_returns:
  assumes "0 < nap" "\<forall>i. 0 \<le> took i" "0 < timeout"
  shows "\<exists>res e n t. wait_for nap took predicate timeout now = Some ((res, e), n, t) \<and>
    of_nat n * nap < timeout + nap \<and>
    (case res of
       Inr v \<Rightarrow> 0 < n \<and> predicate (n - 1) = Inr (Some v) \<and> (\<forall>i < n - 1. \<forall>u. predicate i \<noteq> Inr (Some u)) \<and>
         clock nap took now (n - 1) < now + timeout
     | Inl err \<Rightarrow> err = TimeoutError \<and> (\<forall>i < n. \<forall>u. predicate i \<noteq> Inr (Some u)) \<and> now + timeout \<le> t \<and>
         t = clock nap took now n)"
  using assms(1,2)
proof (cases rule: poll_loop_ends [of nap took "wait_look predicate" None now "now + timeout"])
  case (stopped n s' r)
  from poll_loop_value [OF this]
  have "wait_for nap took predicate timeout now = Some ((Inr r, None), Suc n, clock nap took now n + took n)"
    by (simp add: wait_for_def)
  moreover have "predicate n = Inr (Some r)"
    using stopped(2) by (auto simp: wait_look_def split: sum.splits option.splits)
  moreover have "\<forall>i < n. \<forall>u. predicate i \<noteq> Inr (Some u)" using stopped(1) wait_states by fastforce
  moreover have "of_nat (Suc n) * nap < timeout + nap"
    using stopped(3) by (intro looks_bound [OF assms(2,3,1), where now = now]) (simp add: less_Suc_eq_le)
  ultimately show ?thesis using stopped(3) by (simp del: of_nat_Suc)
next
  case (late n s')
  from poll_loop_late [OF this]
  have "wait_for nap took predicate timeout now = Some ((Inl TimeoutError, s'), n, clock nap took now n)"
    by (simp add: wait_for_def)
  moreover have "\<forall>i < n. \<forall>u. predicate i \<noteq> Inr (Some u)" using late(1) wait_states by fastforce
  moreover have "of_nat n * nap < timeout + nap" using late(2) by (intro looks_bound [OF assms(2,3,1), where now = now])
  ultimately show ?thesis using late(3) by simp
qed

theorem wait_for_returns_witness:
  "\<exists>res e n t. wait_for RUNNER_NAP (\<lambda>i. 1 / 8) (\<lambda>i. if i = 2 then Inr (Some (7 :: int)) else Inl RuntimeError) 10 100 =
     Some ((res, e), n, t) \<and> of_nat n * RUNNER_NAP < 10 + RUNNER_NAP"
  using wait_for_returns [of RUNNER_NAP "\<lambda>i. 1 / 8" 10
      "\<lambda>i. if i = 2 then Inr (Some (7 :: int)) else Inl RuntimeError" 100]
  by (auto simp: RUNNER_NAP_def)

text \<open>\<open>_drain\<close> always returns: either its last look saw an effect for each of at least one accepted
  operation, or it waited the whole time.\<close>

lemma drain_returns:
  assumes "\<forall>i. 0 \<le> took i"
  shows "\<exists>a n t. drain took accepted effects_done seconds now = Some (a, n, t) \<and>
    (now + seconds \<le> t \<or> (\<exists>k d. 0 < n \<and> a = Some k \<and> accepted (n - 1) = Inr k \<and> effects_done (n - 1) = Inr d \<and>
       k \<noteq> 0 \<and> k \<le> d))"
proof -
  have "0 < DRAIN_NAP" by (simp add: DRAIN_NAP_def)
  from this assms show ?thesis
  proof (cases rule: poll_loop_ends [of DRAIN_NAP took "drain_look accepted effects_done" None now "now + seconds"])
    case (stopped n s' r)
    have "drain took accepted effects_done seconds now = Some (Some r, Suc n, clock DRAIN_NAP took now n + took n)"
      unfolding drain_def poll_loop_value [OF stopped] by simp
    moreover have "\<exists>d. accepted n = Inr r \<and> effects_done n = Inr d \<and> r \<noteq> 0 \<and> r \<le> d"
      using stopped(2) by (auto simp: drain_look_def split: sum.splits if_splits)
    ultimately show ?thesis by (intro exI conjI) (assumption, auto)
  next
    case (late n s')
    have "drain took accepted effects_done seconds now = Some (s', n, clock DRAIN_NAP took now n)"
      unfolding drain_def poll_loop_late [OF late] by simp
    then show ?thesis using late(3) by blast
  qed
qed

end
