(* ===== verification/Runner.thy ===== *)
theory Runner
  imports Polling Workload Mock_Server
begin

text \<open>
  One experiment run, \<open>experiments/isolation/runner.py\<close>: the names and limits of a run, the processes'
  arguments, the timed fault and scenario steps, the takeover scenario of a stopped owner, the
  collection of the evidence and the frame that stops everything whatever happened. Remote commands,
  HTTP calls and clocks are arguments: what each returned, or that it raised.
\<close>

section \<open>Specifications\<close>

record run_spec =
  sp_label :: string
  sp_stage :: "string option"
  sp_candidate :: string
  sp_seed :: int
  sp_backlogLimit :: "int option"
  sp_phases :: "phase list"
  sp_fault :: "string option"
  sp_judgedPhases :: "string list option"
  sp_drainSeconds :: "int option"
  sp_scenario :: "string option"
  sp_scenarioPhase :: "string option"
  sp_partnersAtStart :: "nat option"
  sp_sellerQuota :: "int option"
  sp_parallelLoadFactor :: "int option"
  sp_observerWindows :: "(string \<times> bool) list option"
  sp_jvmProperties :: "(string \<times> string) list option"

definition CANDIDATES :: "(string \<times> string \<times> routing) list" where
  "CANDIDATES = [(''kafka-bucket'', ''kafka-bucket'', ByBucket), (''kafka-retry'', ''kafka-retry'', ByOrder),
     (''db-inbox'', ''inbox'', ByOrder)]"

definition NORMAL_DELAY_MS :: int where
  "NORMAL_DELAY_MS = 20"

definition FAULT_DELAY_MS :: int where
  "FAULT_DELAY_MS = 3000"

text \<open>\<open>spec.get(key)\<close> in a condition: an absent or empty text is false.\<close>

definition given :: "string option \<Rightarrow> string option" where
  "given v = (if v = Some [] then None else v)"

section \<open>Names and limits\<close>

definition topic :: "string \<Rightarrow> string" where
  "topic tag = ''p-'' @ tag"

definition completion_topic :: "string \<Rightarrow> string" where
  "completion_topic tag = ''c-'' @ tag"

definition group :: "string \<Rightarrow> string" where
  "group tag = ''g-'' @ tag"

definition completion_group :: "string \<Rightarrow> string" where
  "completion_group tag = ''s-'' @ tag"

definition created_topics :: "string \<Rightarrow> string list" where
  "created_topics tag = [topic tag, topic tag @ ''-retry'', completion_topic tag]"

record runner_limits = limits +
  rl_globalPerInstance :: int
  rl_instances :: nat

definition partners_at_start :: "run_spec \<Rightarrow> nat" where
  "partners_at_start sp = get_or 1 (sp_partnersAtStart sp)"

definition instances :: "run_spec \<Rightarrow> nat" where
  "instances sp = max (partners_at_start sp) (if sp_scenario sp = Some ''scale'' then 2 else 1)"

definition run_limits :: "run_spec \<Rightarrow> runner_limits" where
  "run_limits sp = \<lparr>l_global = 4 * int (instances sp), l_seller = 2, l_retryPerSecond = 2,
     rl_globalPerInstance = 4, rl_instances = instances sp\<rparr>"

section \<open>Processes\<close>

record host =
  h_name :: string
  h_address :: string
  h_port :: int
  h_workdir :: string
  h_repo :: string

record topology =
  tp_partners :: "host list"
  tp_partner_db :: host
  tp_source :: host
  tp_source_db :: host
  tp_mock :: host
  tp_bootstrap :: string
  tp_replication :: int

definition url :: "host \<Rightarrow> string" where
  "url h = ''http://'' @ h_address h @ '':'' @ show_int (h_port h)"

definition jdbc :: "host \<Rightarrow> string \<Rightarrow> string" where
  "jdbc h name = ''jdbc:mysql://'' @ h_address h @ '':'' @ show_int (h_port h) @ ''/'' @ name"

definition TRACE_STAGES :: string where
  "TRACE_STAGES = ''claimed,business_commit,stale_owner_rejected,lease_lost,retry_budget_wait,partitions_assigned,'' @
     ''partitions_revoked,worker_drain,backpressure,dispatch_error,claim_error,completion_relay_error,'' @
     ''retry_save_error,lease_renew_error,inbox_purge_error''"

definition source_args :: "topology \<Rightarrow> run_spec \<Rightarrow> string \<Rightarrow> string list" where
  "source_args tp sp tag =
     [''--server.port='' @ show_int (h_port (tp_source tp)),
      ''--spring.datasource.url='' @ jdbc (tp_source_db tp) ''order_db'',
      ''--spring.kafka.bootstrap-servers='' @ tp_bootstrap tp,
      ''--app.delivery-tracking=true'', ''--app.partner-topic='' @ topic tag,
      ''--app.completion-topic='' @ completion_topic tag,
      ''--app.completion-group='' @ completion_group tag, ''--app.outbox-poll-ms=10'',
      ''--app.outbox-retention-ms=60000'',
      ''--app.seller-quota='' @ show_int (get_or 0 (sp_sellerQuota sp)),
      ''--spring.kafka.producer.properties[enable.idempotence]=true'', ''--spring.kafka.producer.acks=all'',
      ''--spring.kafka.consumer.auto-offset-reset=earliest'', ''--logging.level.org.apache.kafka=WARN'']"

definition partner_args :: "topology \<Rightarrow> run_spec \<Rightarrow> string \<Rightarrow> host \<Rightarrow> string list result" where
  "partner_args tp sp tag h =
     bindR (need (sp_candidate sp) (map_of CANDIDATES (sp_candidate sp))) (\<lambda>cand. Inr
       [''--server.port='' @ show_int (h_port h),
        ''--spring.datasource.url='' @ jdbc (tp_partner_db tp) ''partner_db'',
        ''--spring.kafka.bootstrap-servers='' @ tp_bootstrap tp,
        ''--app.mode='' @ fst cand, ''--app.topic='' @ topic tag,
        ''--spring.kafka.consumer.group-id='' @ group tag, ''--app.partitions=4'',
        ''--app.replication-factor='' @ show_int (tp_replication tp), ''--app.partner-url='' @ url (tp_mock tp),
        ''--app.completion-topic='' @ completion_topic tag,
        ''--app.backlog-limit='' @ show_int (get_or 200 (sp_backlogLimit sp)),
        ''--app.retained-limit=100000'', ''--app.inbox-done-retention-ms=60000'', ''--app.input-budget=0'',
        ''--app.inbox-batch-ingest=true'', ''--app.trace-stages='' @ TRACE_STAGES,
        ''--app.retry.seed='' @ show_int (sp_seed sp),
        ''--app.parallel-load-factor='' @ show_int (get_or 50 (sp_parallelLoadFactor sp)),
        ''--spring.kafka.consumer.max-poll-records=32'',
        ''--spring.kafka.consumer.properties[session.timeout.ms]=15000'',
        ''--spring.kafka.consumer.properties[heartbeat.interval.ms]=3000'',
        ''--spring.kafka.consumer.properties[max.partition.fetch.bytes]=262144'',
        ''--spring.kafka.consumer.properties[fetch.max.bytes]=1048576'',
        ''--spring.kafka.consumer.properties[interceptor.classes]=''])"

text \<open>\<open>_launch\<close>: every argument in single quotes, a quote inside as \<open>'\''\<close>.\<close>

definition sh_quote :: "string \<Rightarrow> string" where
  "sh_quote a = [CHR 0x27] @ concat (map (\<lambda>c. if c = CHR 0x27 then [CHR 0x27, CHR 0x5C, CHR 0x27, CHR 0x27] else [c]) a) @
     [CHR 0x27]"

definition JVM :: "string list" where
  "JVM = [''java'', ''-Xms512m'', ''-Xmx512m'', ''-XX:ActiveProcessorCount=2'']"

definition launch_command ::
    "run_spec \<Rightarrow> host \<Rightarrow> string \<Rightarrow> string list \<Rightarrow> string \<Rightarrow> (string \<times> string) list \<Rightarrow> string" where
  "launch_command sp h jar args logfile env =
     (let quoted = join_with '' '' (map sh_quote args);
          assignments = join_with '' '' (map (\<lambda>(k, v). k @ ''='' @ [CHR 0x27] @ v @ [CHR 0x27]) env);
          jvm = JVM @ map (\<lambda>(k, v). ''-D'' @ k @ ''='' @ v) (get_or [] (sp_jvmProperties sp)) @ [''-jar'']
      in ''mkdir -p logs; cd '' @ h_repo h @ ''; nohup env '' @ assignments @ '' '' @ join_with '' '' jvm @ '' '' @ jar @
         '' '' @ quoted @ '' >> '' @ h_workdir h @ ''/logs/'' @ logfile @ '' 2>&1 < /dev/null & echo $!'')"

section \<open>Timed steps\<close>

datatype step_action =
    SetFault int string      \<comment> \<open>\<open>_fault\<close>: the seller's delay and the action recorded\<close>
  | ScaleOut
  | StaleOwner rat
  | PauseSourceSignal
  | ObserverOff
  | ObserverOn

type_synonym bounds = "(string \<times> rat \<times> rat) list"

definition fault_steps :: "run_spec \<Rightarrow> bounds \<Rightarrow> rat \<Rightarrow> (rat \<times> step_action) list result" where
  "fault_steps sp bs start_at =
     (case given (sp_fault sp) of
        None \<Rightarrow> Inr []
      | Some ph \<Rightarrow> bindR (need ph (map_of bs ph)) (\<lambda>(b, e). Inr
          [(start_at + b, SetFault FAULT_DELAY_MS ''fault_injected''),
           (start_at + e, SetFault NORMAL_DELAY_MS ''fault_removed'')]))"

definition observer_steps :: "bounds \<Rightarrow> rat \<Rightarrow> (string \<times> bool) list \<Rightarrow> (rat \<times> step_action) list result" where
  "observer_steps bs start_at windows =
     bindR (mapR (\<lambda>(name, off). bindR (need name (map_of bs name)) (\<lambda>(b, e). Inr
       (if off then [(start_at + b, ObserverOff), (start_at + e, ObserverOn)] else []))) windows)
       (\<lambda>xs. Inr (concat xs))"

definition scenario_action :: "run_spec \<Rightarrow> bounds \<Rightarrow> rat \<Rightarrow> string \<Rightarrow> rat \<Rightarrow> (rat \<times> step_action) list result" where
  "scenario_action sp bs start_at sc b =
     (if sc = ''scale'' then Inr [(start_at + b + 30000, ScaleOut)]
      else if sc = ''stale'' then Inr [(start_at + b, StaleOwner b)]
      else if sc = ''observer-pause'' then Inr [(start_at + b + 30000, PauseSourceSignal)]
      else if sc = ''observer-off''
        then bindR (need ''observerWindows'' (sp_observerWindows sp)) (observer_steps bs start_at)
      else Inr [])"

definition scenario_steps :: "run_spec \<Rightarrow> bounds \<Rightarrow> rat \<Rightarrow> (rat \<times> step_action) list result" where
  "scenario_steps sp bs start_at =
     (case given (sp_scenario sp) of
        None \<Rightarrow> Inr []
      | Some sc \<Rightarrow>
         bindR (need ''scenarioPhase'' (sp_scenarioPhase sp)) (\<lambda>ph.
         bindR (need ph (map_of bs ph)) (\<lambda>be. scenario_action sp bs start_at sc (fst be))))"

definition schedule :: "run_spec \<Rightarrow> rat \<Rightarrow> (rat \<times> step_action) list result" where
  "schedule sp start_at =
     (let bs = phase_bounds (sp_phases sp)
      in bindR (fault_steps sp bs start_at) (\<lambda>fs. bindR (scenario_steps sp bs start_at) (\<lambda>ss. Inr (fs @ ss))))"

text \<open>\<open>_at\<close>: how long the step's thread sleeps, in seconds.\<close>

definition step_sleep :: "int \<Rightarrow> rat \<Rightarrow> rat" where
  "step_sleep now epoch = max 0 (fl (fl (epoch - of_int now) / 1000))"

text \<open>What the steps send to the seller mock: \<open>reset\<close> and \<open>_fault\<close>.\<close>

definition delay_policy :: "int \<Rightarrow> policy" where
  "delay_policy d = no_policy\<lparr>p_delayMs := Some d\<rparr>"

definition reset_mock :: "string \<Rightarrow> http list" where
  "reset_mock name = [PostReset (Some name) None, PostControl (Some ''*'') (delay_policy NORMAL_DELAY_MS)]"

fun step_requests :: "step_action \<Rightarrow> http list" where
  "step_requests (SetFault d _) = [PostControl (Some BIG_SELLER) (delay_policy d)]"
| "step_requests _ = []"

text \<open>The requests of the steps that are due at \<open>t\<close>, in the order of their times.\<close>

definition due_requests :: "(rat \<times> step_action) list \<Rightarrow> rat \<Rightarrow> http list" where
  "due_requests steps t = concat (map (\<lambda>(_, a). step_requests a) (sort_key fst (filter (\<lambda>s. fst s \<le> t) steps)))"

section \<open>The stopped owner\<close>

datatype owner_cmd =
    Arm string string          \<comment> \<open>host, event\<close>
  | Disarm string
  | DisarmQuietly string       \<comment> \<open>\<open>check=False\<close>: does not raise\<close>
  | StopProcess string int
  | ContProcess string int

datatype owner_note =
    GateArmed string
  | InjectionInvalid
  | OwnerStopped string string
  | TakeoverCommitted string
  | TakeoverUnconfirmed string
  | OwnerResumed string

datatype owner_step = Cmd owner_cmd | Note owner_note

definition gate_target :: "plan_entry list \<Rightarrow> rat \<Rightarrow> string result" where
  "gate_target entries b =
     (case find (\<lambda>e. b + 5000 \<le> of_int (pe_offset e) \<and> ev_sellerId (pe_event e) \<noteq> BIG_SELLER \<and>
            ev_sequence (pe_event e) = 1) entries of
        None \<Rightarrow> Inl StopIteration
      | Some e \<Rightarrow> Inr (ev_eventId (pe_event e)))"

text \<open>\<open>reached()\<close> at one look: the first host whose gate file exists.\<close>

fun gate_reached :: "(string \<Rightarrow> bool result) \<Rightarrow> string list \<Rightarrow> string look" where
  "gate_reached has_file [] = Inr None"
| "gate_reached has_file (h # hs) =
     bindR (has_file h) (\<lambda>yes. if yes then Inr (Some h) else gate_reached has_file hs)"

text \<open>Commands run in turn; the first that raises ends the step. The result is what was done.\<close>

fun perform :: "(owner_cmd \<Rightarrow> bool) \<Rightarrow> owner_step list \<Rightarrow> owner_step list \<times> bool" where
  "perform fails [] = ([], True)"
| "perform fails (Note n # ss) = (let (done_steps, ok) = perform fails ss in (Note n # done_steps, ok))"
| "perform fails (Cmd c # ss) =
     (if fails c \<and> (\<forall>h. c \<noteq> DisarmQuietly h) then ([], False)
      else let (done_steps, ok) = perform fails ss in (Cmd c # done_steps, ok))"

definition arm_steps :: "string list \<Rightarrow> string \<Rightarrow> owner_step list" where
  "arm_steps hosts e = map (\<lambda>h. Cmd (Arm h e)) hosts @ [Note (GateArmed e)]"

definition invalid_steps :: "string list \<Rightarrow> owner_step list" where
  "invalid_steps hosts = Note InjectionInvalid # map (\<lambda>h. Cmd (DisarmQuietly h)) hosts"

definition stop_steps :: "string list \<Rightarrow> (string \<times> int) list \<Rightarrow> string \<Rightarrow> string \<Rightarrow> owner_step list result" where
  "stop_steps hosts pids e held =
     (case find (\<lambda>h. h \<noteq> held) hosts of
        None \<Rightarrow> Inl StopIteration
      | Some other \<Rightarrow> bindR (need held (map_of pids held)) (\<lambda>pid. Inr
         [Cmd (StopProcess held pid), Cmd (Disarm other), Note (OwnerStopped held e)]))"

definition resume_steps :: "(string \<times> int) list \<Rightarrow> string \<Rightarrow> string \<Rightarrow> unit result \<Rightarrow> owner_step list" where
  "resume_steps pids e held takeover =
     [Note (case takeover of Inl _ \<Rightarrow> TakeoverUnconfirmed e | Inr _ \<Rightarrow> TakeoverCommitted e),
      Cmd (Disarm held), Cmd (ContProcess held (get_or 0 (map_of pids held))), Note (OwnerResumed held)]"

text \<open>One part after another: what was done so far, and whether nothing has raised.\<close>

definition and_then :: "owner_step list \<times> bool \<Rightarrow> (unit \<Rightarrow> (owner_step list \<times> bool) option) \<Rightarrow>
    (owner_step list \<times> bool) option" where
  "and_then p rest = (if snd p then map_option (\<lambda>(ds, ok). (fst p @ ds, ok)) (rest ()) else Some p)"

text \<open>\<open>_stale_owner\<close>: the two waits are those of \<open>wait_for\<close> with 40 and 60 seconds; their looks at the
  gate files and at the committed effect are given. \<open>None\<close> stands for a wait that never ends. A
  \<open>StopIteration\<close>, a \<open>KeyError\<close> or a failed command is recorded by the step's thread.\<close>

definition stale_owner ::
    "string list \<Rightarrow> (string \<times> int) list \<Rightarrow> plan_entry list \<Rightarrow> rat \<Rightarrow> (owner_cmd \<Rightarrow> bool) \<Rightarrow>
     (nat \<Rightarrow> rat) \<Rightarrow> (nat \<Rightarrow> string \<Rightarrow> bool result) \<Rightarrow> (nat \<Rightarrow> rat) \<Rightarrow> (nat \<Rightarrow> unit look) \<Rightarrow> rat \<Rightarrow> rat \<Rightarrow>
     (owner_step list \<times> bool) option" where
  "stale_owner hosts pids entries b fails took1 gates took2 commits_seen t1 t2 =
     (case gate_target entries b of
        Inl _ \<Rightarrow> Some ([], False)
      | Inr e \<Rightarrow> and_then (perform fails (arm_steps hosts e)) (\<lambda>_.
         case wait_for RUNNER_NAP took1 (\<lambda>i. gate_reached (gates i) hosts) 40 t1 of
           None \<Rightarrow> None
         | Some ((Inl _, _), _, _) \<Rightarrow> Some (perform fails (invalid_steps hosts))
         | Some ((Inr held, _), _, _) \<Rightarrow>
            (case stop_steps hosts pids e held of
               Inl _ \<Rightarrow> Some ([], False)
             | Inr steps \<Rightarrow> and_then (perform fails steps) (\<lambda>_.
                case wait_for RUNNER_NAP took2 commits_seen 60 t2 of
                  None \<Rightarrow> None
                | Some ((takeover, _), _, _) \<Rightarrow> Some (perform fails (resume_steps pids e held takeover))))))"

section \<open>Collecting the evidence\<close>

text \<open>\<open>int(text)\<close>: blanks around, a sign, digits with single underscores between them.\<close>

definition is_blank :: "char \<Rightarrow> bool" where
  "is_blank c \<longleftrightarrow> c \<in> {CHR '' '', CHR 0x09, CHR 0x0A, CHR 0x0B, CHR 0x0C, CHR 0x0D, CHR 0x1C, CHR 0x1D, CHR 0x1E, CHR 0x1F}"

definition strip :: "string \<Rightarrow> string" where
  "strip s = rev (dropWhile is_blank (rev (dropWhile is_blank s)))"

definition digit_of :: "char \<Rightarrow> int option" where
  "digit_of c = (let n = int (of_char c) - 48 in if 0 \<le> n \<and> n \<le> 9 then Some n else None)"

fun digits_value :: "int \<Rightarrow> string \<Rightarrow> int result" where
  "digits_value acc [] = Inl ValueError"
| "digits_value acc [c] = (case digit_of c of None \<Rightarrow> Inl ValueError | Some d \<Rightarrow> Inr (10 * acc + d))"
| "digits_value acc (c # x # cs) =
     (case digit_of c of
        None \<Rightarrow> Inl ValueError
      | Some d \<Rightarrow> digits_value (10 * acc + d) (if x = CHR ''_'' then cs else x # cs))"

definition parse_int :: "string \<Rightarrow> int result" where
  "parse_int s =
     (case strip s of
        [] \<Rightarrow> Inl ValueError
      | c # cs \<Rightarrow>
         if c = CHR ''-'' then bindR (digits_value 0 cs) (\<lambda>n. Inr (- n))
         else if c = CHR ''+'' then digits_value 0 cs
         else digits_value 0 (c # cs))"

text \<open>A row of \<open>delivery_obligation\<close> as the client prints it: \<open>None\<close> for \<open>NULL\<close>.\<close>

record obligation_text =
  ot_event_id :: string
  ot_created_at :: "string option"
  ot_resolved_at :: "string option"
  ot_completed_at :: "string option"

record collected_obligation = obligation +
  ob_created_at :: "int option"

definition int_or_none :: "string option \<Rightarrow> int option result" where
  "int_or_none v = (case v of None \<Rightarrow> Inr None | Some s \<Rightarrow> bindR (parse_int s) (\<lambda>n. Inr (Some n)))"

definition obligation_of :: "obligation_text \<Rightarrow> collected_obligation result" where
  "obligation_of r =
     bindR (int_or_none (ot_created_at r)) (\<lambda>c.
     bindR (int_or_none (ot_resolved_at r)) (\<lambda>v.
     bindR (int_or_none (ot_completed_at r)) (\<lambda>d. Inr
       \<lparr>ob_event_id = ot_event_id r, ob_resolved_at = v, ob_completed_at = d, ob_created_at = c\<rparr>)))"

text \<open>What the environment answers: the mock's snapshot, the obligations, the partner's open inbox (by
  event), held permits and number of effects, and whether the copies at the end succeed.\<close>

record collect_input =
  ci_mock :: "(effect_row list \<times> attempt_row list) result"
  ci_obligations :: "obligation_text list result"
  ci_openInbox :: "string list result"
  ci_heldPermits :: "string list result"
  ci_effects :: "string result"
  ci_copies :: "unit result"

record collected =
  cd_mock :: "(effect_row list \<times> attempt_row list) option"
  cd_obligations :: "collected_obligation list option"
  cd_partner :: "(string list \<times> string list \<times> int) option"   \<comment> \<open>open inbox, held permits, effects\<close>
  cd_failed :: "(string \<times> py_error) list"
  cd_runJson :: bool

definition kept :: "'a result \<Rightarrow> 'a option" where
  "kept r = (case r of Inl _ \<Rightarrow> None | Inr x \<Rightarrow> Some x)"

definition failure :: "string \<Rightarrow> 'a result \<Rightarrow> (string \<times> py_error) list" where
  "failure what r = (case r of Inl e \<Rightarrow> [(what, e)] | Inr _ \<Rightarrow> [])"

definition collect :: "collect_input \<Rightarrow> collected \<times> unit result" where
  "collect i =
     (let obs = bindR (ci_obligations i) (mapR obligation_of);
          par = bindR (ci_openInbox i) (\<lambda>inbox. bindR (ci_heldPermits i) (\<lambda>held.
                bindR (ci_effects i) (\<lambda>n. bindR (parse_int n) (\<lambda>k. Inr (inbox, held, k)))))
      in (\<lparr>cd_mock = kept (ci_mock i), cd_obligations = kept obs, cd_partner = kept par,
           cd_failed = failure ''mock'' (ci_mock i) @ failure ''obligations'' obs @ failure ''partner-db'' par,
           cd_runJson = (ci_copies i = Inr ())\<rparr>, ci_copies i))"

text \<open>The files as \<open>check.py\<close> loads them: a missing one is empty.\<close>

definition checker_files :: "run_info \<Rightarrow> plan_entry list \<Rightarrow> pub_record list \<Rightarrow> collected \<Rightarrow>
    metric_sample list \<Rightarrow> trace_line list \<Rightarrow> run_files" where
  "checker_files r entries load c samples traces =
     \<lparr>f_run = r, f_trace = entries, f_load = load,
      f_obligations = map obligation.truncate (get_or [] (cd_obligations c)),
      f_effects = fst (get_or ([], []) (cd_mock c)), f_attempts = snd (get_or ([], []) (cd_mock c)),
      f_heldPermits = fst (snd (get_or ([], [], 0) (cd_partner c))),
      f_openInbox = fst (get_or ([], [], 0) (cd_partner c)),
      f_samples = samples, f_traces = traces\<rparr>"

section \<open>The frame of a run\<close>

datatype stage =
    Reset
  | CopyTrace
  | CopyLoad
  | StartSource
  | StartPartner nat
  | WaitAssigned
  | StartObserver
  | StartLoad
  | ScheduleSteps
  | WaitLoad
  | JoinSteps
  | DrainStage

datatype run_action =
    Did stage
  | TouchStop                    \<comment> \<open>\<open>(root/'observer.stop').touch()\<close>\<close>
  | WaitObserver                 \<comment> \<open>\<open>observer.wait(timeout=10)\<close>\<close>
  | KillObserver
  | KillLoad
  | Collect
  | StopAll

text \<open>What each call of the run does: it returns or raises. \<open>TimeoutError\<close> stands for \<open>TimeoutExpired\<close> of the two waits.\<close>

record run_world =
  rw_stage :: "stage \<Rightarrow> unit result"
  rw_final :: "run_action \<Rightarrow> unit result"      \<comment> \<open>the calls of the \<open>finally\<close>\<close>
  rw_loadAlive :: bool                            \<comment> \<open>\<open>load.poll() is None\<close>\<close>
  rw_check :: "run_report result"

definition stages_of :: "run_spec \<Rightarrow> stage list" where
  "stages_of sp = [Reset, CopyTrace, CopyLoad, StartSource] @ map StartPartner [0 ..< partners_at_start sp] @
     [WaitAssigned, StartObserver, StartLoad, ScheduleSteps, WaitLoad, JoinSteps, DrainStage]"

text \<open>Calls in order, up to and including the first that raises, each with its outcome.\<close>

fun attempt :: "('c \<Rightarrow> unit result) \<Rightarrow> 'c list \<Rightarrow> ('c \<times> unit result) list \<times> py_error option" where
  "attempt out [] = ([], None)"
| "attempt out (c # cs) =
     (case out c of
        Inl e \<Rightarrow> ([(c, Inl e)], Some e)
      | Inr _ \<Rightarrow> (let (ds, err) = attempt out cs in ((c, Inr ()) # ds, err)))"

definition returned :: "('c \<times> unit result) list \<Rightarrow> 'c list" where
  "returned made = map fst (filter (\<lambda>x. snd x = Inr ()) made)"

text \<open>The \<open>finally\<close> before \<open>collect\<close>. Only the timeout of \<open>observer.wait\<close> is caught, and leads to \<open>observer.kill()\<close>.\<close>

definition end_actions :: "run_world \<Rightarrow> stage list \<Rightarrow> run_action list" where
  "end_actions W started =
     (if StartObserver \<in> set started
      then [TouchStop, WaitObserver] @ (if rw_final W WaitObserver = Inl TimeoutError then [KillObserver] else []) else []) @
     (if StartLoad \<in> set started \<and> rw_loadAlive W then [KillLoad] else [])"

definition end_outcome :: "run_world \<Rightarrow> run_action \<Rightarrow> unit result" where
  "end_outcome W a = (if a = WaitObserver \<and> rw_final W a = Inl TimeoutError then Inr () else rw_final W a)"

text \<open>An exception before \<open>collect\<close> leaves the \<open>finally\<close> at once; one of \<open>collect\<close> does not keep \<open>stop_all\<close> from running,
  and one of \<open>stop_all\<close> hides it.\<close>

definition cleanup :: "run_world \<Rightarrow> stage list \<Rightarrow> (run_action \<times> unit result) list \<times> py_error option" where
  "cleanup W started =
     (case attempt (end_outcome W) (end_actions W started) of
        (made, Some e) \<Rightarrow> (made, Some e)
      | (made, None) \<Rightarrow>
          (made @ [(Collect, rw_final W Collect), (StopAll, rw_final W StopAll)],
           case (rw_final W StopAll, rw_final W Collect) of
             (Inl e, _) \<Rightarrow> Some e | (Inr _, Inl e) \<Rightarrow> Some e | (Inr _, Inr _) \<Rightarrow> None))"

text \<open>\<open>Run.execute\<close>: the calls made with their outcomes, and the checker's result or the exception. An exception of the
  clean-up hides the body's. An unknown candidate raises before anything is started.\<close>

definition run_execute :: "run_world \<Rightarrow> run_spec \<Rightarrow> (run_action \<times> unit result) list \<times> run_report result" where
  "run_execute W sp =
     (case map_of CANDIDATES (sp_candidate sp) of
        None \<Rightarrow> ([], Inl (KeyError (sp_candidate sp)))
      | Some _ \<Rightarrow>
         (let (body, err) = attempt (rw_stage W) (stages_of sp);
              (ending, err') = cleanup W (returned body)
          in (map (\<lambda>(g, r). (Did g, r)) body @ ending,
              case (err', err) of (Some e, _) \<Rightarrow> Inl e | (None, Some e) \<Rightarrow> Inl e | (None, None) \<Rightarrow> rw_check W)))"

record run_summary =
  rs_seconds :: int
  rs_safety :: "bool option"
  rs_liveness :: "bool option"
  rs_budget :: "bool option"
  rs_latency :: "bool option"
  rs_evidence :: "bool option"
  rs_error :: "py_error option"

text \<open>\<open>execute\<close>: the summary, and \<open>checks.json\<close> when it was written. \<open>rs_latency\<close> is also \<open>None\<close> when
  the run judges no phase.\<close>

definition execute :: "run_world \<Rightarrow> run_spec \<Rightarrow> rat \<Rightarrow> run_summary \<times> run_report option" where
  "execute W sp seconds =
     (case snd (run_execute W sp) of
        Inl e \<Rightarrow> (\<lparr>rs_seconds = half_even seconds, rs_safety = None, rs_liveness = None, rs_budget = None,
                    rs_latency = None, rs_evidence = None, rs_error = Some e\<rparr>, None)
      | Inr rep \<Rightarrow> (\<lparr>rs_seconds = half_even seconds, rs_safety = Some (sf_passed (rr_safety rep)),
                    rs_liveness = Some (lv_passed (rr_liveness rep)), rs_budget = Some (bg_passed (rr_budget rep)),
                    rs_latency = rr_latencyPassed rep, rs_evidence = Some (ed_passed (rr_evidence rep)),
                    rs_error = None\<rparr>, Some rep))"

section \<open>Names of different runs\<close>

text \<open>Tags have a fixed length (eight hexadecimal digits), so a run's topics and groups are its own.\<close>

lemma run_names_disjoint:
  assumes "length tag = length tag'" "tag \<noteq> tag'"
  shows "set (created_topics tag) \<inter> set (created_topics tag') = {}" "group tag \<noteq> group tag'"
    "completion_group tag \<noteq> completion_group tag'"
  using assms by (auto simp: created_topics_def topic_def completion_topic_def group_def completion_group_def)

section \<open>The fault window\<close>

lemma scenario_sends_nothing:
  assumes "scenario_steps sp bs start = Inr ss" shows "\<forall>x \<in> set ss. step_requests (snd x) = []"
proof -
  have obs: "\<forall>x \<in> set os. step_requests (snd x) = []" if os: "observer_steps bs start ws = Inr os" for ws os
  proof -
    obtain xs where xs: "mapR (\<lambda>(name, off). bindR (need name (map_of bs name)) (\<lambda>(b, e). Inr
        (if off then [(start + b, ObserverOff), (start + e, ObserverOn)] else []))) ws = Inr xs" "os = concat xs"
      using os by (auto simp: observer_steps_def bindR_Inr_iff)
    have "\<forall>x \<in> set y. step_requests (snd x) = []" if "y \<in> set xs" for y
      using mapR_range [OF xs(1) that] by (auto simp: bindR_Inr_iff split: if_splits)
    then show ?thesis by (simp add: xs(2))
  qed
  have act: "\<forall>x \<in> set ss. step_requests (snd x) = []" if "scenario_action sp bs start sc b = Inr ss" for sc b
  proof -
    consider "sc = ''observer-off''" | "(\<exists>a. ss = [a] \<and> step_requests (snd a) = []) \<or> ss = []"
      using \<open>scenario_action sp bs start sc b = Inr ss\<close> unfolding scenario_action_def
      by (auto split: if_split_asm)
    then show ?thesis
    proof cases
      case 1
      then show ?thesis using that obs by (auto simp: scenario_action_def bindR_Inr_iff)
    qed auto
  qed
  show ?thesis
  proof (cases "given (sp_scenario sp)")
    case None
    then show ?thesis using assms by (simp add: scenario_steps_def)
  next
    case (Some sc)
    then obtain b where "scenario_action sp bs start sc b = Inr ss"
      using assms by (auto simp: scenario_steps_def bindR_Inr_iff)
    then show ?thesis by (rule act)
  qed
qed

lemma due_requests_append:
  assumes "\<forall>x \<in> set ss. step_requests (snd x) = []"
  shows "due_requests (fs @ ss) t = due_requests fs t"
proof -
  have drop: "concat (map g xs) = concat (map g (filter (\<lambda>x. g x \<noteq> []) xs))"
    for g :: "rat \<times> step_action \<Rightarrow> http list" and xs
    by (induction xs) auto
  let ?g = "\<lambda>(_, a). step_requests a" and ?k = "fst :: rat \<times> step_action \<Rightarrow> rat"
  have "filter (\<lambda>x. ?g x \<noteq> []) (sort_key ?k (filter (\<lambda>s. fst s \<le> t) (fs @ ss))) =
      filter (\<lambda>x. ?g x \<noteq> []) (sort_key ?k (filter (\<lambda>s. fst s \<le> t) fs))"
  proof -
    have "filter (\<lambda>x. ?g x \<noteq> []) (filter (\<lambda>s. fst s \<le> t) ss) = []"
      using assms by (auto simp: filter_empty_conv)
    then show ?thesis unfolding filter_sort filter_append by simp
  qed
  then show ?thesis unfolding due_requests_def by (subst (1 2) drop) simp
qed

lemma reset_mock_controls:
  assumes "world_ok w"
  shows "w_controls (handle_all (reset_mock name) w) = [''*'' \<mapsto> delay_policy NORMAL_DELAY_MS]"
  using reset_result [of w name] assms by (simp add: reset_mock_def world_ok_def Let_def)

lemma handle_all_append: "handle_all (hs @ ks) w = handle_all ks (handle_all hs w)"
  by (induction hs arbitrary: w) auto

lemma delay_policy_simps [simp]: "p_delayMs (delay_policy d) = Some d"
  by (simp add: delay_policy_def)

text \<open>C22: The fault is exactly where the plan puts it. With the mock reset for the run and the timed steps
  carried out up to time \<open>t\<close>, the big seller answers after 3000 ms from the beginning of the fault
  phase to its end and after 20 ms otherwise; every other seller always answers after 20 ms, whatever
  scenario runs beside the fault.\<close>

theorem fault_window:
  assumes "schedule sp start = Inr steps" "sp_fault sp = Some ph" "ph \<noteq> []"
    and "map_of (phase_bounds (sp_phases sp)) ph = Some (b, e)" "b < e" "world_ok w" "s \<noteq> BIG_SELLER"
    and "w' = handle_all (reset_mock name @ due_requests steps t) w"
  shows "p_delayMs (policy_for (w_controls w') BIG_SELLER) =
      Some (if start + b \<le> t \<and> t < start + e then FAULT_DELAY_MS else NORMAL_DELAY_MS) \<and>
    p_delayMs (policy_for (w_controls w') s) = Some NORMAL_DELAY_MS"
proof -
  let ?f = "[(start + b, SetFault FAULT_DELAY_MS ''fault_injected''), (start + e, SetFault NORMAL_DELAY_MS ''fault_removed'')]"
  obtain ss where ss: "scenario_steps sp (phase_bounds (sp_phases sp)) start = Inr ss" "steps = ?f @ ss"
    using assms(1-4) by (auto simp: schedule_def fault_steps_def given_def bindR_Inr_iff)
  have due: "due_requests steps t = due_requests ?f t"
    unfolding ss(2) using scenario_sends_nothing [OF ss(1)] by (rule due_requests_append)
  let ?w = "handle_all (reset_mock name) w"
  have c: "w_controls ?w = [''*'' \<mapsto> delay_policy NORMAL_DELAY_MS]" using assms(6) by (rule reset_mock_controls)
  have w': "w' = handle_all (due_requests ?f t) ?w" unfolding assms(8) handle_all_append due ..
  have star: "BIG_SELLER \<noteq> ''*''" by (simp add: BIG_SELLER_def)
  consider "t < start + b" | "start + b \<le> t" "t < start + e" | "start + e \<le> t" by linarith
  then show ?thesis
  proof cases
    case 1
    then have "due_requests ?f t = []" using assms(5) by (simp add: due_requests_def)
    then show ?thesis using 1 c by (simp add: w' policy_for_def)
  next
    case 2
    then have "due_requests ?f t = [PostControl (Some BIG_SELLER) (delay_policy FAULT_DELAY_MS)]"
      by (simp add: due_requests_def)
    then show ?thesis using 2 c star assms(7) by (simp add: w' policy_for_def)
  next
    case 3
    then have "due_requests ?f t = [PostControl (Some BIG_SELLER) (delay_policy FAULT_DELAY_MS),
        PostControl (Some BIG_SELLER) (delay_policy NORMAL_DELAY_MS)]"
      using assms(5) by (simp add: due_requests_def insort_key_def)
    then show ?thesis using 3 c star assms(7) by (simp add: w' policy_for_def)
  qed
qed

definition sample_spec :: run_spec where
  "sample_spec = \<lparr>sp_label = ''e1'', sp_stage = Some ''e1'', sp_candidate = ''db-inbox'', sp_seed = 1251,
     sp_backlogLimit = Some 200, sp_phases = [(''baseline'', 90, 80), (''fault'', 180, 80)], sp_fault = Some ''fault'',
     sp_judgedPhases = Some [''fault''], sp_drainSeconds = Some 60, sp_scenario = None, sp_scenarioPhase = None,
     sp_partnersAtStart = None, sp_sellerQuota = None, sp_parallelLoadFactor = None, sp_observerWindows = None,
     sp_jvmProperties = None\<rparr>"

theorem fault_window_witness:
  "\<exists>steps. schedule sample_spec 1000 = Inr steps \<and>
     p_delayMs (policy_for (w_controls (handle_all (reset_mock ''run'' @ due_requests steps 100000)
       (boot ''d'' ''d/l''))) BIG_SELLER) = Some FAULT_DELAY_MS"
proof -
  have b: "map_of (phase_bounds (sp_phases sample_spec)) ''fault'' = Some (90000, 270000)" by code_simp
  have "case schedule sample_spec 1000 of Inl _ \<Rightarrow> False | Inr _ \<Rightarrow> True" by code_simp
  then obtain steps where st: "schedule sample_spec 1000 = Inr steps" by (auto split: sum.splits)
  have f: "sp_fault sample_spec = Some ''fault''" by (simp add: sample_spec_def)
  have "''s01'' \<noteq> BIG_SELLER" by (simp add: BIG_SELLER_def)
  from fault_window [OF st f _ b _ boot_world_ok this refl] st show ?thesis by fastforce
qed

section \<open>Cleaning up\<close>

lemma attempt_split:
  "attempt out cs = (made, err) \<Longrightarrow> \<exists>ok rest. cs = ok @ rest \<and> (\<forall>c \<in> set ok. out c = Inr ()) \<and> returned made = ok \<and>
     made = map (\<lambda>c. (c, Inr ())) ok @ (case rest of [] \<Rightarrow> [] | c # _ \<Rightarrow> [(c, out c)]) \<and>
     (case rest of [] \<Rightarrow> err = None | c # _ \<Rightarrow> \<exists>e. out c = Inl e \<and> err = Some e)"
proof (induction cs arbitrary: made err)
  case (Cons c cs)
  show ?case
  proof (cases "out c")
    case (Inl e)
    then show ?thesis using Cons.prems by (intro exI [of _ "[]"] exI [of _ "c # cs"]) (auto simp: returned_def)
  next
    case (Inr u)
    then obtain made' where made: "made = (c, Inr ()) # made'" "attempt out cs = (made', err)"
      using Cons.prems by (auto split: prod.splits)
    from Cons.IH [OF made(2)] obtain ok rest where "cs = ok @ rest" "\<forall>c \<in> set ok. out c = Inr ()" "returned made' = ok"
        "made' = map (\<lambda>c. (c, Inr ())) ok @ (case rest of [] \<Rightarrow> [] | c # _ \<Rightarrow> [(c, out c)])"
        "case rest of [] \<Rightarrow> err = None | c # _ \<Rightarrow> \<exists>e. out c = Inl e \<and> err = Some e" by blast
    then show ?thesis using Inr made(1) by (intro exI [of _ "c # ok"] exI [of _ rest]) (auto simp: returned_def)
  qed
qed (simp add: returned_def)

lemma attempt_complete: "snd (attempt out cs) = None \<longleftrightarrow> (\<forall>c \<in> set cs. out c = Inr ())"
  by (induction cs) (auto split: sum.splits prod.splits)

lemma attempt_calls: "set (map fst (fst (attempt out cs))) \<subseteq> set cs"
  by (induction cs) (force split: sum.splits prod.splits)+

text \<open>Whether the clean-up gets as far as \<open>collect\<close>.\<close>

definition ends_quietly :: "run_world \<Rightarrow> stage list \<Rightarrow> bool" where
  "ends_quietly W started \<longleftrightarrow>
     (StartObserver \<in> set started \<longrightarrow> rw_final W TouchStop = Inr () \<and>
        (rw_final W WaitObserver = Inr () \<or> rw_final W WaitObserver = Inl TimeoutError \<and> rw_final W KillObserver = Inr ())) \<and>
     (StartLoad \<in> set started \<and> rw_loadAlive W \<longrightarrow> rw_final W KillLoad = Inr ())"

lemma ends_quietly_iff: "snd (attempt (end_outcome W) (end_actions W started)) = None \<longleftrightarrow> ends_quietly W started"
  unfolding attempt_complete by (auto simp: end_actions_def end_outcome_def ends_quietly_def)

lemma end_actions_early: "Collect \<notin> set (end_actions W started)" "StopAll \<notin> set (end_actions W started)"
  by (simp_all add: end_actions_def)

lemma cleanup_cases:
  assumes "cleanup W started = (made, err)"
  shows "if ends_quietly W started
    then (\<exists>early. made = early @ [(Collect, rw_final W Collect), (StopAll, rw_final W StopAll)]) \<and>
      (err = None \<longleftrightarrow> rw_final W Collect = Inr () \<and> rw_final W StopAll = Inr ())
    else Collect \<notin> set (map fst made) \<and> StopAll \<notin> set (map fst made) \<and> err \<noteq> None"
proof -
  obtain early e where a: "attempt (end_outcome W) (end_actions W started) = (early, e)" by fastforce
  have calls: "set (map fst early) \<subseteq> set (end_actions W started)" using attempt_calls a by (metis fst_conv)
  show ?thesis
  proof (cases e)
    case None
    then have "ends_quietly W started" using ends_quietly_iff [of W started] a by simp
    moreover have "err = None \<longleftrightarrow> rw_final W Collect = Inr () \<and> rw_final W StopAll = Inr ()"
      using assms None a by (auto simp: cleanup_def split: sum.splits)
    moreover have "made = early @ [(Collect, rw_final W Collect), (StopAll, rw_final W StopAll)]"
      using assms None a by (simp add: cleanup_def)
    ultimately show ?thesis by simp
  next
    case (Some x)
    then have "\<not> ends_quietly W started" using ends_quietly_iff [of W started] a by simp
    moreover have "made = early" "err = Some x" using assms Some a by (simp_all add: cleanup_def)
    ultimately show ?thesis using calls end_actions_early by auto
  qed
qed

text \<open>C38: How a run ends. For a known candidate the stages are called in order up to the first that raises. If then the
  stop file of a started observer can be written, the observer ends (or is killed after its timeout) and a load generator
  that still runs is killed, the last two calls are the collection of the evidence and, even if that raised, the stop of all
  services; if one of those earlier calls raises, the run ends with an exception and neither is called. \<open>checks.json\<close> is
  written exactly when every stage, every call of the clean-up and the checker succeeded, and otherwise the summary
  has an exception and no verdict.\<close>

theorem run_cleans_up:
  assumes "map_of CANDIDATES (sp_candidate sp) \<noteq> None"
  shows "\<exists>ok rest ending. stages_of sp = ok @ rest \<and> (\<forall>g \<in> set ok. rw_stage W g = Inr ()) \<and>
      (case rest of [] \<Rightarrow> True | g # _ \<Rightarrow> rw_stage W g \<noteq> Inr ()) \<and>
      fst (run_execute W sp) = map (\<lambda>g. (Did g, Inr ())) ok @ (case rest of [] \<Rightarrow> [] | g # _ \<Rightarrow> [(Did g, rw_stage W g)]) @ ending \<and>
      (if ends_quietly W ok
       then \<exists>early. ending = early @ [(Collect, rw_final W Collect), (StopAll, rw_final W StopAll)]
       else Collect \<notin> set (map fst ending) \<and> StopAll \<notin> set (map fst ending) \<and> (\<exists>e. snd (run_execute W sp) = Inl e)) \<and>
    ((\<exists>rep. snd (execute W sp seconds) = Some rep) \<longleftrightarrow>
      rest = [] \<and> ends_quietly W ok \<and> rw_final W Collect = Inr () \<and> rw_final W StopAll = Inr () \<and> (\<exists>rep. rw_check W = Inr rep)) \<and>
    (snd (execute W sp seconds) = None \<longrightarrow> rs_error (fst (execute W sp seconds)) \<noteq> None \<and>
      rs_safety (fst (execute W sp seconds)) = None)"
proof -
  obtain cand where cand: "map_of CANDIDATES (sp_candidate sp) = Some cand" using assms by blast
  obtain body err where body: "attempt (rw_stage W) (stages_of sp) = (body, err)" by fastforce
  from attempt_split [OF this] obtain ok rest where ok: "stages_of sp = ok @ rest" "\<forall>g \<in> set ok. rw_stage W g = Inr ()" "returned body = ok"
      "body = map (\<lambda>g. (g, Inr ())) ok @ (case rest of [] \<Rightarrow> [] | g # _ \<Rightarrow> [(g, rw_stage W g)])"
      "case rest of [] \<Rightarrow> err = None | g # _ \<Rightarrow> \<exists>e. rw_stage W g = Inl e \<and> err = Some e" by blast
  obtain ending err' where ending: "cleanup W ok = (ending, err')" by fastforce
  have ex: "run_execute W sp = (map (\<lambda>(g, r). (Did g, r)) body @ ending,
      case (err', err) of (Some e, _) \<Rightarrow> Inl e | (None, Some e) \<Rightarrow> Inl e | (None, None) \<Rightarrow> rw_check W)"
    by (simp add: run_execute_def cand body ok(3) ending)
  have made: "fst (run_execute W sp) = map (\<lambda>g. (Did g, Inr ())) ok @ (case rest of [] \<Rightarrow> [] | g # _ \<Rightarrow> [(Did g, rw_stage W g)]) @ ending"
    unfolding ex ok(4) by (cases rest) (simp_all add: comp_def)
  note cc = cleanup_cases [OF ending]
  have stopped: "case rest of [] \<Rightarrow> True | g # _ \<Rightarrow> rw_stage W g \<noteq> Inr ()" "err = None \<longleftrightarrow> rest = []"
    using ok(5) by (auto split: list.splits)
  have raised: "\<exists>e. snd (run_execute W sp) = Inl e" if "\<not> ends_quietly W ok" using cc that by (auto simp: ex split: option.splits)
  have fin: "err' = None \<longleftrightarrow> ends_quietly W ok \<and> rw_final W Collect = Inr () \<and> rw_final W StopAll = Inr ()" using cc by (auto split: if_splits)
  have "(\<exists>rep. snd (run_execute W sp) = Inr rep) \<longleftrightarrow> err' = None \<and> err = None \<and> (\<exists>rep. rw_check W = Inr rep)"
    by (auto simp: ex split: option.splits)
  then have res: "(\<exists>rep. snd (execute W sp seconds) = Some rep) \<longleftrightarrow> rest = [] \<and> ends_quietly W ok \<and> rw_final W Collect = Inr () \<and>
      rw_final W StopAll = Inr () \<and> (\<exists>rep. rw_check W = Inr rep)"
    unfolding fin stopped(2) by (auto simp: execute_def split: sum.splits)
  have none: "snd (execute W sp seconds) = None \<Longrightarrow> rs_error (fst (execute W sp seconds)) \<noteq> None \<and> rs_safety (fst (execute W sp seconds)) = None"
    by (auto simp: execute_def split: sum.splits)
  show ?thesis
    by (rule exI [of _ ok], rule exI [of _ rest], rule exI [of _ ending], intro conjI)
      (use ok(1,2) stopped(1) made cc raised res none in \<open>auto split: if_splits\<close>)
qed

definition broken_world :: run_world where
  "broken_world = \<lparr>rw_stage = (\<lambda>g. if g = WaitLoad then Inl TimeoutError else Inr ()),
     rw_final = (\<lambda>a. if a = WaitObserver \<or> a = Collect then Inl TimeoutError else Inr ()), rw_loadAlive = True, rw_check = Inl TypeError\<rparr>"

theorem run_cleans_up_witness:
  "(\<exists>made. fst (run_execute broken_world sample_spec) = made @ [(Collect, Inl TimeoutError), (StopAll, Inr ())]) \<and>
   rs_error (fst (execute broken_world sample_spec 100)) \<noteq> None"
proof -
  have "map_of CANDIDATES (sp_candidate sample_spec) \<noteq> None" by code_simp
  from run_cleans_up [OF this, of broken_world 100]
  obtain ok rest ending where r: "fst (run_execute broken_world sample_spec) =
        map (\<lambda>g. (Did g, Inr ())) ok @ (case rest of [] \<Rightarrow> [] | g # _ \<Rightarrow> [(Did g, rw_stage broken_world g)]) @ ending"
      "if ends_quietly broken_world ok
       then \<exists>early. ending = early @ [(Collect, rw_final broken_world Collect), (StopAll, rw_final broken_world StopAll)]
       else Collect \<notin> set (map fst ending) \<and> StopAll \<notin> set (map fst ending) \<and> (\<exists>e. snd (run_execute broken_world sample_spec) = Inl e)"
      "(\<exists>rep. snd (execute broken_world sample_spec 100) = Some rep) \<longleftrightarrow>
        rest = [] \<and> ends_quietly broken_world ok \<and> rw_final broken_world Collect = Inr () \<and> rw_final broken_world StopAll = Inr () \<and>
        (\<exists>rep. rw_check broken_world = Inr rep)"
      "snd (execute broken_world sample_spec 100) = None \<longrightarrow> rs_error (fst (execute broken_world sample_spec 100)) \<noteq> None \<and>
        rs_safety (fst (execute broken_world sample_spec 100)) = None" by (elim exE conjE) (rule that)
  have q: "ends_quietly broken_world ok" by (simp add: ends_quietly_def broken_world_def)
  have w: "rw_final broken_world Collect = Inl TimeoutError" "rw_final broken_world StopAll = Inr ()" by (simp_all add: broken_world_def)
  from r(2) q w have "\<exists>early. ending = early @ [(Collect, Inl TimeoutError), (StopAll, Inr ())]" by simp
  then obtain early where early: "ending = early @ [(Collect, Inl TimeoutError), (StopAll, Inr ())]" ..
  have "fst (run_execute broken_world sample_spec) =
      (map (\<lambda>g. (Did g, Inr ())) ok @ (case rest of [] \<Rightarrow> [] | g # _ \<Rightarrow> [(Did g, rw_stage broken_world g)]) @ early) @
        [(Collect, Inl TimeoutError), (StopAll, Inr ())]"
    using r(1) early by simp
  moreover have "rs_error (fst (execute broken_world sample_spec 100)) \<noteq> None" using r(3,4) w by auto
  ultimately show ?thesis by blast
qed

section \<open>The stopped owner is resumed\<close>

definition commands :: "owner_step list \<Rightarrow> owner_cmd list" where
  "commands ss = concat (map (\<lambda>x. case x of Cmd c \<Rightarrow> [c] | Note _ \<Rightarrow> []) ss)"

lemma commands_simps [simp]:
  "commands [] = []" "commands (Cmd c # ss) = c # commands ss" "commands (Note n # ss) = commands ss"
  "commands (xs @ ys) = commands xs @ commands ys"
  by (simp_all add: commands_def)

lemma perform_all: "perform (\<lambda>_. False) ss = (ss, True)"
  by (induction "\<lambda>_ :: owner_cmd. False" ss rule: perform.induct) auto

lemma gate_host: "gate_reached has_file hosts = Inr (Some h) \<Longrightarrow> h \<in> set hosts"
  by (induction hosts) (auto simp: bindR_Inr_iff split: if_splits)

lemma runner_wait:
  assumes "\<forall>i. 0 \<le> took i" "0 < (timeout :: rat)"
  shows "\<exists>res e n t. wait_for RUNNER_NAP took looks timeout now = Some ((res, e), n, t) \<and>
    (\<forall>v. res = Inr v \<longrightarrow> (\<exists>i. looks i = Inr (Some v)))"
proof -
  have "0 < RUNNER_NAP" by (simp add: RUNNER_NAP_def)
  from this assms(1) show ?thesis
  proof (cases rule: poll_loop_ends [of RUNNER_NAP took "wait_look looks" None now "now + timeout"])
    case (stopped n s' r)
    have "looks n = Inr (Some r)" using stopped(2) by (auto simp: wait_look_def split: sum.splits option.splits)
    then show ?thesis using poll_loop_value [OF stopped] by (auto simp: wait_for_def)
  next
    case (late n s')
    then show ?thesis using poll_loop_late [OF late] by (auto simp: wait_for_def)
  qed
qed

text \<open>The takeover scenario leaves no process stopped. With two partners, when an operation to hold
  exists and no command fails, the step ends and its commands are one of two lists: the gate was never
  reached, nothing is stopped and both hosts are disarmed; or the owner that reached the gate is stopped,
  the other host disarmed, and, whether or not the takeover was confirmed in time, the owner disarmed and
  continued with the same process id.\<close>

lemma stale_owner_resumes:
  assumes "gate_target entries b = Inr ev" "h1 \<noteq> h2" "map_of pids h1 = Some p1" "map_of pids h2 = Some p2"
    and "\<forall>i. 0 \<le> took1 i" "\<forall>i. 0 \<le> took2 i"
  shows "\<exists>steps. stale_owner [h1, h2] pids entries b (\<lambda>_. False) took1 gates took2 seen t1 t2 = Some (steps, True) \<and>
    (commands steps = [Arm h1 ev, Arm h2 ev, DisarmQuietly h1, DisarmQuietly h2] \<or>
     (\<exists>i held other pid. gate_reached (gates i) [h1, h2] = Inr (Some held) \<and> {held, other} = {h1, h2} \<and>
        map_of pids held = Some pid \<and> commands steps = [Arm h1 ev, Arm h2 ev, StopProcess held pid, Disarm other,
          Disarm held, ContProcess held pid]))"
proof -
  obtain gate g1 n1 u1 where w1:
      "wait_for RUNNER_NAP took1 (\<lambda>i. gate_reached (gates i) [h1, h2]) 40 t1 = Some ((gate, g1), n1, u1)"
      "\<forall>v. gate = Inr v \<longrightarrow> (\<exists>i. gate_reached (gates i) [h1, h2] = Inr (Some v))"
    using runner_wait [OF assms(5), of 40 "\<lambda>i. gate_reached (gates i) [h1, h2]" t1] zero_less_numeral by blast
  obtain takeover g2 n2 u2 where w2: "wait_for RUNNER_NAP took2 seen 60 t2 = Some ((takeover, g2), n2, u2)"
    using runner_wait [OF assms(6), of 60 seen t2] zero_less_numeral by blast
  show ?thesis
  proof (cases gate)
    case (Inl e)
    then have "stale_owner [h1, h2] pids entries b (\<lambda>_. False) took1 gates took2 seen t1 t2 =
        Some (arm_steps [h1, h2] ev @ invalid_steps [h1, h2], True)"
      using w1(1) by (simp add: stale_owner_def assms(1) perform_all and_then_def del: gate_reached.simps)
    then show ?thesis by (simp add: arm_steps_def invalid_steps_def del: gate_reached.simps)
  next
    case (Inr held)
    then obtain i where i: "gate_reached (gates i) [h1, h2] = Inr (Some held)" using w1(2) by blast
    then have h: "held = h1 \<or> held = h2" using gate_host by fastforce
    define other where "other = (if held = h1 then h2 else h1)"
    obtain pid where pid: "map_of pids held = Some pid" using h assms(3,4) by auto
    have other: "find (\<lambda>h. h \<noteq> held) [h1, h2] = Some other" "{held, other} = {h1, h2}"
      using h assms(2) by (auto simp: other_def)
    have "stale_owner [h1, h2] pids entries b (\<lambda>_. False) took1 gates took2 seen t1 t2 =
        Some (arm_steps [h1, h2] ev @ [Cmd (StopProcess held pid), Cmd (Disarm other), Note (OwnerStopped held ev)] @
          resume_steps pids ev held takeover, True)"
      using Inr w1(1) w2 other(1) pid
      by (simp add: stale_owner_def assms(1) perform_all and_then_def stop_steps_def del: gate_reached.simps find.simps)
    moreover have "commands (arm_steps [h1, h2] ev @
        [Cmd (StopProcess held pid), Cmd (Disarm other), Note (OwnerStopped held ev)] @
        resume_steps pids ev held takeover) = [Arm h1 ev, Arm h2 ev, StopProcess held pid, Disarm other,
          Disarm held, ContProcess held pid]"
      using pid by (simp add: arm_steps_def resume_steps_def)
    ultimately show ?thesis using i other(2) pid by blast
  qed
qed

lemma stale_owner_resumes_witness:
  "\<exists>steps. stale_owner [''partner-1'', ''partner-2''] [(''partner-1'', 11), (''partner-2'', 12)]
      [\<lparr>pe_offset = 96000, pe_phase = ''scenario'', pe_event = first_event\<lparr>ev_sellerId := ''s01''\<rparr>\<rparr>] 90000 (\<lambda>_. False)
      (\<lambda>i. 1 / 8) (\<lambda>i h. Inr (h = ''partner-2'' \<and> 3 \<le> i)) (\<lambda>i. 1 / 8) (\<lambda>i. Inl RuntimeError) 0 20 = Some (steps, True)"
proof -
  have "gate_target [\<lparr>pe_offset = 96000, pe_phase = ''scenario'', pe_event = first_event\<lparr>ev_sellerId := ''s01''\<rparr>\<rparr>] 90000 =
      Inr ''e1''" by code_simp
  from stale_owner_resumes [OF this, of "''partner-1''" "''partner-2''" "[(''partner-1'', 11), (''partner-2'', 12)]" 11 12
      "\<lambda>i. 1 / 8" "\<lambda>i. 1 / 8" "\<lambda>i h. Inr (h = ''partner-2'' \<and> 3 \<le> i)" "\<lambda>i. Inl RuntimeError" 0 20]
  show ?thesis by auto
qed

section \<open>Evidence that was not collected\<close>

text \<open>Evidence that could not be collected counts in favour of the run. When the seller's ledger is not
  collected, the safety verdict passes whenever the partners' logs show no stale write and the budget verdict
  passes, whatever the seller received; when the partner database cannot be read, the liveness verdict is
  that of a run that holds no permit and no open inbox row.\<close>

lemma uncollected_evidence_passes:
  assumes "F = checker_files r entries load (fst (collect i)) samples traces" "ci_mock i = Inl e1"
    and "ci_openInbox i = Inl e2" "stale_writes traces = Inr []" "0 \<le> l_global lims" "0 \<le> l_seller lims"
    and "0 \<le> l_retryPerSecond lims"
  shows "(\<exists>rep. check_safety plan (f_effects F) (f_attempts F) traces = Inr rep \<and> sf_passed rep) \<and>
    bg_passed (check_budget lims eoo (f_attempts F)) \<and>
    check_liveness trace plan load obs effs (f_heldPermits F) (f_openInbox F) =
      check_liveness trace plan load obs effs [] []"
proof -
  have "f_effects F = []" "f_attempts F = []" "f_heldPermits F = []" "f_openInbox F = []"
    using assms(1-3) by (simp_all add: checker_files_def collect_def kept_def Let_def)
  moreover have "bg_passed (check_budget lims eoo [])"
    using assms(5-7)
    by (simp add: check_budget_def Let_def peaks_def group_by_def max_overlap_def overlap_points_def max_default_def
        retries_by_seller_def attempts_in_order_def)
  ultimately show ?thesis
    using assms(4)
    by (simp add: check_safety_def Let_def duplicate_events_def unknown_events_def mismatched_events_def
        order_breaks_def out_of_order_def by_event_def group_by_def)
qed

lemma uncollected_evidence_passes_witness:
  "bg_passed (check_budget small_limits 0 (f_attempts (checker_files (f_run sample_run) [] []
     (fst (collect \<lparr>ci_mock = Inl TimeoutError, ci_obligations = Inr [], ci_openInbox = Inl RuntimeError,
        ci_heldPermits = Inr [''slow''], ci_effects = Inr ''12'', ci_copies = Inr ()\<rparr>)) [] [])))"
proof -
  let ?i = "\<lparr>ci_mock = Inl TimeoutError, ci_obligations = Inr [], ci_openInbox = Inl RuntimeError,
        ci_heldPermits = Inr [''slow''], ci_effects = Inr ''12'', ci_copies = Inr ()\<rparr>"
  have s: "stale_writes [] = Inr []" by code_simp
  have l: "0 \<le> l_global small_limits" "0 \<le> l_seller small_limits" "0 \<le> l_retryPerSecond small_limits"
    by (simp_all add: small_limits_def)
  show ?thesis
    using uncollected_evidence_passes [OF refl _ _ s l, where i = ?i and ?e1.0 = TimeoutError and ?e2.0 = RuntimeError
        and r = "f_run sample_run" and entries = "[]" and load = "[]" and samples = "[]" and eoo = 0]
    by simp
qed

end
