(* ===== verification/Suite.thy ===== *)
theory Suite
  imports Runner
begin

text \<open>
  The experiment plan, \<open>experiments/isolation/suite.py\<close>: the specifications of the stages, the budget
  guard, the input-rate rule after C0, the selection rules after E1 and the whole plan as one function
  of the suite's state. The runs themselves are those of \<open>Runner\<close>; how long each took and what its
  environment did are arguments, as are the permutations that \<open>random.Random(seed).sample\<close> draws (as
  lists of indices, by seed and length) and the outcome of the instrument checks G0.
\<close>

section \<open>Specifications of the stages\<close>

definition SEEDS :: "int list" where "SEEDS = [1251, 1252, 1253]"
definition EXTRA_SEEDS :: "int list" where "EXTRA_SEEDS = [1254, 1255]"
definition KAFKA :: "string list" where "KAFKA = [''kafka-bucket'', ''kafka-retry'']"
definition ALL_CANDIDATES :: "string list" where "ALL_CANDIDATES = KAFKA @ [''db-inbox'']"

definition MINUTES :: "(string \<times> rat) list" where
  "MINUTES = [(''e1'', 9), (''e2'', 9), (''e3'', 6), (''e4'', 6), (''c0'', 6)]"

definition minutes_of :: "string \<Rightarrow> rat" where
  "minutes_of stage = get_or 0 (map_of MINUTES stage)"

definition bare_spec :: "string \<Rightarrow> string \<Rightarrow> string \<Rightarrow> int \<Rightarrow> phase list \<Rightarrow> run_spec" where
  "bare_spec label stage candidate seed phases =
     \<lparr>sp_label = label, sp_stage = Some stage, sp_candidate = candidate, sp_seed = seed, sp_backlogLimit = None,
      sp_phases = phases, sp_fault = None, sp_judgedPhases = None, sp_drainSeconds = None, sp_scenario = None,
      sp_scenarioPhase = None, sp_partnersAtStart = None, sp_sellerQuota = None, sp_parallelLoadFactor = None,
      sp_observerWindows = None, sp_jvmProperties = None\<rparr>"

definition e1_spec :: "string \<Rightarrow> int \<Rightarrow> rat \<Rightarrow> int \<Rightarrow> string \<Rightarrow> run_spec" where
  "e1_spec candidate seed rate backlog label =
     (bare_spec (label @ ''-'' @ candidate @ ''-s'' @ show_int seed) label candidate seed
        [(''warmup'', 90, rate), (''baseline'', 90, rate), (''fault'', 180, rate), (''recovery'', 90, rate)])
     \<lparr>sp_backlogLimit := Some backlog, sp_fault := Some ''fault'', sp_judgedPhases := Some [''fault'', ''recovery''],
      sp_drainSeconds := Some 60\<rparr>"

definition r1_spec :: "string \<Rightarrow> int \<Rightarrow> rat \<Rightarrow> rat \<Rightarrow> run_spec" where
  "r1_spec candidate seed rate fault_seconds =
     (e1_spec candidate seed rate 2000 (if fault_seconds = 180 then ''r1'' else ''r1long''))
     \<lparr>sp_phases := [(''warmup'', 90, rate), (''baseline'', 90, rate), (''fault'', fault_seconds, rate), (''recovery'', 90, rate)],
      sp_sellerQuota := Some 200\<rparr>"

definition e3_spec :: "string \<Rightarrow> int \<Rightarrow> rat \<Rightarrow> string \<Rightarrow> run_spec" where
  "e3_spec candidate seed rate condition =
     (let sp = (bare_spec (''e3-'' @ condition @ ''-'' @ candidate @ ''-s'' @ show_int seed) ''e3'' candidate seed
            [(''warmup'', 90, rate), (''scenario'', 150, rate)])
          \<lparr>sp_scenarioPhase := Some ''scenario'', sp_drainSeconds := Some 90, sp_judgedPhases := Some [''scenario'']\<rparr>
      in if condition = ''scale''
         then sp\<lparr>sp_scenario := Some ''scale'', sp_fault := Some ''scenario'', sp_partnersAtStart := Some 1\<rparr>
         else sp\<lparr>sp_scenario := Some ''stale'', sp_partnersAtStart := Some 2\<rparr>)"

definition e4_spec :: "string \<Rightarrow> int \<Rightarrow> rat \<Rightarrow> run_spec" where
  "e4_spec candidate seed rate =
     (bare_spec (''e4-'' @ candidate @ ''-s'' @ show_int seed) ''e4'' candidate seed
        [(''warmup'', 90, rate), (''input'', 120, rate), (''after'', 60, rate)])
     \<lparr>sp_fault := Some ''input'', sp_scenario := Some ''observer-pause'', sp_scenarioPhase := Some ''input'',
      sp_judgedPhases := Some [''input'', ''after''], sp_drainSeconds := Some 60\<rparr>"

definition c0_spec :: "string \<Rightarrow> int \<Rightarrow> run_spec" where
  "c0_spec candidate seed =
     (bare_spec (''c0-'' @ candidate) ''c0'' candidate seed
        [(''warmup'', 90, 40), (''r40'', 60, 40), (''r80'', 60, 80), (''r160'', 60, 160)])\<lparr>sp_drainSeconds := Some 60\<rparr>"

section \<open>The suite's state and the budget guard\<close>

text \<open>What \<open>note\<close> logs. \<open>Planned\<close> carries the minutes the run is planned for and the clock.\<close>

datatype suite_event =
    NotRun run_spec
  | Planned run_spec rat rat
  | Finished run_spec run_summary
  | NotedG0 bool
  | NotedC0 "(string \<times> bool) list" rat
  | Selection string string "(string \<times> rat list) list"
  | Stopped
  | Done rat

record suite =
  su_clock :: rat        \<comment> \<open>\<open>time.monotonic()\<close>, in seconds\<close>
  su_deadline :: rat
  su_runs :: nat         \<comment> \<open>runs started so far\<close>
  su_log :: "suite_event list"

definition suite_note :: "suite_event \<Rightarrow> suite \<Rightarrow> suite" where
  "suite_note e s = s\<lparr>su_log := su_log s @ [e]\<rparr>"

definition open_suite :: "rat \<Rightarrow> rat \<Rightarrow> suite" where
  "open_suite now budget_minutes =
     \<lparr>su_clock = now, su_deadline = fl (now + fl (budget_minutes * 60)), su_runs = 0, su_log = []\<rparr>"

definition remaining_minutes :: "suite \<Rightarrow> rat" where
  "remaining_minutes s = fl (fl (su_deadline s - su_clock s) / 60)"

text \<open>The files that C0 reads back: \<open>run.json\<close> (phase bounds and start), the obligations and the
  seller's effects, where they exist.\<close>

record c0_files =
  cf_run :: "(bounds \<times> rat) option"
  cf_obligations :: "collected_obligation list option"
  cf_effects :: "effect_row list option"

record run_outcome =
  oc_world :: run_world
  oc_seconds :: rat
  oc_files :: c0_files

type_synonym env = "nat \<Rightarrow> run_spec \<Rightarrow> run_outcome"

definition suite_run :: "env \<Rightarrow> run_spec \<Rightarrow> rat \<Rightarrow> suite \<Rightarrow> suite \<times> c0_files option \<times> run_report option" where
  "suite_run env sp minutes s =
     (if remaining_minutes s < minutes + 1 then (suite_note (NotRun sp) s, None, None)
      else let out = env (su_runs s) sp;
               (summary, rep) = execute (oc_world out) sp (oc_seconds out);
               s1 = suite_note (Planned sp minutes (su_clock s)) s;
               s2 = s1\<lparr>su_clock := su_clock s1 + oc_seconds out, su_runs := Suc (su_runs s1)\<rparr>
           in (suite_note (Finished sp summary) s2, Some (oc_files out), rep))"

fun run_specs :: "env \<Rightarrow> (run_spec \<times> rat) list \<Rightarrow> suite \<Rightarrow> suite \<times> run_report option list" where
  "run_specs env [] s = (s, [])"
| "run_specs env ((sp, m) # ps) s =
     (let (s1, _, rep) = suite_run env sp m s; (s2, reps) = run_specs env ps s1 in (s2, rep # reps))"

text \<open>\<open>random.Random(seed).sample(xs, len(xs))\<close>.\<close>

definition sampled :: "(int \<Rightarrow> nat \<Rightarrow> nat list) \<Rightarrow> int \<Rightarrow> 'a list \<Rightarrow> 'a list" where
  "sampled perm seed xs = map (\<lambda>i. xs ! i) (perm seed (length xs))"

section \<open>C0: the input rate\<close>

definition count_within :: "rat \<Rightarrow> rat \<Rightarrow> int list \<Rightarrow> int" where
  "count_within t1 t2 xs = int (length (filter (\<lambda>x. t1 \<le> of_int x \<and> of_int x < t2) xs))"

definition count_before :: "rat \<Rightarrow> int list \<Rightarrow> int" where
  "count_before t xs = int (length (filter (\<lambda>x. of_int x < t) xs))"

definition backlog :: "int list \<Rightarrow> int list \<Rightarrow> rat \<Rightarrow> int" where
  "backlog created done_at t = count_before t created - count_before t (sort done_at)"

definition stable_counts :: "int list \<Rightarrow> int list \<Rightarrow> rat \<Rightarrow> rat \<Rightarrow> bool" where
  "stable_counts created effect_at t1 t2 =
     (let arrived = count_within t1 t2 created; completed = count_within t1 t2 effect_at;
          growth = backlog created effect_at t2 - backlog created effect_at t1
      in 0 < arrived \<and> fl (fl (95 / 100) * of_int arrived) \<le> of_int completed \<and>
         of_int growth \<le> fl (fl (5 / 100) * of_int arrived))"

definition read_file :: "'a option \<Rightarrow> 'a result" where
  "read_file f = (case f of None \<Rightarrow> Inl FileNotFoundError | Some x \<Rightarrow> Inr x)"

text \<open>A \<open>created_at\<close> that is \<open>None\<close> cannot be compared.\<close>

definition created_times :: "collected_obligation list \<Rightarrow> int list result" where
  "created_times obs = mapR (\<lambda>ob. case ob_created_at ob of None \<Rightarrow> Inl TypeError | Some c \<Rightarrow> Inr c) obs"

definition stable_at_80 :: "c0_files \<Rightarrow> bool result" where
  "stable_at_80 f =
     bindR (read_file (cf_run f)) (\<lambda>(bs, start_at).
     bindR (need ''r80'' (map_of bs ''r80'')) (\<lambda>(_, fin).
     bindR (read_file (cf_obligations f)) (\<lambda>obs.
     bindR (read_file (cf_effects f)) (\<lambda>effs.
     bindR (created_times obs) (\<lambda>created.
       Inr (stable_counts created (map er_effect_at effs) (start_at + fin - 30000) (start_at + fin)))))))"

fun c0_runs :: "env \<Rightarrow> string list \<Rightarrow> suite \<Rightarrow> suite \<times> (string \<times> bool) list result" where
  "c0_runs env [] s = (s, Inr [])"
| "c0_runs env (c # cs) s =
     (let (s1, path, _) = suite_run env (c0_spec c 1250) (minutes_of ''c0'') s
      in case (case path of None \<Rightarrow> Inr False | Some f \<Rightarrow> stable_at_80 f) of
           Inl e \<Rightarrow> (s1, Inl e)
         | Inr ok \<Rightarrow> (let (s2, rest) = c0_runs env cs s1 in (s2, bindR rest (\<lambda>rs. Inr ((c, ok) # rs)))))"

definition suite_c0 :: "env \<Rightarrow> (int \<Rightarrow> nat \<Rightarrow> nat list) \<Rightarrow> suite \<Rightarrow> suite \<times> rat result" where
  "suite_c0 env perm s =
     (let (s1, rates) = c0_runs env (sampled perm 1250 ALL_CANDIDATES) s
      in case rates of
           Inl e \<Rightarrow> (s1, Inl e)
         | Inr rs \<Rightarrow> (let rate = (if list_all snd rs then 80 else 40) in (suite_note (NotedC0 rs rate) s1, Inr rate)))"

section \<open>Selection after E1\<close>

text \<open>\<open>statistics.median\<close> of floats.\<close>

definition median :: "rat list \<Rightarrow> rat result" where
  "median xs =
     (let s = sort xs; n = length xs
      in if n = 0 then Inl StatisticsError
         else if odd n then Inr (s ! (n div 2))
         else Inr (fl (fl (s ! (n div 2 - 1) + s ! (n div 2)) / 2)))"

definition normal_cohort :: "run_report \<Rightarrow> string \<Rightarrow> cohort_report option" where
  "normal_cohort rep phase = map_of (get_or [] (map_of (la_cohorts (rr_latency rep)) phase)) ''normal''"

definition miss_or_zero :: "cohort_report option \<Rightarrow> rat" where
  "miss_or_zero c = (case c of None \<Rightarrow> 0 | Some x \<Rightarrow> get_or 0 (co_missRate x))"

definition judged_miss :: "run_report \<Rightarrow> rat" where
  "judged_miss rep = max (miss_or_zero (normal_cohort rep ''fault'')) (miss_or_zero (normal_cohort rep ''recovery''))"

type_synonym results = "string \<Rightarrow> run_report option list"

definition completed_runs :: "results \<Rightarrow> string \<Rightarrow> run_report list" where
  "completed_runs res c = concat (map (\<lambda>r. case r of None \<Rightarrow> [] | Some x \<Rightarrow> [x]) (res c))"

definition safe :: "results \<Rightarrow> string \<Rightarrow> bool" where
  "safe res c \<longleftrightarrow> res c \<noteq> [] \<and>
     list_all (\<lambda>r. case r of None \<Rightarrow> False | Some x \<Rightarrow> sf_passed (rr_safety x)) (res c)"

text \<open>\<open>None\<close> is \<open>math.inf\<close>.\<close>

definition median_miss :: "results \<Rightarrow> string \<Rightarrow> rat option result" where
  "median_miss res c =
     (if res c = [] then Inr None
      else bindR (median (map judged_miss (completed_runs res c))) (\<lambda>m. Inr (Some m)))"

definition meets :: "results \<Rightarrow> string \<Rightarrow> bool" where
  "meets res c \<longleftrightarrow> safe res c \<and> length (res c) = 3 \<and>
     list_all (\<lambda>r. case r of None \<Rightarrow> False | Some x \<Rightarrow> judged_miss x \<le> fl (1 / 100)) (res c)"

text \<open>The sort keys \<open>(median, tie)\<close>; an infinite median comes after every finite one.\<close>

definition miss_key :: "rat option \<Rightarrow> bool \<Rightarrow> (nat \<times> rat) \<times> nat" where
  "miss_key m preferred = ((case m of None \<Rightarrow> (1, 0) | Some x \<Rightarrow> (0, x)), if preferred then 0 else 1)"

definition close_medians :: "rat option \<Rightarrow> rat option \<Rightarrow> bool" where
  "close_medians a b = (case (a, b) of (Some x, Some y) \<Rightarrow> \<bar>fl (x - y)\<bar> < fl (5 / 1000) | _ \<Rightarrow> False)"

definition with_median :: "results \<Rightarrow> string \<Rightarrow> (rat option \<times> string) result" where
  "with_median res c = bindR (median_miss res c) (\<lambda>m. Inr (m, c))"

definition kafka_candidates :: "results \<Rightarrow> string list" where
  "kafka_candidates res = (if filter (safe res) KAFKA = [] then KAFKA else filter (safe res) KAFKA)"

definition kafka_ranking :: "results \<Rightarrow> (rat option \<times> string) list result" where
  "kafka_ranking res = bindR (mapR (with_median res) (kafka_candidates res))
     (\<lambda>ms. Inr (sort_key (\<lambda>(m, c). miss_key m (c = ''kafka-bucket'')) ms))"

definition best_kafka :: "(rat option \<times> string) list \<Rightarrow> string" where
  "best_kafka ranking =
     (case ranking of
        (m0, c0) # (m1, c1) # _ \<Rightarrow> if close_medians m0 m1 then ''kafka-bucket'' else c0
      | (m0, c0) # _ \<Rightarrow> c0
      | [] \<Rightarrow> [])"

definition final_structure :: "results \<Rightarrow> string \<Rightarrow> string result" where
  "final_structure res best =
     (if meets res best then Inr best
      else if meets res ''db-inbox'' then Inr ''db-inbox''
      else bindR (median_miss res best) (\<lambda>m0. bindR (median_miss res ''db-inbox'') (\<lambda>m1.
        Inr (if miss_key m1 False < miss_key m0 (best \<noteq> ''db-inbox'') then ''db-inbox'' else best))))"

definition pick_structure :: "results \<Rightarrow> (string \<times> string) result" where
  "pick_structure res =
     bindR (kafka_ranking res) (\<lambda>ranking. let best = best_kafka ranking in
     bindR (final_structure res best) (\<lambda>final. Inr (best, final)))"

section \<open>The whole plan\<close>

definition e1_plan :: "(int \<Rightarrow> nat \<Rightarrow> nat list) \<Rightarrow> rat \<Rightarrow> (run_spec \<times> rat) list" where
  "e1_plan perm rate = concat (map (\<lambda>seed.
     map (\<lambda>c. (e1_spec c seed rate 200 ''e1'', minutes_of ''e1'')) (sampled perm seed ALL_CANDIDATES)) SEEDS)"

definition e2_plan :: "rat \<Rightarrow> (run_spec \<times> rat) list" where
  "e2_plan rate = map (\<lambda>seed. (e1_spec ''db-inbox'' seed rate 2000 ''e2'', minutes_of ''e2'')) SEEDS"

definition e3_plan :: "(int \<Rightarrow> nat \<Rightarrow> nat list) \<Rightarrow> rat \<Rightarrow> string \<Rightarrow> (run_spec \<times> rat) list" where
  "e3_plan perm rate best = concat (map (\<lambda>seed.
     map (\<lambda>(c, cond). (e3_spec c seed rate cond, minutes_of ''e3''))
       (sampled perm (seed + 30) (List.product [''db-inbox'', best] [''scale'', ''stale'']))) SEEDS)"

definition e4_plan :: "rat \<Rightarrow> string \<Rightarrow> (run_spec \<times> rat) list" where
  "e4_plan rate final = map (\<lambda>seed. (e4_spec final seed rate, minutes_of ''e4'')) SEEDS"

definition r1_plan :: "(int \<Rightarrow> nat \<Rightarrow> nat list) \<Rightarrow> rat \<Rightarrow> (run_spec \<times> rat) list" where
  "r1_plan perm rate = concat (map (\<lambda>seed.
     map (\<lambda>c. (r1_spec c seed rate 180, minutes_of ''e1'')) (sampled perm (seed + 50) ALL_CANDIDATES)) SEEDS)"

definition r1long_plan :: "(int \<Rightarrow> nat \<Rightarrow> nat list) \<Rightarrow> rat \<Rightarrow> (run_spec \<times> rat) list" where
  "r1long_plan perm rate = concat (map (\<lambda>seed.
     map (\<lambda>c. (r1_spec c seed rate 600, 16)) (sampled perm (seed + 60) [''db-inbox'', ''kafka-retry''])) SEEDS)"

definition extra_plan :: "(int \<Rightarrow> nat \<Rightarrow> nat list) \<Rightarrow> rat \<Rightarrow> string \<Rightarrow> (run_spec \<times> rat) list" where
  "extra_plan perm rate best = concat (map (\<lambda>seed.
     map (\<lambda>c. (e1_spec c seed rate 200 ''e1x'', minutes_of ''e1'')) (sampled perm seed [''db-inbox'', best])) EXTRA_SEEDS)"

definition later_plan :: "(int \<Rightarrow> nat \<Rightarrow> nat list) \<Rightarrow> string list \<Rightarrow> rat \<Rightarrow> string \<Rightarrow> string \<Rightarrow> (run_spec \<times> rat) list" where
  "later_plan perm stages rate best final =
     (if ''e2'' \<in> set stages then e2_plan rate else []) @
     (if ''e3'' \<in> set stages then e3_plan perm rate best else []) @
     (if ''e4'' \<in> set stages then e4_plan rate final else []) @
     (if ''r1'' \<in> set stages then r1_plan perm rate else []) @
     (if ''r1long'' \<in> set stages then r1long_plan perm rate else [])"

definition e1_results :: "(run_spec \<times> rat) list \<Rightarrow> run_report option list \<Rightarrow> results" where
  "e1_results plan reps c = map snd (filter (\<lambda>((sp, _), _). sp_candidate sp = c) (zip plan reps))"

text \<open>G0, when asked for, takes its own time and passes or not.\<close>

definition suite_g0 :: "bool \<times> rat \<Rightarrow> suite \<Rightarrow> suite" where
  "suite_g0 g0 s = suite_note (NotedG0 (fst g0)) (s\<lparr>su_clock := su_clock s + snd g0\<rparr>)"

definition finish_suite :: "env \<Rightarrow> (int \<Rightarrow> nat \<Rightarrow> nat list) \<Rightarrow> string list \<Rightarrow> rat \<Rightarrow> string \<times> string \<Rightarrow> suite \<Rightarrow> suite" where
  "finish_suite env perm stages rate choice s =
     (let s1 = fst (run_specs env (later_plan perm stages rate (fst choice) (snd choice)) s);
          s2 = (if ''e1'' \<in> set stages \<and> 2 * 2 * minutes_of ''e1'' + 4 \<le> remaining_minutes s1
                then fst (run_specs env (extra_plan perm rate (fst choice)) s1) else s1)
      in suite_note (Done (py_round 1 (remaining_minutes s2))) s2)"

definition suite_from_rate ::
    "env \<Rightarrow> (int \<Rightarrow> nat \<Rightarrow> nat list) \<Rightarrow> string list \<Rightarrow> rat \<Rightarrow> suite \<Rightarrow> suite \<times> unit result" where
  "suite_from_rate env perm stages rate s =
     (if ''e1'' \<in> set stages
      then (let plan = e1_plan perm rate; (s1, reps) = run_specs env plan s; res = e1_results plan reps
            in case pick_structure res of
                 Inl e \<Rightarrow> (s1, Inl e)
               | Inr choice \<Rightarrow>
                  (finish_suite env perm stages rate choice (suite_note (Selection (fst choice) (snd choice)
                     (map (\<lambda>c. (c, map judged_miss (completed_runs res c))) ALL_CANDIDATES)) s1), Inr ()))
      else (finish_suite env perm stages rate (''kafka-retry'', ''kafka-retry'') s, Inr ()))"

text \<open>The input rate: from C0 when asked for, else the one given (or none).\<close>

definition suite_rate ::
    "env \<Rightarrow> (int \<Rightarrow> nat \<Rightarrow> nat list) \<Rightarrow> string list \<Rightarrow> rat option \<Rightarrow> suite \<Rightarrow> suite \<times> rat option result" where
  "suite_rate env perm stages rate s =
     (if ''c0'' \<in> set stages
      then (let (s1, r) = suite_c0 env perm s in (s1, bindR r (\<lambda>x. Inr (Some x))))
      else (s, Inr rate))"

definition suite_all ::
    "env \<Rightarrow> (int \<Rightarrow> nat \<Rightarrow> nat list) \<Rightarrow> bool \<times> rat \<Rightarrow> string list \<Rightarrow> rat option \<Rightarrow> suite \<Rightarrow> suite \<times> unit result" where
  "suite_all env perm g0 stages rate s =
     (let s1 = (if ''g0'' \<in> set stages then suite_g0 g0 s else s)
      in if ''g0'' \<in> set stages \<and> \<not> fst g0 then (suite_note Stopped s1, Inr ())
         else case suite_rate env perm stages rate s1 of
                (s2, Inl e) \<Rightarrow> (s2, Inl e)
              | (s2, Inr r) \<Rightarrow> suite_from_rate env perm stages (if r = None \<or> r = Some 0 then 80 else the r) s2)"

end
