(* ===== verification/Instruments.thy ===== *)
theory Instruments
  imports Suite Sender
begin

text \<open>
  Gate G0 of \<open>experiments/isolation/suite.py\<close>: the instruments are checked before anything is compared.
  What the direct load runs, the Kafka client and the mock returned is given; an exception inside
  \<open>g0_source\<close> and \<open>g0_mock\<close> fails the gate, one in \<open>g0_observer\<close> is not caught.
\<close>

section \<open>Percentiles and offsets\<close>

text \<open>\<open>Suite._p\<close>, on a list its callers have sorted.\<close>

definition suite_p :: "'a list \<Rightarrow> rat \<Rightarrow> 'a option result" where
  "suite_p values q =
     (if values = [] then Inr None
      else bindR (py_get values (nat (max 0 (pct_rank q (length values) - 1)))) (\<lambda>v. Inr (Some v)))"

text \<open>It is the checker's percentile, so that the gate and the verdicts use the same rank.\<close>

lemma suite_p_pct: "sorted values \<Longrightarrow> suite_p values q = pct values q"
  by (simp add: suite_p_def pct_def sorted_sort_id)

lemma pct_sort: "pct (sort xs) q = pct xs q"
proof -
  have "sort xs = [] \<longleftrightarrow> xs = []" by (metis length_0_conv length_sort)
  then show ?thesis by (simp add: pct_def sorted_sort_id)
qed

text \<open>\<open>_end_offsets\<close>: the lines \<open>topic:partition:offset\<close> that the Kafka client prints.\<close>

definition last_field :: "string \<Rightarrow> string" where
  "last_field line = rev (takeWhile (\<lambda>c. c \<noteq> CHR '':'') (rev line))"

definition end_offsets :: "string list \<Rightarrow> int result" where
  "end_offsets out =
     bindR (mapR (\<lambda>line. parse_int (last_field line)) (filter (\<lambda>line. 2 \<le> count_list line (CHR '':'')) out))
       (\<lambda>ns. Inr (sum_list ns))"

section \<open>The source path and the mock\<close>

definition at_most :: "rat \<Rightarrow> rat option \<Rightarrow> bool result" where
  "at_most bound v = (case v of None \<Rightarrow> Inl TypeError | Some x \<Rightarrow> Inr (x \<le> bound))"

definition status_ok :: "send_record \<Rightarrow> bool" where
  "status_ok r \<longleftrightarrow> s_status r = Some 200"

record source_gate =
  sg_events :: nat
  sg_accepted :: nat
  sg_published :: int
  sg_lateP99Ms :: "rat option"
  sg_acceptP99Ms :: "rat option"
  sg_passed :: bool

definition g0_source_report :: "send_record list \<Rightarrow> string list \<Rightarrow> source_gate result" where
  "g0_source_report records offsets =
     (let accepted = length (filter status_ok records);
          late = sort (map (\<lambda>r. fl (s_sentAt r - s_plannedAt r)) records);
          accept = sort (map (\<lambda>r. fl (s_doneAt r - s_sentAt r)) records)
      in bindR (end_offsets offsets) (\<lambda>ends.
         bindR (suite_p late q99) (\<lambda>l. bindR (suite_p accept q99) (\<lambda>a.
         bindR (if accepted = length records \<and> ends = int accepted then at_most 10 l else Inr False) (\<lambda>ok. Inr
           \<lparr>sg_events = length records, sg_accepted = accepted, sg_published = ends, sg_lateP99Ms = l,
            sg_acceptP99Ms = a, sg_passed = ok\<rparr>)))))"

text \<open>A gate that caught an exception has only \<open>passed=False\<close> and the error.\<close>

definition g0_source :: "(send_record list \<times> string list) result \<Rightarrow> source_gate result" where
  "g0_source input = bindR input (\<lambda>(records, offsets). g0_source_report records offsets)"

record mock_gate =
  mg_events :: nat
  mg_ok :: nat
  mg_effects :: nat
  mg_serverExtraP99Ms :: "int option"
  mg_clientExtraP99Ms :: "rat option"
  mg_passed :: bool

definition server_extra :: "attempt_row list \<Rightarrow> int list" where
  "server_extra attempts =
     sort (map (\<lambda>a. get_or 0 (ar_end_at a) - ar_start_at a - NORMAL_DELAY_MS) (filter (\<lambda>a. truthy (ar_end_at a)) attempts))"

definition client_extra :: "send_record list \<Rightarrow> rat list" where
  "client_extra records =
     sort (map (\<lambda>r. fl (fl (s_doneAt r - s_sentAt r) - of_int NORMAL_DELAY_MS)) (filter status_ok records))"

definition g0_mock :: "(send_record list \<times> effect_row list \<times> attempt_row list) result \<Rightarrow> mock_gate result" where
  "g0_mock input =
     bindR input (\<lambda>(records, effs, attempts).
       let n = length (filter status_ok records)
       in bindR (suite_p (server_extra attempts) q99) (\<lambda>sx. bindR (suite_p (client_extra records) q99) (\<lambda>cx.
          bindR (if n = length records \<and> length effs = n then at_most 5 cx else Inr False) (\<lambda>ok. Inr
            \<lparr>mg_events = length records, mg_ok = n, mg_effects = length effs, mg_serverExtraP99Ms = sx,
             mg_clientExtraP99Ms = cx, mg_passed = ok\<rparr>))))"

section \<open>The observer\<close>

definition observer_order :: "rat \<Rightarrow> bool list" where
  "observer_order draw = (let order = [True, False, True, False] in if draw < 1 / 2 then map Not order else order)"

definition window_name :: "nat \<Rightarrow> string" where
  "window_name i = ''w'' @ show_nat (i + 1)"

definition observer_spec :: "rat \<Rightarrow> run_spec" where
  "observer_spec draw =
     (bare_spec ''g0-observer'' ''g0'' ''kafka-bucket'' 1250
        ((''warmup'', 90, 80) # map (\<lambda>i. (window_name i, 60, 80)) [0 ..< 4]))
     \<lparr>sp_drainSeconds := Some 30, sp_scenario := Some ''observer-off'', sp_scenarioPhase := Some ''warmup'',
      sp_observerWindows := Some (map (\<lambda>(i, on). (window_name i, \<not> on)) (enumerate 0 (observer_order draw)))\<rparr>"

definition observer_windows :: "run_report \<Rightarrow> rat \<Rightarrow> (bool \<times> cohort_report option) list" where
  "observer_windows rep draw =
     map (\<lambda>(i, on). (on, normal_cohort rep (window_name i))) (enumerate 0 (observer_order draw))"

definition median_p99 :: "cohort_report option list \<Rightarrow> rat result" where
  "median_p99 ws = median (concat (map (\<lambda>w. case w of None \<Rightarrow> []
     | Some c \<Rightarrow> (case co_p99Ms c of None \<Rightarrow> [] | Some p \<Rightarrow> [of_int p])) ws))"

definition completion :: "cohort_report option list \<Rightarrow> rat result" where
  "completion ws =
     bindR (mapR (need ''delivered'') ws) (\<lambda>cs.
       Inr (fl (of_nat (sum_list (map co_delivered cs)) / of_nat (max 1 (sum_list (map co_n cs))))))"

text \<open>Whether the observer itself may be on during the experiments.\<close>

definition g0_observer :: "run_report option \<Rightarrow> rat \<Rightarrow> bool result" where
  "g0_observer checks draw =
     (case checks of
        None \<Rightarrow> Inr False
      | Some rep \<Rightarrow>
         (let ws = observer_windows rep draw;
              on = map snd (filter fst ws); off = map snd (filter (\<lambda>w. \<not> fst w) ws)
          in bindR (median_p99 on) (\<lambda>p_on. bindR (median_p99 off) (\<lambda>p_off.
             bindR (completion on) (\<lambda>d_on. bindR (completion off) (\<lambda>d_off.
               Inr (\<bar>fl (d_on - d_off)\<bar> \<le> fl (3 / 100) \<and>
                 \<bar>fl (p_on - p_off)\<bar> \<le> max (fl (fl (5 / 100) * p_off)) 10)))))))"

section \<open>The gate\<close>

text \<open>\<open>g0\<close>: the checker's own tests, the source, the mock and the observer.\<close>

definition g0_gate :: "int \<Rightarrow> source_gate result \<Rightarrow> mock_gate result \<Rightarrow> bool result \<Rightarrow> bool result" where
  "g0_gate returncode source_part mock_part observer_part =
     bindR observer_part (\<lambda>ob. Inr (returncode = 0 \<and>
       (case source_part of Inl _ \<Rightarrow> False | Inr g \<Rightarrow> sg_passed g) \<and>
       (case mock_part of Inl _ \<Rightarrow> False | Inr g \<Rightarrow> mg_passed g) \<and> ob))"

text \<open>A source gate that passes means that every event sent was accepted and published, at least one, and
  that its 99th percentile of lateness is the nearest-rank one and at most 10 ms.\<close>

lemma source_gate_passes:
  assumes "g0_source_report records offsets = Inr g" "sg_passed g"
  shows "\<forall>r \<in> set records. s_status r = Some 200" "end_offsets offsets = Inr (int (length records))" "records \<noteq> []"
    "\<exists>v \<le> 10. pct (map (\<lambda>r. fl (s_sentAt r - s_plannedAt r)) records) q99 = Inr (Some v)"
proof -
  let ?late = "sort (map (\<lambda>r. fl (s_sentAt r - s_plannedAt r)) records)"
  obtain ends l where e1: "end_offsets offsets = Inr ends" "suite_p ?late q99 = Inr l"
      "(if length (filter status_ok records) = length records \<and> ends = int (length (filter status_ok records))
        then at_most 10 l else Inr False) = Inr (sg_passed g)"
    using assms(1) unfolding g0_source_report_def Let_def bindR_Inr_iff by (elim exE conjE) (erule that, assumption, force)
  then have e: "end_offsets offsets = Inr ends" "suite_p ?late q99 = Inr l"
      "length (filter status_ok records) = length records" "ends = int (length records)" "at_most 10 l = Inr True"
    using assms(2) by (simp_all split: if_split_asm)
  then obtain v where v: "l = Some v" "v \<le> 10" by (auto simp: at_most_def split: option.splits)
  show "\<forall>r \<in> set records. s_status r = Some 200" 
    using e(3) length_filter_less [of _ records status_ok] by (fastforce simp: status_ok_def)
  show "end_offsets offsets = Inr (int (length records))" using e by simp
  show "records \<noteq> []" using e(2) v by (auto simp: suite_p_def)
  show "\<exists>v \<le> 10. pct (map (\<lambda>r. fl (s_sentAt r - s_plannedAt r)) records) q99 = Inr (Some v)"
    using e(2) v suite_p_pct [of ?late q99] by (auto simp: pct_sort)
qed

end
