(* ===== verification/Suite_Properties.thy ===== *)
theory Suite_Properties
  imports Suite
begin

text \<open>
  What the experiment plan of \<open>Suite\<close> guarantees. The locale \<open>suite_invariant\<close> states what a property
  of the suite's state has to survive (a logged note, one guarded run, the passing of time) and carries it
  through the whole plan; the budget and the bookkeeping of the log are its interpretations.
\<close>

section \<open>Invariants of the plan\<close>

definition run_note :: "suite_event \<Rightarrow> bool" where
  "run_note e \<longleftrightarrow> (case e of Planned _ _ _ \<Rightarrow> True | Finished _ _ \<Rightarrow> True | _ \<Rightarrow> False)"

lemma suite_all_continues:
  assumes "\<not> (''g0'' \<in> set stages \<and> \<not> fst g0)"
  shows "suite_all env perm g0 stages rate s =
    (case suite_rate env perm stages rate (if ''g0'' \<in> set stages then suite_g0 g0 s else s) of
       (s2, Inl e) \<Rightarrow> (s2, Inl e)
     | (s2, Inr r) \<Rightarrow> suite_from_rate env perm stages (if r = None \<or> r = Some 0 then 80 else the r) s2)"
  unfolding suite_all_def Let_def if_not_P [OF assms] ..

locale suite_invariant =
  fixes inv :: "suite \<Rightarrow> bool"
  assumes noted: "inv s \<Longrightarrow> \<not> run_note e \<Longrightarrow> inv (suite_note e s)"
    and one_run: "inv s \<Longrightarrow> 0 \<le> m \<Longrightarrow> m \<le> 16 \<Longrightarrow> inv (fst (suite_run env sp m s))"
    and wait: "inv s \<Longrightarrow> inv (s\<lparr>su_clock := t\<rparr>)"
begin

lemma specs: "inv s \<Longrightarrow> \<forall>p \<in> set ps. 0 \<le> snd p \<and> snd p \<le> 16 \<Longrightarrow> inv (fst (run_specs env ps s))"
proof (induction ps arbitrary: s)
  case (Cons p ps)
  obtain sp m where p: "p = (sp, m)" by (cases p)
  have "inv (fst (suite_run env sp m s))" using Cons.prems p by (intro one_run) simp_all
  then have "inv (fst (run_specs env ps (fst (suite_run env sp m s))))" using Cons by simp
  then show ?case by (simp add: p case_prod_unfold Let_def)
qed simp

lemma c0_loop: "inv s \<Longrightarrow> inv (fst (c0_runs env cs s))"
proof (induction cs arbitrary: s)
  case (Cons c cs)
  have "inv (fst (suite_run env (c0_spec c 1250) (minutes_of ''c0'') s))"
    using Cons.prems by (intro one_run) (simp_all add: minutes_of_def MINUTES_def)
  then show ?case using Cons.IH by (simp add: case_prod_unfold Let_def split: sum.splits)
qed simp

lemma c0: "inv s \<Longrightarrow> inv (fst (suite_c0 env perm s))"
  using c0_loop [of s env "sampled perm 1250 ALL_CANDIDATES"] noted
  by (auto simp: suite_c0_def case_prod_unfold Let_def run_note_def split: sum.splits)

end

text \<open>Every stage plans its runs for 6 to 16 minutes.\<close>

lemma plan_minutes:
  "p \<in> set (e1_plan perm rate) \<Longrightarrow> 6 \<le> snd p \<and> snd p \<le> 16"
  "p \<in> set (later_plan perm stages rate best final) \<Longrightarrow> 6 \<le> snd p \<and> snd p \<le> 16"
  "p \<in> set (extra_plan perm rate best) \<Longrightarrow> 6 \<le> snd p \<and> snd p \<le> 16"
  by (auto simp: e1_plan_def later_plan_def extra_plan_def e2_plan_def e3_plan_def e4_plan_def r1_plan_def
      r1long_plan_def minutes_of_def MINUTES_def split: if_splits)

context suite_invariant begin

lemma finish: "inv s \<Longrightarrow> inv (finish_suite env perm stages rate choice s)"
proof -
  assume s: "inv s"
  have m: "\<forall>p \<in> set ps. 6 \<le> snd p \<and> snd p \<le> 16 \<Longrightarrow> inv u \<Longrightarrow> inv (fst (run_specs env ps u))" for ps u
    by (rule specs) fastforce+
  let ?s1 = "fst (run_specs env (later_plan perm stages rate (fst choice) (snd choice)) s)"
  have s1: "inv ?s1" using plan_minutes(2) s by (intro m) blast
  then have "inv (fst (run_specs env (extra_plan perm rate (fst choice)) ?s1))"
    using plan_minutes(3) by (intro m [OF _ s1]) blast
  then show ?thesis using s1 by (auto simp: finish_suite_def Let_def run_note_def intro!: noted)
qed

lemma from_rate: "inv s \<Longrightarrow> inv (fst (suite_from_rate env perm stages rate s))"
proof -
  assume s: "inv s"
  have "inv (fst (run_specs env (e1_plan perm rate) s))"
    using plan_minutes(1) s by (intro specs) fastforce+
  then show ?thesis
    using s finish noted
    by (auto simp: suite_from_rate_def case_prod_unfold Let_def run_note_def split: sum.splits)
qed

lemma all: "inv s \<Longrightarrow> inv (fst (suite_all env perm g0 stages rate s))"
proof -
  assume s: "inv s"
  define s1 where "s1 = (if ''g0'' \<in> set stages then suite_g0 g0 s else s)"
  have s1: "inv s1" using s noted wait by (auto simp: s1_def suite_g0_def run_note_def)
  show ?thesis
  proof (cases "''g0'' \<in> set stages \<and> \<not> fst g0")
    case True
    then have "fst (suite_all env perm g0 stages rate s) = suite_note Stopped s1"
      by (simp add: suite_all_def s1_def)
    then show ?thesis using noted [OF s1, of Stopped] by (simp add: run_note_def)
  next
    case False
    have "inv (fst (suite_rate env perm stages rate s1))"
      using s1 c0 by (simp add: suite_rate_def case_prod_unfold Let_def)
    then show ?thesis
      using from_rate by (auto simp: suite_all_continues [OF False] s1_def [symmetric] split: prod.splits sum.splits)
  qed
qed

end

section \<open>The budget\<close>

lemma fl_nonpos: "x \<le> 0 \<Longrightarrow> fl x \<le> 0"
  using fl_positive [of "- x"] by (auto simp: fl_def)

lemma fl_upper: "0 < x \<Longrightarrow> fl x \<le> x + x / 2 ^ 53"
  using fl_err [of x] by linarith

text \<open>The guard's extra minute is more than its rounding.\<close>

lemma guard_leaves_time:
  assumes "\<not> remaining_minutes s < m + 1" "0 \<le> m" "m \<le> 16"
  shows "su_clock s + 60 * m \<le> su_deadline s"
proof -
  define d where "d = su_deadline s - su_clock s"
  have g: "m + 1 \<le> fl (fl d / 60)" using assms(1) by (simp add: remaining_minutes_def d_def)
  have d: "0 < d"
  proof (rule ccontr)
    assume "\<not> 0 < d"
    then have "fl (fl d / 60) \<le> 0" by (intro fl_nonpos) (simp add: fl_nonpos)
    then show False using g assms(2) by linarith
  qed
  have up: "fl x \<le> x + x / 1000" if "0 < x" for x
  proof -
    have "x / 2 ^ 53 \<le> x / 1000" using that by (intro divide_left_mono) simp_all
    then show ?thesis using fl_upper [OF that] by linarith
  qed
  have "0 < fl d" using d by (rule fl_positive)
  then have "fl (fl d / 60) \<le> fl d / 60 + fl d / 60 / 1000" by (intro up) simp
  then have "60 * m \<le> d" using g assms(2,3) up [OF d] by linarith
  then show ?thesis by (simp add: d_def)
qed

definition fits_deadline :: "suite \<Rightarrow> bool" where
  "fits_deadline s \<longleftrightarrow> (\<forall>sp m t. Planned sp m t \<in> set (su_log s) \<longrightarrow> t + 60 * m \<le> su_deadline s)"

interpretation budget: suite_invariant fits_deadline
proof unfold_locales
  fix s :: suite and env sp and m :: rat
  assume s: "fits_deadline s" and m: "0 \<le> m" "m \<le> 16"
  show "fits_deadline (fst (suite_run env sp m s))"
  proof (cases "remaining_minutes s < m + 1")
    case True
    then show ?thesis using s by (simp add: suite_run_def fits_deadline_def suite_note_def)
  next
    case False
    then have "su_clock s + 60 * m \<le> su_deadline s" using m by (rule guard_leaves_time)
    then show ?thesis
      using s False by (auto simp: suite_run_def fits_deadline_def suite_note_def Let_def case_prod_unfold)
  qed
qed (auto simp: fits_deadline_def suite_note_def run_note_def)

section \<open>The log\<close>

text \<open>A planned run is followed by its own finish, before anything else is logged.\<close>

fun paired :: "suite_event list \<Rightarrow> bool" where
  "paired [] = True"
| "paired (Planned sp m t # es) = (case es of Finished sp' _ # es' \<Rightarrow> sp = sp' \<and> paired es' | _ \<Rightarrow> False)"
| "paired (Finished _ _ # es) = False"
| "paired (_ # es) = paired es"

lemma paired_append: "paired xs \<Longrightarrow> paired (xs @ ys) = paired ys"
  by (induction xs rule: paired.induct) (auto split: list.splits suite_event.splits)

interpretation logbook: suite_invariant "\<lambda>s. paired (su_log s)"
proof unfold_locales
  fix s :: suite and env sp and m :: rat
  assume "paired (su_log s)"
  then show "paired (su_log (fst (suite_run env sp m s)))"
    by (simp add: suite_run_def suite_note_def Let_def case_prod_unfold paired_append)
next
  fix s :: suite and e assume "paired (su_log s)" "\<not> run_note e"
  then show "paired (su_log (suite_note e s))"
    by (cases e) (simp_all add: suite_note_def run_note_def paired_append)
qed simp_all

definition listed :: "suite \<Rightarrow> run_spec list" where
  "listed s = concat (map (\<lambda>e. case e of Planned sp _ _ \<Rightarrow> [sp] | NotRun sp \<Rightarrow> [sp] | _ \<Rightarrow> []) (su_log s))"

lemma listed_note:
  "listed (suite_note e s) = listed s @ (case e of Planned sp _ _ \<Rightarrow> [sp] | NotRun sp \<Rightarrow> [sp] | _ \<Rightarrow> [])"
  by (simp add: listed_def suite_note_def)

lemma listed_run: "listed (fst (suite_run env sp m s)) = listed s @ [sp]"
proof -
  have c: "listed (s\<lparr>su_clock := c, su_runs := n\<rparr>) = listed s" for s c n by (simp add: listed_def)
  show ?thesis by (simp add: suite_run_def Let_def case_prod_unfold listed_note c)
qed

lemma listed_specs: "listed (fst (run_specs env ps s)) = listed s @ map fst ps"
  by (induction ps arbitrary: s) (simp_all add: listed_run Let_def case_prod_unfold split_paired_all)

lemma listed_c0:
  "snd (c0_runs env cs s) = Inr rs \<Longrightarrow> listed (fst (c0_runs env cs s)) = listed s @ map (\<lambda>c. c0_spec c 1250) cs"
proof (induction cs arbitrary: s rs)
  case (Cons c cs)
  let ?r = "suite_run env (c0_spec c 1250) (minutes_of ''c0'') s"
  obtain ok where ok: "(case fst (snd ?r) of None \<Rightarrow> Inr False | Some f \<Rightarrow> stable_at_80 f) = Inr ok"
    using Cons.prems by (auto simp: case_prod_unfold Let_def split: sum.splits)
  then obtain rs' where rs': "snd (c0_runs env cs (fst ?r)) = Inr rs'"
    using Cons.prems by (auto simp: case_prod_unfold Let_def bindR_Inr_iff)
  from Cons.IH [OF this] ok show ?case by (simp add: case_prod_unfold Let_def listed_run)
qed simp

text \<open>The rates that C0 noted and the structures that the selection named.\<close>

definition rates_noted :: "suite \<Rightarrow> rat list" where
  "rates_noted s = concat (map (\<lambda>e. case e of NotedC0 _ r \<Rightarrow> [r] | _ \<Rightarrow> []) (su_log s))"

definition chosen :: "suite \<Rightarrow> (string \<times> string) list" where
  "chosen s = concat (map (\<lambda>e. case e of Selection b f _ \<Rightarrow> [(b, f)] | _ \<Rightarrow> []) (su_log s))"

lemma noted_note:
  "rates_noted (suite_note e s) = rates_noted s @ (case e of NotedC0 _ r \<Rightarrow> [r] | _ \<Rightarrow> [])"
  "chosen (suite_note e s) = chosen s @ (case e of Selection b f _ \<Rightarrow> [(b, f)] | _ \<Rightarrow> [])"
  by (simp_all add: rates_noted_def chosen_def suite_note_def)

lemma noted_run:
  "rates_noted (fst (suite_run env sp m s)) = rates_noted s" "chosen (fst (suite_run env sp m s)) = chosen s"
proof -
  have c: "rates_noted (s\<lparr>su_clock := c, su_runs := n\<rparr>) = rates_noted s" "chosen (s\<lparr>su_clock := c, su_runs := n\<rparr>) = chosen s" for s c n
    by (simp_all add: rates_noted_def chosen_def)
  show "rates_noted (fst (suite_run env sp m s)) = rates_noted s" "chosen (fst (suite_run env sp m s)) = chosen s"
    by (simp_all add: suite_run_def Let_def case_prod_unfold noted_note c)
qed

lemma noted_specs: "rates_noted (fst (run_specs env ps s)) = rates_noted s" "chosen (fst (run_specs env ps s)) = chosen s"
  by (induction ps arbitrary: s) (simp_all add: noted_run Let_def case_prod_unfold split_paired_all)

lemma noted_c0: "rates_noted (fst (c0_runs env cs s)) = rates_noted s" "chosen (fst (c0_runs env cs s)) = chosen s"
  by (induction cs arbitrary: s) (simp_all add: noted_run Let_def case_prod_unfold split: sum.splits)

lemma noted_finish:
  "rates_noted (finish_suite env perm stages r choice s) = rates_noted s" "chosen (finish_suite env perm stages r choice s) = chosen s"
  by (simp_all add: finish_suite_def Let_def noted_note noted_specs)

lemma finish_listed:
  "\<exists>extra. listed (finish_suite env perm stages r choice s) = listed s @
     map fst (later_plan perm stages r (fst choice) (snd choice)) @ extra \<and>
     (extra = [] \<or> ''e1'' \<in> set stages \<and> extra = map fst (extra_plan perm r (fst choice)))"
  by (simp add: finish_suite_def Let_def listed_note listed_specs)

lemma from_rate_listed:
  assumes "suite_from_rate env perm stages r s = (s', Inr ())"
  shows "\<exists>best final extra. listed s' = listed s @
      (if ''e1'' \<in> set stages then map fst (e1_plan perm r) else []) @ map fst (later_plan perm stages r best final) @ extra \<and>
    (extra = [] \<or> ''e1'' \<in> set stages \<and> extra = map fst (extra_plan perm r best)) \<and>
    chosen s' = chosen s @ (if ''e1'' \<in> set stages then [(best, final)] else []) \<and>
    (''e1'' \<in> set stages \<or> best = ''kafka-retry'' \<and> final = ''kafka-retry'') \<and> rates_noted s' = rates_noted s"
proof (cases "''e1'' \<in> set stages")
  case True
  then obtain choice sel where c: "s' = finish_suite env perm stages r choice
      (suite_note (Selection (fst choice) (snd choice) sel) (fst (run_specs env (e1_plan perm r) s)))"
    using assms by (auto simp: suite_from_rate_def Let_def case_prod_unfold split: sum.splits)
  obtain extra where "listed s' = listed s @ map fst (e1_plan perm r) @
      map fst (later_plan perm stages r (fst choice) (snd choice)) @ extra"
      "extra = [] \<or> ''e1'' \<in> set stages \<and> extra = map fst (extra_plan perm r (fst choice))"
    using finish_listed [of env perm stages r choice "suite_note (Selection (fst choice) (snd choice) sel) (fst (run_specs env (e1_plan perm r) s))"]
    unfolding c [symmetric] by (auto simp: listed_note listed_specs)
  moreover have "chosen s' = chosen s @ [choice]" "rates_noted s' = rates_noted s"
    by (simp_all add: c noted_finish noted_note noted_specs)
  ultimately show ?thesis unfolding if_P [OF True] using True
    by (intro exI [of _ "fst choice"] exI [of _ "snd choice"] exI [of _ extra]) simp
next
  case False
  then have "s' = finish_suite env perm stages r (''kafka-retry'', ''kafka-retry'') s"
    using assms by (simp add: suite_from_rate_def)
  then show ?thesis using finish_listed [of env perm stages r "(''kafka-retry'', ''kafka-retry'')" s] False
    by (auto simp: noted_finish)
qed

lemma rate_listed:
  assumes "suite_rate env perm stages rate s = (s', Inr r)"
  shows "listed s' = listed s @ (if ''c0'' \<in> set stages then map (\<lambda>c. c0_spec c 1250) (sampled perm 1250 ALL_CANDIDATES) else []) \<and>
    chosen s' = chosen s \<and> (if ''c0'' \<in> set stages then \<exists>x. r = Some x \<and> x \<in> {40, 80} \<and> rates_noted s' = rates_noted s @ [x]
      else r = rate \<and> rates_noted s' = rates_noted s)"
proof (cases "''c0'' \<in> set stages")
  case True
  then obtain x where x: "suite_c0 env perm s = (s', Inr x)" "r = Some x"
    using assms by (auto simp: suite_rate_def case_prod_unfold Let_def bindR_Inr_iff prod_eq_iff)
  obtain u v where c: "c0_runs env (sampled perm 1250 ALL_CANDIDATES) s = (u, v)" by fastforce
  obtain rs where rs: "v = Inr rs" using x(1) by (cases v) (simp_all add: suite_c0_def c)
  then have s': "s' = suite_note (NotedC0 rs x) u" "x \<in> {40, 80}" using x(1) by (auto simp: suite_c0_def c Let_def)
  have "listed u = listed s @ map (\<lambda>c. c0_spec c 1250) (sampled perm 1250 ALL_CANDIDATES)" "rates_noted u = rates_noted s" "chosen u = chosen s"
    using listed_c0 [of env "sampled perm 1250 ALL_CANDIDATES" s] noted_c0 [of env "sampled perm 1250 ALL_CANDIDATES" s] c rs by simp_all
  then show ?thesis using True x(2) s' by (simp add: listed_note noted_note)
qed (use assms in \<open>simp add: suite_rate_def\<close>)

section \<open>Properties\<close>

text \<open>C21: No run is started that the budget cannot cover. Whatever the stages, the outcomes and durations of
  the runs and the drawn orders, every run in the log was started with at least its planned minutes left
  before the deadline; the extra minute of the guard absorbs the rounding of its float arithmetic.\<close>

theorem budget_respected:
  assumes "(s', res) = suite_all env perm g0 stages rate (open_suite now minutes)"
    and "Planned sp m t \<in> set (su_log s')"
  shows "t + 60 * m \<le> su_deadline s'"
proof -
  have "fits_deadline (fst (suite_all env perm g0 stages rate (open_suite now minutes)))"
    by (rule budget.all) (simp add: fits_deadline_def open_suite_def)
  then show ?thesis using assms by (metis fits_deadline_def fst_conv)
qed

definition quick_world :: run_world where
  "quick_world = \<lparr>rw_stage = (\<lambda>g. Inr ()), rw_final = (\<lambda>a. Inr ()), rw_loadAlive = False, rw_check = Inl TypeError\<rparr>"

definition quick_env :: env where
  "quick_env i sp = \<lparr>oc_world = quick_world, oc_seconds = 500,
     oc_files = \<lparr>cf_run = None, cf_obligations = None, cf_effects = None\<rparr>\<rparr>"

theorem budget_respected_witness:
  "\<exists>s' res sp t. (s', res) = suite_all quick_env (\<lambda>_ n. [0 ..< n]) (True, 0) [''e2''] None (open_suite 0 30) \<and>
     Planned sp 9 t \<in> set (su_log s') \<and> t + 60 * 9 \<le> su_deadline s'"
proof -
  obtain s' res where s: "(s', res) = suite_all quick_env (\<lambda>_ n. [0 ..< n]) (True, 0) [''e2''] None (open_suite 0 30)"
    by (metis surj_pair)
  have "list_ex (\<lambda>e. case e of Planned sp m t \<Rightarrow> m = 9 | _ \<Rightarrow> False)
      (su_log (fst (suite_all quick_env (\<lambda>_ n. [0 ..< n]) (True, 0) [''e2''] None (open_suite 0 30))))" by code_simp
  moreover have "fst (suite_all quick_env (\<lambda>_ n. [0 ..< n]) (True, 0) [''e2''] None (open_suite 0 30)) = s'"
    using s by (metis fst_conv)
  ultimately obtain e where e: "e \<in> set (su_log s')" "case e of Planned sp m t \<Rightarrow> m = 9 | _ \<Rightarrow> False"
    by (auto simp: list_ex_iff)
  have "\<exists>sp t. e = Planned sp 9 t" by (rule suite_event.exhaust [of e]) (use e(2) in simp_all)
  then obtain sp t where "Planned sp 9 t \<in> set (su_log s')" using e(1) by blast
  from budget_respected [OF s this] this s show ?thesis by blast
qed

text \<open>C26: The suite leaves nothing out silently. When it ends without an exception, either G0 was asked for and failed,
  and then it listed no item and stopped; or its log lists, in plan order and each once, exactly the items of the
  stages asked for, each as a planned run immediately followed by its own finish or as not run: C0, E1, the later stages and,
  only after E1, possibly the extra seeds. They are for the rate that C0 noted (40 or 80; without C0 the one given, or 80) and
  for the structures that the logged selection names (without E1 for \<open>kafka-retry\<close>).\<close>

theorem every_item_listed:
  assumes "suite_all env perm g0 stages rate (open_suite now minutes) = (s', Inr ())"
  shows "if ''g0'' \<in> set stages \<and> \<not> fst g0 then listed s' = [] \<and> List.last (su_log s') = Stopped
    else \<exists>r best final extra.
      (if ''c0'' \<in> set stages then rates_noted s' = [r] \<and> r \<in> {40, 80}
       else rates_noted s' = [] \<and> r = (if rate = None \<or> rate = Some 0 then 80 else the rate)) \<and>
      (if ''e1'' \<in> set stages then chosen s' = [(best, final)]
       else chosen s' = [] \<and> best = ''kafka-retry'' \<and> final = ''kafka-retry'') \<and>
      listed s' =
        (if ''c0'' \<in> set stages then map (\<lambda>c. c0_spec c 1250) (sampled perm 1250 ALL_CANDIDATES) else []) @
        (if ''e1'' \<in> set stages then map fst (e1_plan perm r) else []) @
        map fst (later_plan perm stages r best final) @ extra \<and>
      (extra = [] \<or> ''e1'' \<in> set stages \<and> extra = map fst (extra_plan perm r best)) \<and> paired (su_log s')"
proof -
  let ?s0 = "open_suite now minutes"
  define s1 where "s1 = (if ''g0'' \<in> set stages then suite_g0 g0 ?s0 else ?s0)"
  have l1: "listed s1 = []" "chosen s1 = []" "rates_noted s1 = []"
    by (simp_all add: s1_def suite_g0_def open_suite_def listed_def chosen_def rates_noted_def suite_note_def)
  show ?thesis
  proof (cases "''g0'' \<in> set stages \<and> \<not> fst g0")
    case True
    then have "s' = suite_note Stopped s1" using assms by (simp add: suite_all_def s1_def)
    then have "listed s' = [] \<and> List.last (su_log s') = Stopped" using l1(1) by (simp add: listed_note) (simp add: suite_note_def)
    then show ?thesis unfolding if_P [OF True] .
  next
    case False
    then obtain s2 r where r: "suite_rate env perm stages rate s1 = (s2, Inr r)"
        "suite_from_rate env perm stages (if r = None \<or> r = Some 0 then 80 else the r) s2 = (s', Inr ())"
      using assms by (auto simp: suite_all_continues s1_def [symmetric] split: prod.splits sum.splits)
    define q where "q = (if r = None \<or> r = Some 0 then 80 else the r)"
    obtain best final extra where f: "listed s' = listed s2 @
        (if ''e1'' \<in> set stages then map fst (e1_plan perm q) else []) @ map fst (later_plan perm stages q best final) @ extra"
        "extra = [] \<or> ''e1'' \<in> set stages \<and> extra = map fst (extra_plan perm q best)"
        "chosen s' = chosen s2 @ (if ''e1'' \<in> set stages then [(best, final)] else [])"
        "''e1'' \<in> set stages \<or> best = ''kafka-retry'' \<and> final = ''kafka-retry''" "rates_noted s' = rates_noted s2"
      using from_rate_listed [OF r(2)] unfolding q_def by blast
    note rl = rate_listed [OF r(1)]
    have q: "if ''c0'' \<in> set stages then rates_noted s' = [q] \<and> q \<in> {40, 80}
        else rates_noted s' = [] \<and> q = (if rate = None \<or> rate = Some 0 then 80 else the rate)"
      using rl l1(3) f(5) by (auto simp: q_def split: if_splits)
    have "paired (su_log s')"
      using logbook.all [of ?s0 env perm g0 stages rate] assms by (simp add: open_suite_def)
    moreover have "if ''e1'' \<in> set stages then chosen s' = [(best, final)]
        else chosen s' = [] \<and> best = ''kafka-retry'' \<and> final = ''kafka-retry''"
      using f(3,4) rl l1(2) by auto
    moreover have "listed s' = (if ''c0'' \<in> set stages then map (\<lambda>c. c0_spec c 1250) (sampled perm 1250 ALL_CANDIDATES) else []) @
        (if ''e1'' \<in> set stages then map fst (e1_plan perm q) else []) @ map fst (later_plan perm stages q best final) @ extra"
      using f(1) rl l1(1) by simp
    ultimately show ?thesis unfolding if_not_P [OF False] using q f(2)
      by (intro exI [of _ q] exI [of _ best] exI [of _ final] exI [of _ extra] conjI)
  qed
qed

theorem every_item_listed_witness:
  "\<exists>s'. suite_all quick_env (\<lambda>_ n. [0 ..< n]) (True, 0) [''e2'', ''e4''] None (open_suite 0 30) = (s', Inr ()) \<and>
     listed s' = map fst (later_plan (\<lambda>_ n. [0 ..< n]) [''e2'', ''e4''] 80 ''kafka-retry'' ''kafka-retry'')"
proof -
  have "snd (suite_all quick_env (\<lambda>_ n. [0 ..< n]) (True, 0) [''e2'', ''e4''] None (open_suite 0 30)) = Inr ()"
    by (simp add: suite_all_def suite_rate_def suite_from_rate_def)
  then obtain s' where s': "suite_all quick_env (\<lambda>_ n. [0 ..< n]) (True, 0) [''e2'', ''e4''] None (open_suite 0 30) = (s', Inr ())"
    by (metis prod.collapse)
  from every_item_listed [OF this]
  have "listed s' = map fst (later_plan (\<lambda>_ n. [0 ..< n]) [''e2'', ''e4''] 80 ''kafka-retry'' ''kafka-retry'')" by auto
  with s' show ?thesis by blast
qed

section \<open>The selection\<close>

lemma safe_iff: "safe res c \<longleftrightarrow> res c \<noteq> [] \<and> (\<forall>r \<in> set (res c). \<exists>x. r = Some x \<and> sf_passed (rr_safety x))"
  by (auto simp: safe_def list_all_iff split: option.splits)

lemma completed_runs_set: "set (completed_runs res c) = {x. Some x \<in> set (res c)}"
  by (fastforce simp: completed_runs_def split: option.splits)

lemma median_total: "xs \<noteq> [] \<Longrightarrow> \<exists>m. median xs = Inr m"
  by (simp add: median_def Let_def)

lemma median_miss_total: "\<exists>x. Some x \<in> set (res c) \<Longrightarrow> \<exists>m. median_miss res c = Inr (Some m)"
proof -
  assume "\<exists>x. Some x \<in> set (res c)"
  then have "completed_runs res c \<noteq> []" "res c \<noteq> []" using completed_runs_set [of res c] by auto
  then show ?thesis using median_total [of "map judged_miss (completed_runs res c)"]
    by (auto simp: median_miss_def)
qed

lemma safe_completed: "safe res c \<Longrightarrow> \<exists>x. Some x \<in> set (res c)"
  by (cases "res c") (auto simp: safe_iff)

text \<open>The two Kafka candidates in the order of their medians.\<close>

lemma best_of_one: "best_kafka (sort_key k [(m, c)]) = c"
  by (simp add: best_kafka_def)

lemma best_of_two:
  "best_kafka (sort_key (\<lambda>(m, c). miss_key m (c = ''kafka-bucket'')) [(Some mb, ''kafka-bucket''), (Some mr, ''kafka-retry'')]) =
     (if mr < mb \<and> fl (5 / 1000) \<le> \<bar>fl (mr - mb)\<bar> then ''kafka-retry'' else ''kafka-bucket'')"
  by (auto simp: best_kafka_def miss_key_def close_medians_def less_eq_prod_def less_prod_def not_less)

lemma candidates_value:
  "kafka_candidates res =
     (if safe res ''kafka-bucket'' \<and> \<not> safe res ''kafka-retry'' then [''kafka-bucket'']
      else if safe res ''kafka-retry'' \<and> \<not> safe res ''kafka-bucket'' then [''kafka-retry'']
      else [''kafka-bucket'', ''kafka-retry''])"
  by (simp add: kafka_candidates_def KAFKA_def)

lemma meets_iff:
  "meets res c \<longleftrightarrow> length (res c) = 3 \<and> (\<forall>r \<in> set (res c). \<exists>x. r = Some x \<and> sf_passed (rr_safety x) \<and> judged_miss x \<le> fl (1 / 100))"
proof -
  have "length (res c) = 3 \<Longrightarrow> res c \<noteq> []" by auto
  then show ?thesis by (auto simp: meets_def safe_iff list_all_iff split: option.splits) (metis option.inject)+
qed

lemma completed_filter: "completed_runs res c = map the (filter (\<lambda>r. r \<noteq> None) (res c))"
proof -
  have "concat (map (\<lambda>r. case r of None \<Rightarrow> [] | Some x \<Rightarrow> [x]) rs) = map the (filter (\<lambda>r. r \<noteq> None) rs)" for rs :: "run_report option list"
    by (induction rs) (auto split: option.splits)
  then show ?thesis by (simp add: completed_runs_def)
qed

text \<open>C25: The selection rules, exactly. When every candidate has at least one completed run (otherwise the median of no
  result raises), with the medians of the misses of the completed runs: if the runs of one Kafka candidate alone are all
  completed and safe, it is the best one; otherwise it is \<open>kafka-retry\<close> if its median is smaller by at least 0.005, and
  else \<open>kafka-bucket\<close>. The final structure is the best Kafka candidate if that has three safe runs with at most 1 per cent
  misses, else the inbox if that has, else the one of the two with the smaller median, the Kafka candidate on a tie.\<close>

theorem selection_rules:
  assumes "\<forall>c \<in> {''kafka-bucket'', ''kafka-retry'', ''db-inbox''}. \<exists>x. Some x \<in> set (res c)"
  shows "\<exists>mb mr mi. (let misses = (\<lambda>c. map (\<lambda>r. judged_miss (the r)) (filter (\<lambda>r. r \<noteq> None) (res c)));
        unhurt = (\<lambda>c. \<forall>r \<in> set (res c). \<exists>x. r = Some x \<and> sf_passed (rr_safety x));
        target = (\<lambda>c. length (res c) = 3 \<and> (\<forall>r \<in> set (res c). \<exists>x. r = Some x \<and> sf_passed (rr_safety x) \<and> judged_miss x \<le> fl (1 / 100)));
        best = (if unhurt ''kafka-bucket'' \<and> \<not> unhurt ''kafka-retry'' then ''kafka-bucket''
                else if unhurt ''kafka-retry'' \<and> \<not> unhurt ''kafka-bucket'' then ''kafka-retry''
                else if mr < mb \<and> fl (5 / 1000) \<le> \<bar>fl (mr - mb)\<bar> then ''kafka-retry'' else ''kafka-bucket'');
        final = (if target best then best else if target ''db-inbox'' then ''db-inbox''
                 else if mi < (if best = ''kafka-bucket'' then mb else mr) then ''db-inbox'' else best)
      in median (misses ''kafka-bucket'') = Inr mb \<and> median (misses ''kafka-retry'') = Inr mr \<and> median (misses ''db-inbox'') = Inr mi \<and>
         pick_structure res = Inr (best, final))"
proof -
  have some: "\<exists>x. Some x \<in> set (res c)" if "c \<in> {''kafka-bucket'', ''kafka-retry'', ''db-inbox''}" for c using assms that by blast
  have "\<exists>m. median_miss res c = Inr (Some m)" if "c \<in> {''kafka-bucket'', ''kafka-retry'', ''db-inbox''}" for c
    using some [OF that] by (rule median_miss_total)
  then obtain mb mr mi where m: "median_miss res ''kafka-bucket'' = Inr (Some mb)" "median_miss res ''kafka-retry'' = Inr (Some mr)"
      "median_miss res ''db-inbox'' = Inr (Some mi)"
    by (metis insertCI)
  have med: "median (map (\<lambda>r. judged_miss (the r)) (filter (\<lambda>r. r \<noteq> None) (res c))) = Inr x" if "median_miss res c = Inr (Some x)" for c x
    using that by (auto simp: median_miss_def bindR_Inr_iff completed_filter comp_def split: if_splits)
  have safe: "safe res c \<longleftrightarrow> (\<forall>r \<in> set (res c). \<exists>x. r = Some x \<and> sf_passed (rr_safety x))"
    if "c \<in> {''kafka-bucket'', ''kafka-retry'', ''db-inbox''}" for c
    using some [OF that] by (auto simp: safe_iff)
  define best where "best = (if safe res ''kafka-bucket'' \<and> \<not> safe res ''kafka-retry'' then ''kafka-bucket''
    else if safe res ''kafka-retry'' \<and> \<not> safe res ''kafka-bucket'' then ''kafka-retry''
    else if mr < mb \<and> fl (5 / 1000) \<le> \<bar>fl (mr - mb)\<bar> then ''kafka-retry'' else ''kafka-bucket'')"
  define final where "final = (if meets res best then best else if meets res ''db-inbox'' then ''db-inbox''
    else if mi < (if best = ''kafka-bucket'' then mb else mr) then ''db-inbox'' else best)"
  define k where "k = (\<lambda>(m, c). miss_key m (c = ''kafka-bucket''))"
  define g where "g = (\<lambda>c. (Some (if c = ''kafka-bucket'' then mb else mr), c))"
  have "kafka_ranking res = Inr (sort_key k (map g (kafka_candidates res)))"
    unfolding kafka_ranking_def k_def candidates_value using m by (simp add: with_median_def g_def)
  moreover have "best_kafka (sort_key k (map g (kafka_candidates res))) = best"
  proof -
    have two: "map g [''kafka-bucket'', ''kafka-retry''] = [(Some mb, ''kafka-bucket''), (Some mr, ''kafka-retry'')]" by (simp add: g_def)
    have one: "map g [c] = [(fst (g c), c)]" for c by (simp add: g_def)
    show ?thesis
      by (cases "safe res ''kafka-bucket''"; cases "safe res ''kafka-retry''")
        (simp_all only: candidates_value best_def simp_thms if_True if_False two one best_of_one, simp_all only: k_def best_of_two)
  qed
  ultimately have ranked: "\<exists>ranking. kafka_ranking res = Inr ranking \<and> best_kafka ranking = best" by blast
  have b: "median_miss res best = Inr (Some (if best = ''kafka-bucket'' then mb else mr))" "best \<noteq> ''db-inbox''"
    using m by (simp_all add: best_def)
  have "final_structure res best = Inr final"
    using b m(3) by (simp add: final_structure_def miss_key_def less_prod_def final_def)
  then have "pick_structure res = Inr (best, final)" using ranked by (auto simp: pick_structure_def Let_def)
  then show ?thesis
    unfolding Let_def using med [OF m(1)] med [OF m(2)] med [OF m(3)]
    by (intro exI [of _ mb] exI [of _ mr] exI [of _ mi] conjI) (simp_all only: final_def best_def meets_iff safe insert_iff simp_thms)
qed

definition sample_report :: run_report where
  "sample_report = \<lparr>
     rr_safety = \<lparr>sf_passed = True, sf_duplicateEffects = 0, sf_unknownEffects = 0, sf_payloadMismatches = 0,
       sf_orderBreaks = 0, sf_outOfOrderRequests = 0, sf_staleOwnerWrites = 0, sf_examples = ([], [], [])\<rparr>,
     rr_liveness = \<lparr>lv_passed = True, lv_planned = 0, lv_accepted = 0, lv_notAccepted = 0, lv_undelivered = 0,
       lv_unresolvedObligations = 0, lv_openInboxRows = 0, lv_heldPermits = 0, lv_pendingAfterDelivery = 0,
       lv_undeliveredBySeller = [], lv_refused = 0, lv_refusedBySeller = [], lv_orderAcceptanceBySeller = [],
       lv_unexplainedNotAccepted = 0, lv_examples = []\<rparr>,
     rr_budget = check_budget small_limits 0 [],
     rr_latency = \<lparr>la_cohorts = [], la_perSellerJudged = []\<rparr>, rr_latencyPassed = None, rr_observability = None,
     rr_evidence = \<lparr>ed_generatorLateP99Ms = None, ed_generatorLateMaxMs = None, ed_loadFailures = 0,
       ed_clockOffsetMaxMs = None, ed_faultApplied = None, ed_passed = True\<rparr>\<rparr>"

theorem selection_rules_witness:
  "pick_structure (\<lambda>c. [Some sample_report, None, Some sample_report]) = Inr (''kafka-bucket'', ''kafka-bucket'')"
proof -
  let ?res = "\<lambda>c :: string. [Some sample_report, None, Some sample_report]"
  have "\<forall>c \<in> {''kafka-bucket'', ''kafka-retry'', ''db-inbox''}. \<exists>x. Some x \<in> set (?res c)" by auto
  from selection_rules [of ?res, OF this] show ?thesis by (auto simp: Let_def)
qed

section \<open>When the budget is gone\<close>

lemma run_refused:
  assumes "remaining_minutes s < m + 1"
  shows "suite_run env sp m s = (suite_note (NotRun sp) s, None, None)"
  using assms by (simp add: suite_run_def)

lemma remaining_note [simp]: "remaining_minutes (suite_note e s) = remaining_minutes s"
  by (simp add: remaining_minutes_def suite_note_def)

lemma specs_refused:
  "\<forall>p \<in> set ps. remaining_minutes s < snd p + 1 \<Longrightarrow>
     snd (run_specs env ps s) = replicate (length ps) None \<and> remaining_minutes (fst (run_specs env ps s)) = remaining_minutes s"
proof (induction ps arbitrary: s)
  case (Cons p ps)
  obtain sp m where p: "p = (sp, m)" by (cases p)
  have "suite_run env sp m s = (suite_note (NotRun sp) s, None, None)"
    using Cons.prems p by (intro run_refused) simp
  then show ?case using Cons.IH [of "suite_note (NotRun sp) s"] Cons.prems by (simp add: p Let_def case_prod_unfold)
qed simp

lemma c0_refused:
  "remaining_minutes s < 7 \<Longrightarrow> \<exists>rs. snd (c0_runs env cs s) = Inr rs \<and> remaining_minutes (fst (c0_runs env cs s)) = remaining_minutes s"
proof (induction cs arbitrary: s)
  case (Cons c cs)
  then have r: "suite_run env (c0_spec c 1250) (minutes_of ''c0'') s = (suite_note (NotRun (c0_spec c 1250)) s, None, None)"
    by (intro run_refused) (simp add: minutes_of_def MINUTES_def)
  show ?case using Cons.IH [of "suite_note (NotRun (c0_spec c 1250)) s"] Cons.prems
    by (auto simp: r Let_def case_prod_unfold)
qed simp

text \<open>Every candidate is in every block of E1.\<close>

definition permutes :: "(int \<Rightarrow> nat \<Rightarrow> nat list) \<Rightarrow> bool" where
  "permutes perm \<longleftrightarrow> (\<forall>seed n. mset (perm seed n) = mset [0 ..< n])"

lemma sampled_set: "permutes perm \<Longrightarrow> set (sampled perm seed xs) = set xs"
proof -
  assume "permutes perm"
  then have "set (perm seed (length xs)) = {0 ..< length xs}"
    using mset_eq_setD [of "perm seed (length xs)" "[0 ..< length xs]"] by (simp add: permutes_def)
  then have "set (sampled perm seed xs) = (\<lambda>i. xs ! i) ` {0 ..< length xs}" by (simp add: sampled_def)
  then show ?thesis by (simp add: nth_image)
qed

lemma e1_candidate: "sp_candidate (e1_spec c seed rate held label) = c"
  by (simp add: e1_spec_def bare_spec_def)

lemma e1_plan_candidates:
  assumes "permutes perm" "c \<in> set ALL_CANDIDATES"
  shows "\<exists>p \<in> set (e1_plan perm rate). sp_candidate (fst p) = c"
proof
  show "(e1_spec c 1251 rate 200 ''e1'', minutes_of ''e1'') \<in> set (e1_plan perm rate)"
    using assms sampled_set [OF assms(1), of 1251 ALL_CANDIDATES] by (auto simp: e1_plan_def SEEDS_def)
qed (simp add: e1_candidate)

lemma ne_list_if_mem: "x \<in> set xs \<Longrightarrow> xs \<noteq> []"
  by auto

lemma no_results:
  assumes "permutes perm" "c \<in> set ALL_CANDIDATES"
    and "res = e1_results (e1_plan perm rate) (replicate (length (e1_plan perm rate)) None)"
  shows "res c \<noteq> []" "\<forall>r \<in> set (res c). r = None"
proof -
  let ?n = "length (e1_plan perm rate)"
  obtain p where p: "p \<in> set (e1_plan perm rate)" "sp_candidate (fst p) = c"
    using e1_plan_candidates [OF assms(1,2)] by blast
  have z: "zip xs (replicate (length xs) None) = map (\<lambda>x. (x, None :: run_report option)) xs" for xs :: "(run_spec \<times> rat) list"
    by (induction xs) auto
  have "(p, None :: run_report option) \<in> set (filter (\<lambda>((sp, _), _). sp_candidate sp = c) (zip (e1_plan perm rate) (replicate ?n None)))"
    using p by (auto simp: z case_prod_unfold)
  then have "filter (\<lambda>((sp, _), _). sp_candidate sp = c) (zip (e1_plan perm rate) (replicate ?n (None :: run_report option))) \<noteq> []"
    by (rule ne_list_if_mem)
  then show "res c \<noteq> []" unfolding assms(3) e1_results_def map_is_Nil_conv .
  show "\<forall>r \<in> set (res c). r = None"
    by (auto simp: assms(3) e1_results_def set_zip)
qed

text \<open>An exhausted budget ends the suite with an exception. If fewer than seven minutes are left when the
  stages begin, none of the runs up to E1 is started, the selection takes the median of no results and the
  suite raises \<open>StatisticsError\<close>: the later stages asked for are neither run nor listed as not run.\<close>

lemma exhausted_budget_raises:
  assumes "remaining_minutes s < 7" "''e1'' \<in> set stages" "''g0'' \<notin> set stages" "permutes perm"
  shows "snd (suite_all env perm g0 stages rate s) = Inl StatisticsError"
proof -
  have sel: "snd (suite_from_rate env perm stages r u) = Inl StatisticsError" if u: "remaining_minutes u < 7" for r u
  proof -
    let ?plan = "e1_plan perm r"
    have "\<forall>p \<in> set ?plan. remaining_minutes u < snd p + 1" using plan_minutes(1) u by fastforce
    then have reps: "snd (run_specs env ?plan u) = replicate (length ?plan) None" by (blast dest: specs_refused)
    define res where "res = e1_results ?plan (replicate (length ?plan) None)"
    have none: "res c \<noteq> [] \<and> (\<forall>x \<in> set (res c). x = None)" if "c \<in> set ALL_CANDIDATES" for c
      using no_results [OF assms(4) that res_def] by blast
    have "\<not> safe res c" if "c \<in> set KAFKA" for c
      using none [of c] that by (cases "res c") (auto simp: safe_iff ALL_CANDIDATES_def)
    then have k: "kafka_candidates res = KAFKA" by (auto simp: kafka_candidates_def filter_empty_conv)
    have "completed_runs res ''kafka-bucket'' = []"
      using none [of "''kafka-bucket''"] unfolding set_empty [symmetric] completed_runs_set
      by (auto simp: ALL_CANDIDATES_def KAFKA_def)
    moreover have "res ''kafka-bucket'' \<noteq> []"
      using none [of "''kafka-bucket''"] by (auto simp: ALL_CANDIDATES_def KAFKA_def)
    ultimately have "with_median res ''kafka-bucket'' = Inl StatisticsError"
      by (simp add: with_median_def median_miss_def median_def)
    then have "pick_structure res = Inl StatisticsError"
      by (simp add: pick_structure_def kafka_ranking_def k KAFKA_def)
    then show ?thesis
      using assms(2) reps by (simp add: suite_from_rate_def Let_def case_prod_unfold res_def [symmetric])
  qed
  obtain s2 r where r: "suite_rate env perm stages rate s = (s2, Inr r)" "remaining_minutes s2 < 7"
  proof (cases "''c0'' \<in> set stages")
    case True
    obtain rs where "snd (c0_runs env (sampled perm 1250 ALL_CANDIDATES) s) = Inr rs"
        "remaining_minutes (fst (c0_runs env (sampled perm 1250 ALL_CANDIDATES) s)) = remaining_minutes s"
      using c0_refused [OF assms(1)] by blast
    then show thesis
      using that assms(1) True by (auto simp: suite_rate_def suite_c0_def Let_def case_prod_unfold)
  next
    case False
    then show thesis using that assms(1) by (auto simp: suite_rate_def)
  qed
  then show ?thesis using assms(3) sel by (simp add: suite_all_continues)
qed

lemma exhausted_budget_raises_witness:
  "snd (suite_all quick_env (\<lambda>_ n. [0 ..< n]) (True, 0) [''e1'', ''e2''] (Some 80) (open_suite 0 5)) = Inl StatisticsError"
proof (rule exhausted_budget_raises)
  show "remaining_minutes (open_suite 0 5) < 7" by code_simp
qed (simp_all add: permutes_def)

section \<open>C0\<close>

text \<open>The two stability criteria of C0 are one. The growth of the backlog over the last thirty seconds is
  exactly what arrived less what was completed in them, so that with exact percentages the second criterion
  (growth at most 5 per cent of the input) says the same as the first (completions at least 95 per cent).\<close>

lemma backlog_growth:
  assumes "t1 \<le> t2"
  shows "backlog created effect_at t2 - backlog created effect_at t1 = count_within t1 t2 created - count_within t1 t2 effect_at"
proof -
  have c: "count_before t2 xs = count_before t1 xs + count_within t1 t2 xs" for xs
    using assms by (induction xs) (auto simp: count_before_def count_within_def)
  have "count_within t1 t2 (sort effect_at) = count_within t1 t2 effect_at"
    by (simp add: count_within_def filter_sort_length)
  then show ?thesis by (simp add: backlog_def c)
qed

lemma backlog_growth_witness:
  "backlog [10, 20, 30, 40] [25, 45] 40 - backlog [10, 20, 30, 40] [25, 45] 20 =
     count_within 20 40 [10, 20, 30, 40] - count_within 20 40 [25, 45]"
  by (rule backlog_growth) simp

end
