(* ===== verification/Legacy_Run.thy ===== *)
theory Legacy_Run
  imports Runner Effect_Checker
begin

text \<open>
  The earlier experiment controller, \<open>experiments/run.py\<close>: rows of the MySQL client, the generated workload
  and its input in batches, a case's settings, environment and fault, the boundary gates, the figures of its
  report and its suites of cases. Processes, HTTP calls, the clock and \<open>uuid5\<close> are arguments.
\<close>

section \<open>Rows of the MySQL client\<close>

text \<open>\<open>s.split(c)\<close> for one character.\<close>

fun split_on :: "char \<Rightarrow> string \<Rightarrow> string list" where
  "split_on c [] = [[]]"
| "split_on c (x # xs) =
     (if x = c then [] # split_on c xs
      else (case split_on c xs of [] \<Rightarrow> [[x]] | y # ys \<Rightarrow> (x # y) # ys))"

text \<open>\<open>s.splitlines()\<close>: the line boundaries of Python among the characters below 256; a carriage return and line feed
  are one boundary, and no empty line follows the last one.\<close>

definition is_break :: "char \<Rightarrow> bool" where
  "is_break c \<longleftrightarrow> c \<in> {CHR 0x0A, CHR 0x0B, CHR 0x0C, CHR 0x0D, CHR 0x1C, CHR 0x1D, CHR 0x1E, CHR 0x85}"

fun lines_from :: "string \<Rightarrow> string \<Rightarrow> string list" where
  "lines_from cur [] = (if cur = [] then [] else [cur])"
| "lines_from cur (c # s) =
     (if is_break c then cur # lines_from [] (if c = CHR 0x0D \<and> take 1 s = [CHR 0x0A] then tl s else s)
      else lines_from (cur @ [c]) s)"

definition splitlines :: "string \<Rightarrow> string list" where
  "splitlines s = lines_from [] s"

definition TAB :: char where "TAB = CHR 0x09"

definition null_text :: "string \<Rightarrow> string option" where
  "null_text v = (if v = ''NULL'' then None else Some v)"

text \<open>\<open>topology.mysql\<close> of the isolation runner: every value is text or \<open>None\<close>. The argument is the client's output.\<close>

definition text_rows :: "string \<Rightarrow> (string \<times> string option) list list" where
  "text_rows out =
     (case splitlines out of
        [] \<Rightarrow> []
      | header # body \<Rightarrow> map (\<lambda>line. dict_of fst (\<lambda>kv. null_text (snd kv)) (zip (split_on TAB header) (split_on TAB line))) body)"

datatype cell = CellNull | CellInt int | CellFloat rat | CellText string

definition INT_COLUMNS :: "string list" where
  "INT_COLUMNS = [''order_id'', ''seq'', ''completed_at'', ''attempts'', ''quantity'', ''partner_sequence'',
     ''stock_quantity'', ''delta'']"

text \<open>\<open>float(text)\<close> on decimal texts: digits, a point, digits, as the client prints prices.\<close>

definition decimal_value :: "string \<Rightarrow> string \<Rightarrow> rat result" where
  "decimal_value whole part =
     bindR (if whole = [] then Inr 0 else digits_value 0 whole) (\<lambda>w.
     bindR (if part = [] then Inr 0 else digits_value 0 part) (\<lambda>f.
       if whole = [] \<and> part = [] then Inl ValueError
       else Inr (fl (of_int w + of_int f / 10 ^ length (filter (\<lambda>c. c \<noteq> CHR ''_'') part)))))"

definition parse_float :: "string \<Rightarrow> rat result" where
  "parse_float s =
     (let t = strip s; neg = (t \<noteq> [] \<and> hd t = CHR ''-''); u = (if t \<noteq> [] \<and> hd t \<in> {CHR ''-'', CHR ''+''} then tl t else t);
          v = (case split_on (CHR ''.'') u of [w] \<Rightarrow> decimal_value w [] | [w, f] \<Rightarrow> decimal_value w f | _ \<Rightarrow> Inl ValueError)
      in bindR v (\<lambda>x. Inr (if neg then - x else x)))"

definition typed_cell :: "string \<times> string \<Rightarrow> (string \<times> cell) result" where
  "typed_cell kv =
     (if snd kv = ''NULL'' then Inr (fst kv, CellNull)
      else if fst kv \<in> set INT_COLUMNS then bindR (parse_int (snd kv)) (\<lambda>n. Inr (fst kv, CellInt n))
      else if fst kv = ''price'' then bindR (parse_float (snd kv)) (\<lambda>x. Inr (fst kv, CellFloat x))
      else Inr (fst kv, CellText (snd kv)))"

definition sql_rows :: "string \<Rightarrow> (string \<times> cell) list list result" where
  "sql_rows out =
     (case splitlines out of
        [] \<Rightarrow> Inr []
      | header # body \<Rightarrow> mapR (\<lambda>line.
          bindR (mapR typed_cell (zip (split_on TAB header) (split_on TAB line))) (\<lambda>cells. Inr (dict_of fst snd cells))) body)"

section \<open>The workload\<close>

definition MARKET_SELLERS :: nat where "MARKET_SELLERS = 20"
definition MARKET_ORDERS :: nat where "MARKET_ORDERS = 300"

definition two_digits :: "nat \<Rightarrow> string" where
  "two_digits n = (if n < 10 then ''0'' @ show_nat n else show_nat n)"

definition seller_for :: "nat \<Rightarrow> string \<Rightarrow> string" where
  "seller_for i workload =
     (if workload = ''pair'' then (if i mod 2 = 0 then ''slow'' else ''normal'')
      else if i mod 5 = 0 then ''slow'' else ''s'' @ two_digits (i mod (MARKET_SELLERS - 1) + 1))"

definition dataset_event ::
    "(string \<Rightarrow> string) \<Rightarrow> (nat \<Rightarrow> nat \<Rightarrow> int) \<Rightarrow> string \<Rightarrow> string \<Rightarrow> nat \<times> nat \<Rightarrow> event result" where
  "dataset_event uuid clk run_id workload = (\<lambda>(sq, i).
     bindR (py_get [''CREATE'', ''CHANGE'', ''CANCEL''] (sq - 1)) (\<lambda>oper. Inr
       \<lparr>ev_eventId = uuid (run_id @ ''/'' @ show_nat i @ ''/'' @ show_nat sq), ev_runId = keep_last 64 run_id,
        ev_sellerId = seller_for i workload, ev_orderId = int i + 1, ev_sequence = int sq, ev_operation = oper,
        ev_occurredAt = clk sq i, ev_schemaVersion = 1, ev_quantity = int sq + 1, ev_price = of_nat (100 + sq),
        ev_padding = None\<rparr>))"

definition dataset ::
    "(string \<Rightarrow> string) \<Rightarrow> (nat \<Rightarrow> nat \<Rightarrow> int) \<Rightarrow> string \<Rightarrow> nat \<Rightarrow> nat \<Rightarrow> string \<Rightarrow> event list result" where
  "dataset uuid clk run_id orders_n operations workload =
     mapR (dataset_event uuid clk run_id workload) (List.product [1 ..< operations + 1] [0 ..< orders_n])"

section \<open>One case\<close>

record case_args =
  ca_mode :: string
  ca_scenario :: string
  ca_repeat :: nat
  ca_observe :: bool
  ca_workload :: string
  ca_partitions :: nat
  ca_rate :: nat
  ca_duration :: nat

definition case_label :: "case_args \<Rightarrow> string" where
  "case_label a =
     ca_mode a @ ''-'' @ ca_scenario a @
     (if ca_workload a = ''pair'' then []
      else ''-'' @ ca_workload a @ ''-p'' @ show_nat (ca_partitions a) @
        (if ca_workload a = ''sweep'' then ''-'' @ show_nat (ca_rate a) @ ''eps'' else []))"

definition case_orders :: "case_args \<Rightarrow> nat result" where
  "case_orders a =
     need (ca_workload a) (map_of [(''pair'', 24), (''market'', MARKET_ORDERS),
       (''sweep'', ca_rate a * ca_duration a div 3)] (ca_workload a))"

definition per_tick :: "case_args \<Rightarrow> nat" where
  "per_tick a = (if ca_workload a \<noteq> ''sweep'' then 8 else max 1 (ca_rate a div 10))"

text \<open>The settings that are computed; the others are the arguments themselves or the topology's.\<close>

record case_settings =
  cs_backlogLimit :: nat
  cs_orders :: nat
  cs_sellers :: nat
  cs_targetEventsPerSecond :: nat

definition case_settings_of :: "case_args \<Rightarrow> case_settings result" where
  "case_settings_of a =
     bindR (case_orders a) (\<lambda>n. Inr
       \<lparr>cs_backlogLimit = (if ca_scenario a = ''backlog'' then 8 else 200), cs_orders = n,
        cs_sellers = (if ca_workload a = ''pair'' then 2 else MARKET_SELLERS),
        cs_targetEventsPerSecond = per_tick a * 10\<rparr>)"

definition INBOX_VARIANTS :: "(string \<times> (string \<times> string) list) list" where
  "INBOX_VARIANTS =
     [(''inbox'', [(''APP_INBOX_BATCH_INGEST'', ''false''), (''APP_INBOX_ATTEMPTS_BEFORE_CALL'', ''true'')]),
      (''inbox-batch'', [(''APP_INBOX_BATCH_INGEST'', ''true''), (''APP_INBOX_ATTEMPTS_BEFORE_CALL'', ''true'')]),
      (''inbox-lean'', [(''APP_INBOX_BATCH_INGEST'', ''true''), (''APP_INBOX_ATTEMPTS_BEFORE_CALL'', ''false'')])]"

text \<open>The service's environment; values as \<open>java\<close> writes them.\<close>

definition updates :: "(string \<times> string) list \<Rightarrow> (string \<times> string) list \<Rightarrow> (string \<times> string) list" where
  "updates kvs d = fold (\<lambda>(k, v). AList.update k v) kvs d"

definition case_env :: "case_args \<Rightarrow> string \<Rightarrow> string \<Rightarrow> string \<Rightarrow> (string \<times> string) list" where
  "case_env a topic_name group_name partner_url =
     (let e0 = [(''PARTNER_MODE'', ca_mode a), (''PARTNER_TOPIC'', topic_name), (''PARTNER_GROUP'', group_name),
                (''APP_PARTITIONS'', show_nat (ca_partitions a)), (''APP_PARTNER_URL'', partner_url)];
          e1 = (case map_of INBOX_VARIANTS (ca_mode a) of
                  None \<Rightarrow> e0
                | Some kvs \<Rightarrow> updates ((''PARTNER_MODE'', ''inbox'') # kvs) e0);
          e2 = (if ca_workload a = ''market'' then updates [(''APP_INPUT_BUDGET'', ''5000'')] e1 else e1);
          e3 = (if ca_workload a = ''sweep''
                then updates [(''APP_INPUT_BUDGET'', ''0''), (''APP_RETAINED_LIMIT'', ''20000''),
                  (''APP_INBOX_DONE_RETENTION_MS'', ''2000'')] e2 else e2);
          e4 = (if ca_scenario a = ''rebalance''
                then updates [(''SPRING_KAFKA_CONSUMER_PROPERTIES_MAX_POLL_INTERVAL_MS'', ''2000'')] e3 else e3);
          e5 = (if ca_scenario a = ''backlog'' then updates [(''APP_BACKLOG_LIMIT'', ''8'')] e4 else e4)
      in if ca_observe a then e5 else updates [(''APP_TRACE_ENABLED'', ''false'')] e5)"

text \<open>\<open>hotkey\<close>: one order of the slow seller, the others of the normal one.\<close>

definition case_events :: "string \<Rightarrow> event list \<Rightarrow> event list" where
  "case_events scenario es =
     (if scenario = ''hotkey''
      then map (\<lambda>e. e\<lparr>ev_sellerId := (if ev_orderId e = 1 then ''slow'' else ''normal'')\<rparr>) es else es)"

definition DELAY_SCENARIOS :: "string list" where
  "DELAY_SCENARIOS = [''api'', ''backlog'', ''broker-kill'', ''hotkey'', ''park-kill'', ''hang'', ''graceful-restart'', ''scale-out'']"

definition fault_seconds :: "string \<Rightarrow> nat" where
  "fault_seconds scenario = (if scenario = ''hang'' then 12 else 6)"

text \<open>What a scenario asks of the seller mock, and whether it is cleared after \<open>fault_seconds\<close>.\<close>

definition case_fault :: "string \<Rightarrow> (policy \<times> bool) option" where
  "case_fault scenario =
     (if scenario \<in> set DELAY_SCENARIOS
      then Some (no_policy\<lparr>p_delayMs := Some (if scenario = ''hang'' then 3000 else 600),
             p_failureCount := Some (if scenario = ''hotkey'' then 1000 else 0)\<rparr>, True)
      else if scenario = ''retry'' then Some (no_policy\<lparr>p_failureCount := Some 3\<rparr>, True)
      else if scenario = ''response-loss'' then Some (no_policy\<lparr>p_dropResponse := Some True\<rparr>, False)
      else None)"

definition clear_request :: http where
  "clear_request = PostControl (Some ''slow'') (no_policy\<lparr>p_delayMs := Some 0, p_failureCount := Some 0\<rparr>)"

definition fault_requests :: "string \<Rightarrow> http list \<times> http list" where
  "fault_requests scenario =
     (case case_fault scenario of
        None \<Rightarrow> ([], [])
      | Some (p, clear) \<Rightarrow> ([PostControl (Some ''slow'') p],
          if clear then [clear_request] else []))"

definition GATE_SCENARIOS :: "string list" where
  "GATE_SCENARIOS = [''ack-kill'', ''ack-release'', ''inbox-kill'', ''worker-kill'', ''external-kill'',
     ''business-before-kill'', ''inbox-before-kill'', ''rebalance'', ''park-kill'']"

definition case_gate :: "string \<Rightarrow> string option" where
  "case_gate scenario =
     (if scenario \<in> set GATE_SCENARIOS
      then Some (get_or ''business_commit'' (map_of [(''inbox-kill'', ''inbox_commit''), (''worker-kill'', ''worker_commit''),
        (''external-kill'', ''external_success''), (''business-before-kill'', ''business_before_commit''),
        (''inbox-before-kill'', ''inbox_before_commit''), (''park-kill'', ''retry_published'')] scenario))
      else None)"

text \<open>Input in slices of \<open>per_tick\<close> events, each event stamped when its slice is sent.\<close>

fun batches :: "nat \<Rightarrow> 'a list \<Rightarrow> 'a list list" where
  "batches n xs = (if n = 0 \<or> xs = [] then [] else take n xs # batches n (drop n xs))"

declare batches.simps [simp del]

definition stamped :: "(nat \<Rightarrow> int) \<Rightarrow> event list \<Rightarrow> event list" where
  "stamped sent_at es = map (\<lambda>(k, e). e\<lparr>ev_occurredAt := sent_at k\<rparr>) (enumerate 0 es)"

definition case_input :: "case_args \<Rightarrow> (nat \<Rightarrow> int) \<Rightarrow> event list \<Rightarrow> event list list" where
  "case_input a sent_at es = batches (per_tick a) (stamped sent_at (case_events (ca_scenario a) es))"

text \<open>Where the records landed: seller and partition.\<close>

definition placement_check :: "nat \<Rightarrow> bool \<Rightarrow> (string \<times> nat) list \<Rightarrow> unit result" where
  "placement_check partitions ops placements =
     (if \<not> ops \<and> partitions = 1 \<and> snd ` set placements \<noteq> {0} then Inl AssertionError
      else if 1 < partitions \<and> \<not> ops \<and> snd ` {x \<in> set placements. fst x = ''slow''} \<noteq> {0 ..< partitions}
      then Inl AssertionError else Inr ())"

section \<open>The report\<close>

definition percentile :: "'a::linorder list \<Rightarrow> rat \<Rightarrow> 'a option result" where
  "percentile values quantile =
     (if values = [] then Inr None
      else bindR (py_get (sort values) (nat (max 0 (\<lceil>fl (quantile * of_nat (length values))\<rceil> - 1)))) (\<lambda>v. Inr (Some v)))"

record latency_row =
  lr_slow :: bool
  lr_p50Ms :: "int option"
  lr_p95Ms :: "int option"
  lr_p99Ms :: "int option"
  lr_maxMs :: int
  lr_samples :: nat

definition effect_latencies :: "bool \<Rightarrow> effect_row list \<Rightarrow> int list" where
  "effect_latencies slow effs =
     map (\<lambda>x. er_effect_at x - er_occurred_at x) (filter (\<lambda>x. (er_seller_id x = ''slow'') = slow) effs)"

definition latency_row_of :: "effect_row list \<Rightarrow> bool \<Rightarrow> latency_row result" where
  "latency_row_of effs slow =
     (let ls = effect_latencies slow effs
      in bindR (percentile ls q50) (\<lambda>a. bindR (percentile ls q95) (\<lambda>b. bindR (percentile ls q99) (\<lambda>c. Inr
        \<lparr>lr_slow = slow, lr_p50Ms = a, lr_p95Ms = b, lr_p99Ms = c, lr_maxMs = max_default 0 ls, lr_samples = length ls\<rparr>))))"

definition latency_rows :: "effect_row list \<Rightarrow> latency_row list result" where
  "latency_rows effs = mapR (latency_row_of effs) [False, True]"

text \<open>\<open>measuredNormalSloPassed\<close>: \<open>(p99 or inf) <= 1500\<close>.\<close>

definition slo_passed :: "latency_row \<Rightarrow> bool" where
  "slo_passed r = (case lr_p99Ms r of None \<Rightarrow> False | Some p \<Rightarrow> p \<noteq> 0 \<and> p \<le> 1500)"

text \<open>The controller's log: actions with their times.\<close>

definition first_time :: "string \<Rightarrow> (string \<times> int) list \<Rightarrow> int option" where
  "first_time action log_lines = map_option snd (find (\<lambda>x. fst x = action) log_lines)"

definition slow_done_at :: "effect_row list \<Rightarrow> int" where
  "slow_done_at effs = max_default 0 (map er_effect_at (filter (\<lambda>x. er_seller_id x = ''slow'') effs))"

definition since :: "int \<Rightarrow> int option \<Rightarrow> int option" where
  "since t start = (if truthy start then Some (max 0 (t - get_or 0 start)) else None)"

definition delivered_per_second :: "effect_row list \<Rightarrow> rat option" where
  "delivered_per_second effs =
     (if effs = [] then None
      else let hi = Max (set (map er_effect_at effs)); lo = Min (set (map er_occurred_at effs))
           in if lo < hi then Some (py_round 1 (fl (of_nat (length effs) / fl (of_int (hi - lo) / 1000)))) else None)"

definition input_per_second :: "nat \<Rightarrow> int option \<Rightarrow> int option \<Rightarrow> rat option" where
  "input_per_second n started input_done =
     (if truthy input_done \<and> truthy started \<and> get_or 0 started < get_or 0 input_done
      then Some (py_round 1 (fl (of_nat n / fl (of_int (get_or 0 input_done - get_or 0 started) / 1000)))) else None)"

text \<open>Counters of the database before and after.\<close>

record counters =
  mc_time :: int
  mc_status :: "(string \<times> int) list"
  mc_statements :: "(string \<times> int \<times> int) list"                  \<comment> \<open>count and picoseconds\<close>
  mc_log :: "(int \<times> int \<times> int \<times> int) option"    \<comment> \<open>redo log: writes, writePs, misc, miscPs\<close>

record mysql_report =
  mr_seconds :: rat
  mr_commitsPerSecond :: rat
  mr_questionsPerSecond :: rat
  mr_redoFsyncs :: int
  mr_redoMBWritten :: rat
  mr_rowLockWaits :: int
  mr_rowLockTimeMs :: int
  mr_threadsConnected :: "int option"
  mr_statements :: "(string \<times> int \<times> rat option) list"   \<comment> \<open>count and mean microseconds\<close>
  mr_redoMiscAvgUs :: "rat option"
  mr_redoWriteAvgUs :: "rat option"

definition average_us :: "int \<Rightarrow> int \<Rightarrow> rat option" where
  "average_us ps n = (if n = 0 then None else Some (py_round 1 (fl (fl (of_int ps / of_int n) / 1000000))))"

definition true_div :: "rat \<Rightarrow> rat \<Rightarrow> rat result" where
  "true_div x y = (if y = 0 then Inl ZeroDivisionError else Inr (fl (x / y)))"

definition mysql_usage :: "counters \<Rightarrow> counters \<Rightarrow> mysql_report result" where
  "mysql_usage b a =
     (let seconds = fl (of_int (mc_time a - mc_time b) / 1000);
          delta = (\<lambda>k. get_or 0 (map_of (mc_status a) k) - get_or 0 (map_of (mc_status b) k));
          stmt_of = (\<lambda>c k. get_or (0, 0) (map_of (mc_statements c) k));
          commits = fst (stmt_of a ''commit'') - fst (stmt_of b ''commit'')
      in bindR (true_div (of_int commits) seconds) (\<lambda>cps. bindR (true_div (of_int (delta ''Questions'')) seconds) (\<lambda>qps. Inr
        \<lparr>mr_seconds = py_round 2 seconds, mr_commitsPerSecond = py_round 1 cps, mr_questionsPerSecond = py_round 1 qps,
         mr_redoFsyncs = delta ''Innodb_os_log_fsyncs'',
         mr_redoMBWritten = py_round 2 (fl (of_int (delta ''Innodb_os_log_written'') / 1048576)),
         mr_rowLockWaits = delta ''Innodb_row_lock_waits'', mr_rowLockTimeMs = delta ''Innodb_row_lock_time'',
         mr_threadsConnected = map_of (mc_status a) ''Threads_connected'',
         mr_statements = map (\<lambda>(k, n, ps). let c = n - fst (stmt_of b k); t = ps - snd (stmt_of b k)
           in (k, c, average_us t c)) (mc_statements a),
         mr_redoMiscAvgUs = (case (mc_log a, mc_log b) of
             (Some (_, _, m, mp), Some (_, _, m0, mp0)) \<Rightarrow> average_us (mp - mp0) (m - m0) | _ \<Rightarrow> None),
         mr_redoWriteAvgUs = (case (mc_log a, mc_log b) of
             (Some (w, wp, _, _), Some (w0, wp0, _, _)) \<Rightarrow> average_us (wp - wp0) (w - w0) | _ \<Rightarrow> None)\<rparr>)))"

section \<open>Suites\<close>

definition MODES :: "string list" where
  "MODES = [''sequential'', ''async'', ''inbox'', ''inbox-batch'', ''inbox-lean'', ''circuit-breaker'', ''retry-topic'', ''parallel-consumer'']"

definition NEW_MODES :: "string list" where
  "NEW_MODES = [''circuit-breaker'', ''retry-topic'', ''parallel-consumer'']"

definition case_of :: "string \<Rightarrow> string \<Rightarrow> nat \<Rightarrow> case_args" where
  "case_of mode scenario rep = \<lparr>ca_mode = mode, ca_scenario = scenario, ca_repeat = rep, ca_observe = True,
     ca_workload = ''pair'', ca_partitions = 1, ca_rate = 80, ca_duration = 12\<rparr>"

definition comparison_cases :: "case_args list" where
  "comparison_cases =
     [case_of mode ''api'' r. r \<leftarrow> [1, 2, 3], mode \<leftarrow> NEW_MODES] @
     [(case_of mode ''api'' r)\<lparr>ca_workload := ''market'', ca_partitions := p\<rparr>. r \<leftarrow> [1, 2, 3], p \<leftarrow> [1, 4], mode \<leftarrow> MODES] @
     [(case_of mode ''hang'' r)\<lparr>ca_workload := ''market'', ca_partitions := 4\<rparr>.
        r \<leftarrow> [1, 2, 3], mode \<leftarrow> [''sequential'', ''retry-topic'', ''parallel-consumer'', ''inbox'']] @
     [case_of mode sc 1. mode \<leftarrow> NEW_MODES, sc \<leftarrow> [''db'', ''response-loss'', ''redelivery'', ''retry'', ''hotkey'',
        ''broker-kill'', ''external-kill'', ''business-before-kill'', ''ack-kill'']] @
     [case_of ''retry-topic'' ''park-kill'' 1]"

definition suite_cases :: "case_args list" where
  "suite_cases =
     [case_of mode ''api'' r. r \<leftarrow> [1, 2, 3], mode \<leftarrow> [''sequential'', ''async'', ''inbox'']] @
     [case_of mode sc 1. mode \<leftarrow> [''sequential'', ''async'', ''inbox''], sc \<leftarrow> [''db'', ''response-loss'', ''redelivery'', ''retry'']] @
     [case_of mode sc 1. mode \<leftarrow> [''sequential'', ''async''],
        sc \<leftarrow> [''ack-release'', ''ack-kill'', ''external-kill'', ''business-before-kill'', ''rebalance'']] @
     [case_of ''inbox'' sc 1. sc \<leftarrow> [''inbox-kill'', ''worker-kill'', ''external-kill'', ''business-before-kill'',
        ''inbox-before-kill'', ''backlog'']] @
     [(case_of mode ''clean'' r)\<lparr>ca_observe := ob\<rparr>. r \<leftarrow> [1, 2, 3], mode \<leftarrow> [''sequential'', ''async'', ''inbox''], ob \<leftarrow> [True, False]] @
     comparison_cases"

end
