(* ===== verification/Collector.thy ===== *)
theory Collector
  imports Legacy_Run
begin

text \<open>
  The resource collector, \<open>experiments/collector.py\<close>, with the container rows of \<open>docker_metrics.py\<close>: a
  process outside the observed JVM that samples four times a second, keeps a ring of recent samples, writes
  at most 8 MiB of observations and, at the first anomaly, saves the ring and the next five seconds. One
  iteration of its loop is \<open>collect_sample\<close>; what the HTTP calls, the database client, \<open>ps\<close> and the two clocks
  gave is its input, \<open>None\<close> or \<open>Inl\<close> where a call raised. The JSON text of a sample is an argument.
\<close>

section \<open>One sample\<close>

record service_view =
  sv_dbWaiting :: "int option"

record container_stats =
  st_usage :: "int option"
  st_inactive_file :: "int option"
  st_total_inactive_file :: "int option"
  st_cpuTotal :: "int option"

datatype container_row = ContainerError | ContainerRow "int option" "int option" "int option"
  \<comment> \<open>usage, usage without the inactive page cache, CPU nanoseconds\<close>

definition container_cache :: "container_stats \<Rightarrow> int" where
  "container_cache st = get_or (get_or 0 (st_total_inactive_file st)) (st_inactive_file st)"

definition container_row_of :: "container_stats option \<Rightarrow> container_row" where
  "container_row_of v =
     (case v of
        None \<Rightarrow> ContainerError
      | Some st \<Rightarrow> ContainerRow (st_usage st) (map_option (\<lambda>u. max 0 (u - container_cache st)) (st_usage st)) (st_cpuTotal st))"

definition container_rows :: "(string \<times> container_stats option) list \<Rightarrow> (string \<times> container_row) list" where
  "container_rows answers = dict_of fst (\<lambda>x. container_row_of (snd x)) answers"

record observation =
  it_time :: int
  it_service :: "service_view option"
  it_externalEffects :: "nat option"
  it_externalActive :: "int option"
  it_unfinished :: "nat option"
  it_oldestMs :: "(string \<times> int) list option"
  it_externalError :: bool
  it_infra :: "(string \<times> container_row) list option"
  it_collectorPeakRssBytes :: "int option"
  it_independentDb :: "(string \<times> int) list option"
  it_processRssKiB :: "int option"
  it_sampleMs :: rat

record col_input =
  ci_time :: int                                                        \<comment> \<open>wall clock, milliseconds\<close>
  ci_service :: "service_view option"
  ci_snapshot :: "(string list \<times> int) option"                          \<comment> \<open>event IDs of the effects, active calls\<close>
  ci_expected :: "event list result"                                    \<comment> \<open>\<open>expected.json\<close>; empty when absent\<close>
  ci_infra :: "(string \<times> container_stats option) list option"  \<comment> \<open>\<open>None\<close> without a local Docker\<close>
  ci_peakRss :: int
  ci_db :: "string list result"                                         \<comment> \<open>lines of the database client\<close>
  ci_pids :: string
  ci_rss :: "string result"                                             \<comment> \<open>output of \<open>ps\<close>\<close>
  ci_sampleMs :: rat
  ci_detected_at :: int                                                 \<comment> \<open>wall clock if this sample is the first anomaly\<close>

text \<open>\<open>oldestMs\<close>: the age of the oldest unfinished event of each seller, never below 0.\<close>

definition age_step :: "int \<Rightarrow> event \<Rightarrow> (string \<times> int) list \<Rightarrow> (string \<times> int) list" where
  "age_step t e ages =
     AList.update (ev_sellerId e) (max (get_or 0 (map_of ages (ev_sellerId e))) (t - ev_occurredAt e)) ages"

definition unfinished_events :: "string list \<Rightarrow> event list \<Rightarrow> event list" where
  "unfinished_events done_ids expected = filter (\<lambda>e. ev_eventId e \<notin> set done_ids) expected"

definition seller_ages :: "int \<Rightarrow> event list \<Rightarrow> (string \<times> int) list" where
  "seller_ages t missing = fold (age_step t) missing []"

fun words_of :: "string \<Rightarrow> string list" where
  "words_of [] = []"
| "words_of (c # cs) =
     (if is_blank c then words_of cs
      else (case cs of
              [] \<Rightarrow> [[c]]
            | d # _ \<Rightarrow> if is_blank d then [c] # words_of cs
                      else (case words_of cs of [] \<Rightarrow> [[c]] | w # ws \<Rightarrow> (c # w) # ws)))"

definition rss_total :: "string \<Rightarrow> int result" where
  "rss_total text = bindR (mapR parse_int (words_of text)) (\<lambda>ns. Inr (sum_list ns))"

definition db_counts :: "string list \<Rightarrow> (string \<times> int) list result" where
  "db_counts out =
     bindR (py_get out 0) (\<lambda>header. bindR (py_get out 1) (\<lambda>line.
       bindR (mapR (\<lambda>kv. bindR (parse_int (snd kv)) (\<lambda>n. Inr (fst kv, n))) (zip (split_on TAB header) (split_on TAB line)))
         (\<lambda>kvs. Inr (dict_of fst snd kvs))))"

definition ok_value :: "'a result \<Rightarrow> 'a option" where
  "ok_value r = (case r of Inl _ \<Rightarrow> None | Inr x \<Rightarrow> Some x)"

text \<open>An exception after the snapshot was read leaves the first two figures in place.\<close>

definition item_of :: "nat \<Rightarrow> col_input \<Rightarrow> observation" where
  "item_of samples i =
     (let missing = (case ci_snapshot i of
            None \<Rightarrow> None
          | Some (done_ids, _) \<Rightarrow> map_option (unfinished_events done_ids) (ok_value (ci_expected i)));
          fourth = (samples mod 4 = 0)
      in \<lparr>it_time = ci_time i, it_service = ci_service i,
          it_externalEffects = map_option (\<lambda>s. length (fst s)) (ci_snapshot i),
          it_externalActive = map_option snd (ci_snapshot i),
          it_unfinished = map_option length missing,
          it_oldestMs = map_option (seller_ages (ci_time i)) missing,
          it_externalError = (missing = None),
          it_infra = (if fourth then map_option container_rows (ci_infra i) else None),
          it_collectorPeakRssBytes = (if fourth then Some (ci_peakRss i) else None),
          it_independentDb = (if fourth then ok_value (bindR (ci_db i) db_counts) else None),
          it_processRssKiB = (if ci_pids i = [] then None else ok_value (bindR (ci_rss i) rss_total)),
          it_sampleMs = ci_sampleMs i\<rparr>)"

section \<open>The collector's state\<close>

definition RING_LIMIT :: nat where "RING_LIMIT = 120"
definition BYTE_LIMIT :: nat where "BYTE_LIMIT = 8 * 1024 * 1024"

record detection =
  de_detectedAt :: int
  de_oldestMs :: "(string \<times> int) list option"
  de_dbWaiting :: "int option"

record collector =
  co_ring :: "observation list"
  co_detected :: "int option"
  co_end_capture :: "int option"
  co_samples :: nat
  co_lost :: nat
  co_late :: nat
  co_missed :: int
  co_bytes :: nat
  co_out :: "string list"                    \<comment> \<open>\<open>observations.jsonl\<close>\<close>
  co_before :: "observation list option"            \<comment> \<open>\<open>incident-before.json\<close>\<close>
  co_detection :: "detection option"         \<comment> \<open>\<open>detection.json\<close>\<close>
  co_after :: "string list"                  \<comment> \<open>\<open>incident-after.jsonl\<close>\<close>

definition collector_start :: collector where
  "collector_start = \<lparr>co_ring = [], co_detected = None, co_end_capture = None, co_samples = 0, co_lost = 0,
     co_late = 0, co_missed = 0, co_bytes = 0, co_out = [], co_before = None, co_detection = None, co_after = []\<rparr>"

text \<open>A deque of at most 120 samples: a full one drops its oldest. Then samples more than 30 s older than the
  new one leave from the left.\<close>

definition deque_append :: "nat \<Rightarrow> 'a \<Rightarrow> 'a list \<Rightarrow> 'a list" where
  "deque_append n x r = drop (length (r @ [x]) - n) (r @ [x])"

definition ring_after :: "observation \<Rightarrow> observation list \<Rightarrow> observation list" where
  "ring_after x r = dropWhile (\<lambda>y. 30000 < it_time x - it_time y) (deque_append RING_LIMIT x r)"

definition write_line :: "string \<Rightarrow> collector \<Rightarrow> collector" where
  "write_line line s =
     (if BYTE_LIMIT < co_bytes s + length line then s\<lparr>co_lost := co_lost s + 1\<rparr>
      else s\<lparr>co_out := co_out s @ [line], co_bytes := co_bytes s + length line\<rparr>)"

definition rat_truncate :: "rat \<Rightarrow> int" where
  "rat_truncate x = (if 0 \<le> x then \<lfloor>x\<rfloor> else \<lceil>x\<rceil>)"

definition count_lateness :: "rat \<Rightarrow> observation \<Rightarrow> collector \<Rightarrow> collector" where
  "count_lateness interval x s =
     (if fl (interval * 1000) < it_sampleMs x
      then s\<lparr>co_late := co_late s + 1,
             co_missed := co_missed s + max 0 (rat_truncate (fl (it_sampleMs x / fl (interval * 1000))) - 1)\<rparr>
      else s)"

definition db_waiting :: "observation \<Rightarrow> int option" where
  "db_waiting x = (case it_service x of None \<Rightarrow> None | Some v \<Rightarrow> sv_dbWaiting v)"

definition anomaly :: "observation \<Rightarrow> bool" where
  "anomaly x \<longleftrightarrow>
     2000 \<le> max_default 0 (map snd (get_or [] (it_oldestMs x))) \<or> 0 < get_or 0 (db_waiting x)"

definition detect :: "int \<Rightarrow> observation \<Rightarrow> collector \<Rightarrow> collector" where
  "detect t x s =
     (if co_detected s = None \<and> anomaly x
      then s\<lparr>co_detected := Some t, co_before := Some (co_ring s),
             co_detection := Some \<lparr>de_detectedAt = t, de_oldestMs = it_oldestMs x, de_dbWaiting = db_waiting x\<rparr>,
             co_end_capture := Some (t + 5000)\<rparr>
      else s)"

definition capture :: "string \<Rightarrow> observation \<Rightarrow> collector \<Rightarrow> collector" where
  "capture line x s =
     (if truthy (co_detected s) \<and> it_time x \<le> get_or 0 (co_end_capture s)
      then s\<lparr>co_after := co_after s @ [line]\<rparr> else s)"

definition collect_sample :: "(observation \<Rightarrow> string) \<Rightarrow> rat \<Rightarrow> col_input \<Rightarrow> collector \<Rightarrow> collector" where
  "collect_sample json interval i s =
     (let x = item_of (co_samples s) i; line = json x @ [CHR 0x0A];
          s1 = write_line line s;
          s2 = s1\<lparr>co_ring := ring_after x (co_ring s1)\<rparr>;
          s3 = count_lateness interval x s2;
          s4 = s3\<lparr>co_samples := co_samples s3 + 1\<rparr>
      in capture line x (detect (ci_detected_at i) x s4))"

definition collector_run :: "(observation \<Rightarrow> string) \<Rightarrow> rat \<Rightarrow> col_input list \<Rightarrow> collector" where
  "collector_run json interval inputs = fold (collect_sample json interval) inputs collector_start"

section \<open>What is kept stays bounded\<close>

definition collector_inv :: "nat \<Rightarrow> collector \<Rightarrow> bool" where
  "collector_inv n s \<longleftrightarrow> co_bytes s = sum_list (map length (co_out s)) \<and> co_bytes s \<le> BYTE_LIMIT \<and>
     co_samples s = n \<and> length (co_out s) + co_lost s = n \<and> length (co_ring s) \<le> RING_LIMIT \<and>
     (case co_before s of None \<Rightarrow> True | Some r \<Rightarrow> length r \<le> RING_LIMIT)"

lemma length_ring_after: "length (ring_after x r) \<le> RING_LIMIT"
  unfolding ring_after_def deque_append_def by (rule order_trans [OF length_dropWhile_le]) simp

lemma stage_fields [simp]:
  "co_bytes (count_lateness v x s) = co_bytes s" "co_out (count_lateness v x s) = co_out s"
  "co_samples (count_lateness v x s) = co_samples s" "co_lost (count_lateness v x s) = co_lost s"
  "co_ring (count_lateness v x s) = co_ring s" "co_before (count_lateness v x s) = co_before s"
  "co_detected (count_lateness v x s) = co_detected s" "co_end_capture (count_lateness v x s) = co_end_capture s"
  "co_after (count_lateness v x s) = co_after s"
  "co_bytes (detect t x s) = co_bytes s" "co_out (detect t x s) = co_out s" "co_samples (detect t x s) = co_samples s"
  "co_lost (detect t x s) = co_lost s" "co_ring (detect t x s) = co_ring s" "co_after (detect t x s) = co_after s"
  "co_bytes (capture l x s) = co_bytes s" "co_out (capture l x s) = co_out s" "co_samples (capture l x s) = co_samples s"
  "co_lost (capture l x s) = co_lost s" "co_ring (capture l x s) = co_ring s" "co_before (capture l x s) = co_before s"
  "co_detected (capture l x s) = co_detected s" "co_end_capture (capture l x s) = co_end_capture s"
  "co_samples (write_line l s) = co_samples s" "co_ring (write_line l s) = co_ring s" "co_before (write_line l s) = co_before s"
  "co_detected (write_line l s) = co_detected s" "co_end_capture (write_line l s) = co_end_capture s"
  "co_after (write_line l s) = co_after s"
  by (simp_all add: count_lateness_def detect_def capture_def write_line_def)

lemma collect_sample_inv:
  assumes "collector_inv n s"
  shows "collector_inv (Suc n) (collect_sample json interval i s)"
proof -
  have bef: "co_before (detect t x u) = (if co_detected u = None \<and> anomaly x then Some (co_ring u) else co_before u)" for t x u
    by (simp add: detect_def)
  show ?thesis
    using assms length_ring_after [of "item_of (co_samples s) i" "co_ring s"]
    by (auto simp: collector_inv_def collect_sample_def Let_def bef write_line_def split: option.splits)
qed

lemma collector_run_snoc:
  "collector_run json interval (inputs @ [i]) = collect_sample json interval i (collector_run json interval inputs)"
  by (simp add: collector_run_def)

lemma collector_run_Nil [simp]: "collector_run json interval [] = collector_start"
  by (simp add: collector_run_def)

lemma collector_run_inv: "collector_inv (length inputs) (collector_run json interval inputs)"
proof (induction inputs rule: rev_induct)
  case Nil
  show ?case by (simp add: collector_inv_def collector_start_def)
next
  case (snoc i inputs)
  then show ?case using collect_sample_inv by (simp add: collector_run_snoc)
qed

section \<open>The ring holds the last thirty seconds\<close>

definition too_old :: "observation \<Rightarrow> observation \<Rightarrow> bool" where
  "too_old x y \<longleftrightarrow> 30000 < it_time x - it_time y"

definition recent :: "observation list \<Rightarrow> observation list" where
  "recent its = filter (\<lambda>y. \<not> too_old (last its) y) (drop (length its - RING_LIMIT) its)"

lemma dropWhile_sorted_filter:
  "sorted (map it_time ys) \<Longrightarrow> dropWhile (too_old x) ys = filter (\<lambda>y. \<not> too_old x y) ys"
proof (induction ys)
  case (Cons y ys)
  show ?case
  proof (cases "too_old x y")
    case True
    with Cons show ?thesis by simp
  next
    case False
    with Cons.prems have "\<not> too_old x z" if "z \<in> set ys" for z using that by (fastforce simp: too_old_def)
    with False show ?thesis by simp
  qed
qed simp

lemma sorted_map_drop: "sorted (map f xs) \<Longrightarrow> sorted (map f (drop k xs))"
  by (metis drop_map sorted_wrt_drop)

lemma ring_after_recent:
  assumes srt: "sorted (map it_time (its @ [x]))"
  shows "ring_after x (recent its) = recent (its @ [x])"
proof -
  define w where "w = drop (length its - RING_LIMIT) its"
  define r where "r = recent its"
  have r: "r = filter (\<lambda>y. \<not> too_old (last its) y) w" by (simp add: r_def recent_def w_def)
  have wx: "sorted (map it_time (w @ [x]))"
    using sorted_map_drop [OF srt, of "length its - RING_LIMIT"] by (simp add: w_def)
  have older: "too_old x y" if "too_old (last its) y" "its \<noteq> []" for y
    using that srt by (force simp: too_old_def sorted_append dest: last_in_set)
  have srx: "sorted (map it_time (drop k (r @ [x])))" for k
  proof -
    have "sorted (map it_time (r @ [x]))"
      using wx unfolding r by (auto simp: sorted_append sorted_filter)
    then show ?thesis by (rule sorted_map_drop)
  qed
  have left: "ring_after x r = filter (\<lambda>y. \<not> too_old x y) (drop (Suc (length r) - RING_LIMIT) (r @ [x]))"
    unfolding ring_after_def deque_append_def too_old_def [symmetric]
    by (subst dropWhile_sorted_filter [OF srx]) simp
  have one: "Suc 0 - RING_LIMIT = 0" by (simp add: RING_LIMIT_def)
  have x: "\<not> too_old x x" by (simp add: too_old_def)
  have keep: "filter (\<lambda>y. \<not> too_old x y) r = filter (\<lambda>y. \<not> too_old x y) w"
  proof (cases "its = []")
    case False
    then show ?thesis unfolding r filter_filter using older by (metis (mono_tags, lifting))
  qed (simp add: r w_def)
  have right: "recent (its @ [x]) = filter (\<lambda>y. \<not> too_old x y) (if length its < RING_LIMIT then w @ [x] else tl w @ [x])"
    using one by (auto simp: recent_def w_def Suc_diff_le drop_Suc tl_drop)
  have lw: "length w \<le> RING_LIMIT" by (simp add: w_def)
  show ?thesis
  proof (cases "length r = RING_LIMIT")
    case True
    then have "r = w" using r lw by (metis filter_id_conv length_filter_less not_le order_less_le)
    moreover have "\<not> length its < RING_LIMIT" using True calculation by (auto simp: w_def)
    moreover have "w \<noteq> []" using True \<open>r = w\<close> by (auto simp: RING_LIMIT_def)
    ultimately show ?thesis
      using left right True one by (simp add: r_def [symmetric] drop_Suc)
  next
    case False
    then have lr: "length r < RING_LIMIT" using r lw by (metis le_neq_implies_less le_trans length_filter_le)
    then have l: "ring_after x r = filter (\<lambda>y. \<not> too_old x y) w @ [x]"
      using left x keep by (simp add: Suc_diff_le)
    show ?thesis
    proof (cases "length its < RING_LIMIT")
      case True
      then show ?thesis using l right x by (simp add: r_def [symmetric])
    next
      case False
      then have "length w = RING_LIMIT" by (simp add: w_def)
      then obtain y ys where w: "w = y # ys" by (cases w) (auto simp: RING_LIMIT_def)
      obtain z where "z \<in> set w" "too_old (last its) z"
        using lr \<open>length w = RING_LIMIT\<close> unfolding r by (metis filter_True order_less_irrefl)
      moreover have "it_time y \<le> it_time z" using wx w \<open>z \<in> set w\<close> by auto
      ultimately have "too_old x y" using older False by (fastforce simp: too_old_def RING_LIMIT_def)
      then show ?thesis using l right x False by (simp add: r_def [symmetric] w)
    qed
  qed
qed

section \<open>Detection\<close>

definition waiting :: "col_input \<Rightarrow> bool" where
  "waiting i \<longleftrightarrow> (\<exists>v n. ci_service i = Some v \<and> sv_dbWaiting v = Some n \<and> 0 < n)"

definition overdue :: "col_input \<Rightarrow> bool" where
  "overdue i \<longleftrightarrow> (\<exists>done_ids n es e. ci_snapshot i = Some (done_ids, n) \<and> ci_expected i = Inr es \<and> e \<in> set es \<and>
     ev_eventId e \<notin> set done_ids \<and> 2000 \<le> ci_time i - ev_occurredAt e)"

text \<open>The value of a seller is its greatest age, if that is positive.\<close>

lemma seller_age_ge_iff:
  assumes "0 < c"
  shows "c \<le> get_or 0 (map_of (seller_ages t ms) k) \<longleftrightarrow> (\<exists>e \<in> set ms. ev_sellerId e = k \<and> c \<le> t - ev_occurredAt e)"
proof (induction ms rule: rev_induct)
  case Nil
  show ?case using assms by (simp add: seller_ages_def)
next
  case (snoc e ms)
  have "seller_ages t (ms @ [e]) = age_step t e (seller_ages t ms)" by (simp add: seller_ages_def)
  with snoc show ?case by (cases "ev_sellerId e = k") (auto simp: age_step_def update_conv' le_max_iff_disj)
qed

lemma distinct_seller_ages: "distinct (map fst (seller_ages t ms))"
proof -
  have "distinct (map fst d) \<Longrightarrow> distinct (map fst (fold (age_step t) ms d))" for d
    by (induction ms arbitrary: d) (simp_all add: age_step_def distinct_update)
  then show ?thesis by (simp add: seller_ages_def)
qed

lemma oldest_age_ge_iff:
  assumes "0 < c"
  shows "c \<le> max_default 0 (map snd (seller_ages t ms)) \<longleftrightarrow> (\<exists>e \<in> set ms. c \<le> t - ev_occurredAt e)"
proof -
  let ?d = "seller_ages t ms"
  have "c \<le> max_default 0 (map snd ?d) \<longleftrightarrow> (\<exists>a \<in> snd ` set ?d. c \<le> a)"
  proof
    assume big: "c \<le> max_default 0 (map snd ?d)"
    then have "map snd ?d \<noteq> []" using assms by (auto simp: max_default_def)
    from max_default_in [OF this, of 0] have "max_default 0 (map snd ?d) \<in> snd ` set ?d" by simp
    with big show "\<exists>a \<in> snd ` set ?d. c \<le> a" by blast
  next
    assume "\<exists>a \<in> snd ` set ?d. c \<le> a"
    then obtain a where "a \<in> set (map snd ?d)" "c \<le> a" by auto
    then show "c \<le> max_default 0 (map snd ?d)" using max_default_ge order_trans by blast
  qed
  also have "\<dots> \<longleftrightarrow> (\<exists>k. c \<le> get_or 0 (map_of ?d k))"
  proof
    assume "\<exists>a \<in> snd ` set ?d. c \<le> a"
    then obtain k a where "(k, a) \<in> set ?d" "c \<le> a" by auto
    then show "\<exists>k. c \<le> get_or 0 (map_of ?d k)"
      using distinct_seller_ages [of t ms] by (metis get_or_simps(2) map_of_is_SomeI)
  next
    assume "\<exists>k. c \<le> get_or 0 (map_of ?d k)"
    then obtain k where k: "c \<le> get_or 0 (map_of ?d k)" ..
    then obtain a where "map_of ?d k = Some a" using assms by (cases "map_of ?d k") auto
    with k show "\<exists>a \<in> snd ` set ?d. c \<le> a" by (force dest: map_of_SomeD)
  qed
  also have "\<dots> \<longleftrightarrow> (\<exists>e \<in> set ms. c \<le> t - ev_occurredAt e)"
    using seller_age_ge_iff [OF assms] by blast
  finally show ?thesis .
qed

lemma anomaly_iff: "anomaly (item_of n i) \<longleftrightarrow> waiting i \<or> overdue i"
proof -
  have w: "0 < get_or 0 (db_waiting (item_of n i)) \<longleftrightarrow> waiting i"
    by (auto simp: db_waiting_def item_of_def waiting_def Let_def get_or_def split: option.splits)
  have "2000 \<le> max_default 0 (map snd (get_or [] (it_oldestMs (item_of n i)))) \<longleftrightarrow> overdue i"
  proof (cases "ci_snapshot i")
    case None
    then show ?thesis by (simp add: item_of_def Let_def overdue_def max_default_def)
  next
    case (Some v)
    obtain done_ids a where v: "v = (done_ids, a)" by (cases v)
    show ?thesis
      using Some v oldest_age_ge_iff [of 2000 "ci_time i"]
      by (cases "ci_expected i")
        (auto simp: item_of_def Let_def overdue_def max_default_def [of _ "[]"] ok_value_def unfinished_events_def)
  qed
  then show ?thesis using w by (auto simp: anomaly_def)
qed

lemma collect_sample_fields:
  fixes s json interval i
  defines "x \<equiv> item_of (co_samples s) i" and "s' \<equiv> collect_sample json interval i s"
  shows "co_samples s' = co_samples s + 1"
    and "co_ring s' = ring_after x (co_ring s)"
    and "co_detected s' = (if co_detected s = None \<and> anomaly x then Some (ci_detected_at i) else co_detected s)"
    and "co_end_capture s' = (if co_detected s = None \<and> anomaly x then Some (ci_detected_at i + 5000) else co_end_capture s)"
    and "co_before s' = (if co_detected s = None \<and> anomaly x then Some (ring_after x (co_ring s)) else co_before s)"
    and "co_after s' = co_after s @
      (if truthy (co_detected s') \<and> it_time x \<le> get_or 0 (co_end_capture s') then [json x @ [CHR 0x0A]] else [])"
  unfolding s'_def x_def collect_sample_def Let_def
  by (simp_all add: detect_def) (simp add: capture_def)

text \<open>C17: The collector's sample file stays within its bound: the bytes counted are those written to \<open>observations.jsonl\<close>
  and are at most 8 MiB, every sample is either written there or counted as lost, and the ring in memory and the samples
  saved in \<open>incident-before.json\<close> are at most 120. The incident and detection files are outside this count.\<close>

theorem collector_bounded:
  "let s = collector_run json interval inputs
   in co_bytes s = sum_list (map length (co_out s)) \<and> co_bytes s \<le> 8388608 \<and>
      length (co_out s) + co_lost s = length inputs \<and> length (co_ring s) \<le> 120 \<and>
      length (get_or [] (co_before s)) \<le> 120"
  using collector_run_inv [of inputs json interval]
  by (auto simp: collector_inv_def BYTE_LIMIT_def RING_LIMIT_def Let_def split: option.splits)

text \<open>The collector reports an incident exactly when some sample shows a thread waiting for a database
  connection, or an expected event that the seller has not effected two seconds after it occurred.\<close>

lemma incident_detected_iff:
  "co_detected (collector_run json interval inputs) \<noteq> None \<longleftrightarrow> (\<exists>i \<in> set inputs. waiting i \<or> overdue i)"
proof (induction inputs rule: rev_induct)
  case Nil
  show ?case by (simp add: collector_start_def)
next
  case (snoc i inputs)
  then show ?case by (auto simp: collector_run_snoc collect_sample_fields(3) anomaly_iff)
qed

section \<open>The incident files\<close>

definition items_of :: "col_input list \<Rightarrow> observation list" where
  "items_of inputs = map (\<lambda>(k, i). item_of k i) (enumerate 0 inputs)"

definition first_anomaly :: "observation list \<Rightarrow> nat \<Rightarrow> bool" where
  "first_anomaly its k \<longleftrightarrow> k < length its \<and> anomaly (its ! k) \<and> (\<forall>j < k. \<not> anomaly (its ! j))"

definition incident_state :: "(observation \<Rightarrow> string) \<Rightarrow> col_input list \<Rightarrow> nat \<Rightarrow> collector \<Rightarrow> bool" where
  "incident_state json inputs k s \<longleftrightarrow>
     (let its = items_of inputs; t = ci_detected_at (inputs ! k)
      in co_detected s = Some t \<and> co_end_capture s = Some (t + 5000) \<and> co_before s = Some (recent (take (Suc k) its)) \<and>
         co_after s = map (\<lambda>x. json x @ [CHR 0x0A]) (filter (\<lambda>x. it_time x \<le> t + 5000) (drop k its)))"

lemma length_items_of [simp]: "length (items_of inputs) = length inputs"
  by (simp add: items_of_def)

lemma items_of_snoc: "items_of (inputs @ [i]) = items_of inputs @ [item_of (length inputs) i]"
  by (simp add: items_of_def enumerate_append_eq)

lemma items_times: "map it_time (items_of inputs) = map ci_time inputs"
  by (induction inputs rule: rev_induct) (auto simp: items_of_snoc item_of_def Let_def, simp add: items_of_def)

lemma first_anomaly_unique: "first_anomaly its k \<Longrightarrow> first_anomaly its k' \<Longrightarrow> k = k'"
  unfolding first_anomaly_def by (metis linorder_neqE_nat)

lemma collector_follows:
  assumes "sorted (map ci_time inputs)" and "\<forall>i \<in> set inputs. ci_detected_at i \<noteq> 0"
  shows "co_ring (collector_run json interval inputs) = recent (items_of inputs) \<and>
    (if \<forall>x \<in> set (items_of inputs). \<not> anomaly x
     then co_detected (collector_run json interval inputs) = None \<and> co_before (collector_run json interval inputs) = None \<and>
       co_after (collector_run json interval inputs) = []
     else \<exists>k. first_anomaly (items_of inputs) k \<and> incident_state json inputs k (collector_run json interval inputs))"
  using assms
proof (induction inputs rule: rev_induct)
  case Nil
  show ?case by (simp add: collector_start_def items_of_def recent_def)
next
  case (snoc i inputs)
  define s where "s = collector_run json interval inputs"
  define x where "x = item_of (length inputs) i"
  define its where "its = items_of inputs"
  have run: "collector_run json interval (inputs @ [i]) = collect_sample json interval i s"
    by (simp add: s_def collector_run_snoc)
  have n: "co_samples s = length inputs"
    using collector_run_inv [of inputs json interval] by (simp add: collector_inv_def s_def)
  note f = collect_sample_fields [of json interval i s, unfolded n x_def [symmetric]]
  have its: "items_of (inputs @ [i]) = its @ [x]" by (simp add: its_def x_def items_of_snoc)
  have len: "length its = length inputs" by (simp add: its_def)
  have srt: "sorted (map it_time (its @ [x]))" using snoc.prems(1) items_times [of "inputs @ [i]"] its by simp
  have t: "truthy (Some (ci_detected_at i))" "\<And>k. k < length inputs \<Longrightarrow> truthy (Some (ci_detected_at (inputs ! k)))"
    using snoc.prems(2) by (auto simp: truthy_def)
  have IH: "co_ring s = recent its" and old: "if \<forall>x \<in> set its. \<not> anomaly x
      then co_detected s = None \<and> co_before s = None \<and> co_after s = []
      else \<exists>k. first_anomaly its k \<and> incident_state json inputs k s"
    using snoc by (auto simp: s_def its_def sorted_append)
  have ring: "co_ring (collect_sample json interval i s) = recent (its @ [x])"
    using f(2) IH ring_after_recent [OF srt] by simp
  show ?case
  proof (cases "\<forall>x \<in> set its. \<not> anomaly x")
    case quiet: True
    with old have none: "co_detected s = None" "co_before s = None" "co_after s = []" by simp_all
    show ?thesis
    proof (cases "anomaly x")
      case False
      then show ?thesis using ring f none quiet unfolding run its by (simp add: truthy_def)
    next
      case True
      have first: "first_anomaly (its @ [x]) (length inputs)"
        using quiet True len by (auto simp: first_anomaly_def nth_append)
      have "incident_state json (inputs @ [i]) (length inputs) (collect_sample json interval i s)"
        using f none True t(1) IH ring_after_recent [OF srt] len by (simp add: incident_state_def Let_def its)
      then show ?thesis using True ring first unfolding run its by auto
    qed
  next
    case False
    with old obtain k where k: "first_anomaly its k" "incident_state json inputs k s" by auto
    then have kl: "k < length inputs" by (simp add: first_anomaly_def len)
    have first: "first_anomaly (its @ [x]) k" using k(1) by (simp add: first_anomaly_def nth_append)
    have det: "co_detected s \<noteq> None" using k(2) by (auto simp: incident_state_def Let_def)
    have "incident_state json (inputs @ [i]) k (collect_sample json interval i s)"
      using k(2) f det t(2) [OF kl] kl len
      by (auto simp: incident_state_def Let_def its its_def [symmetric] nth_append)
    then show ?thesis using False ring first unfolding run its by auto
  qed
qed

text \<open>C16: With a clock that does not run backwards, the first sample that shows an anomaly makes the incident:
  \<open>incident-before.json\<close> holds exactly the samples of the thirty seconds up to it, at most 120 of them, and
  \<open>incident-after.jsonl\<close> every later sample until five seconds after the detection, that one included.\<close>

theorem incident_files:
  assumes "sorted (map ci_time inputs)" and "\<forall>i \<in> set inputs. ci_detected_at i \<noteq> 0"
    and "k < length inputs" and "anomaly (items_of inputs ! k)" and "\<forall>j < k. \<not> anomaly (items_of inputs ! j)"
  shows "let s = collector_run json interval inputs; its = items_of inputs; t = ci_detected_at (inputs ! k)
    in co_detected s = Some t \<and>
       co_before s = Some (filter (\<lambda>y. it_time (its ! k) - it_time y \<le> 30000) (drop (Suc k - 120) (take (Suc k) its))) \<and>
       co_after s = map (\<lambda>x. json x @ [CHR 0x0A]) (filter (\<lambda>x. it_time x \<le> t + 5000) (drop k its))"
proof -
  have k: "first_anomaly (items_of inputs) k" using assms(3-5) by (simp add: first_anomaly_def)
  then have "\<not> (\<forall>x \<in> set (items_of inputs). \<not> anomaly x)" by (auto simp: first_anomaly_def)
  with collector_follows [OF assms(1,2), of json interval] k
  have "incident_state json inputs k (collector_run json interval inputs)" using first_anomaly_unique by auto
  moreover have "recent (take (Suc k) (items_of inputs)) =
      filter (\<lambda>y. it_time (items_of inputs ! k) - it_time y \<le> 30000) (drop (Suc k - 120) (take (Suc k) (items_of inputs)))"
    using assms(3) by (simp add: recent_def too_old_def RING_LIMIT_def not_less take_Suc_conv_app_nth)
  ultimately show ?thesis by (simp add: incident_state_def Let_def)
qed

definition sample_tick_at :: "int \<Rightarrow> int \<Rightarrow> col_input" where
  "sample_tick_at t w = \<lparr>ci_time = t, ci_service = Some \<lparr>sv_dbWaiting = Some w\<rparr>, ci_snapshot = None, ci_expected = Inr [],
     ci_infra = None, ci_peakRss = 0, ci_db = Inl TimeoutError, ci_pids = [], ci_rss = Inl ValueError,
     ci_sampleMs = 10, ci_detected_at = t + 20\<rparr>"

theorem incident_files_witness:
  "let inputs = [sample_tick_at 1000 0, sample_tick_at 40000 2, sample_tick_at 46000 0];
       s = collector_run (\<lambda>x. ''sample'') (1 / 4) inputs
   in co_detected s = Some 40020 \<and> co_before s = Some [items_of inputs ! 1] \<and> co_after s = [''sample'' @ [CHR 0x0A]]"
proof -
  let ?is = "[sample_tick_at 1000 0, sample_tick_at 40000 2, sample_tick_at 46000 0]"
  have its: "items_of ?is = [item_of 0 (sample_tick_at 1000 0), item_of 1 (sample_tick_at 40000 2), item_of 2 (sample_tick_at 46000 0)]"
    by (simp add: items_of_def numeral_2_eq_2)
  have an: "anomaly (item_of n (sample_tick_at t w)) \<longleftrightarrow> 0 < w" for n t w
    by (simp add: anomaly_iff waiting_def overdue_def sample_tick_at_def)
  have tm: "it_time (item_of n (sample_tick_at t w)) = t" for n t w
    by (simp add: item_of_def Let_def sample_tick_at_def)
  have "ci_time (sample_tick_at t w) = t" "ci_detected_at (sample_tick_at t w) = t + 20" for t w
    by (simp_all add: sample_tick_at_def)
  then have "let s = collector_run (\<lambda>x. ''sample'') (1 / 4) ?is; its = items_of ?is; t = 40020
    in co_detected s = Some t \<and>
       co_before s = Some (filter (\<lambda>y. it_time (its ! 1) - it_time y \<le> 30000) (drop (Suc 1 - 120) (take (Suc 1) its))) \<and>
       co_after s = map (\<lambda>x. ''sample'' @ [CHR 0x0A]) (filter (\<lambda>x. it_time x \<le> t + 5000) (drop 1 its))"
    using incident_files [of ?is 1 "\<lambda>x. ''sample''" "1 / 4"] by (simp add: its an)
  then show ?thesis by (simp add: its tm Let_def)
qed

end
