(* ===== verification/Delivery.thy ===== *)
theory Delivery
  imports Mock_Server Effect_Checker
begin

text \<open>
  At-least-once delivery end to end: any sequence of requests against the seller mock, with refused calls, lost
  responses and duplicates, and the verdict of \<open>checker.py\<close> on the snapshot that the mock then returns.
\<close>

section \<open>Requests and what the mock accepts\<close>

definition event_request :: "event \<Rightarrow> request" where
  "event_request e = \<lparr>r_body = body_of e, r_key = Some (ev_eventId e), r_instance = None\<rparr>"

definition refusals :: "controls \<Rightarrow> event \<Rightarrow> int" where
  "refusals c e = max 0 (get_or 0 (p_failureCount (policy_for c (ev_sellerId e))))"

text \<open>The events in the order of their first accepted request: the one after \<open>refusals\<close> earlier ones.\<close>

definition accepted_events :: "controls \<Rightarrow> event list \<Rightarrow> event list" where
  "accepted_events c qs =
     map snd (filter (\<lambda>(i, e). int (count_list (map ev_eventId (take i qs)) (ev_eventId e)) = refusals c e) (enumerate 0 qs))"

text \<open>Each order's events are numbered 1, 2, \<dots> in the order given.\<close>

definition earlier :: "event list \<Rightarrow> string \<times> int \<Rightarrow> int" where
  "earlier es k = int (length (filter (\<lambda>x. event_order x = k) es))"

definition numbered :: "event list \<Rightarrow> bool" where
  "numbered es \<longleftrightarrow> (\<forall>i < length es. ev_sequence (es ! i) = earlier (take i es) (event_order (es ! i)) + 1)"

lemma numbered_Nil [simp]: "numbered []"
  by (simp add: numbered_def)

lemma numbered_snoc: "numbered (es @ [e]) \<longleftrightarrow> numbered es \<and> ev_sequence e = earlier es (event_order e) + 1"
  by (auto simp: numbered_def nth_append less_Suc_eq)

lemma accepted_snoc:
  "accepted_events c (qs @ [e]) = accepted_events c qs @
     (if int (count_list (map ev_eventId qs) (ev_eventId e)) = refusals c e then [e] else [])"
proof -
  have "filter (\<lambda>(i, x). int (count_list (map ev_eventId (take i (qs @ [e]))) (ev_eventId x)) = refusals c x) (enumerate 0 qs) =
      filter (\<lambda>(i, x). int (count_list (map ev_eventId (take i qs)) (ev_eventId x)) = refusals c x) (enumerate 0 qs)"
    by (rule filter_cong) (auto simp: in_set_enumerate_eq)
  then show ?thesis by (simp add: accepted_events_def enumerate_append_eq)
qed

lemma accepted_subset: "set (accepted_events c qs) \<subseteq> set qs"
  by (induction qs rule: rev_induct) (auto simp: accepted_snoc, simp add: accepted_events_def)

definition identified :: "event list \<Rightarrow> bool" where
  "identified qs \<longleftrightarrow> inj_on ev_eventId (set qs)"

lemma accepted_iff:
  assumes "identified qs" "e \<in> set qs"
  shows "e \<in> set (accepted_events c qs) \<longleftrightarrow> refusals c e < int (count_list (map ev_eventId qs) (ev_eventId e))"
  using assms
proof (induction qs rule: rev_induct)
  case (snoc x qs)
  have inj: "identified qs" "ev_eventId x = ev_eventId e \<longleftrightarrow> x = e"
    using snoc.prems by (auto simp: identified_def inj_on_def)
  show ?case
  proof (cases "e \<in> set qs")
    case True
    then show ?thesis using snoc.IH [OF inj(1)] inj(2) by (auto simp: accepted_snoc)
  next
    case False
    then have "ev_eventId e \<notin> ev_eventId ` set qs" using snoc.prems by (auto simp: identified_def inj_on_def)
    then have "count_list (map ev_eventId qs) (ev_eventId e) = 0" by (simp add: count_list_0_iff)
    moreover have "x = e" using False snoc.prems(2) by simp
    moreover have "0 \<le> refusals c e" by (simp add: refusals_def)
    ultimately show ?thesis using False accepted_subset [of c qs] by (auto simp: accepted_snoc)
  qed
qed simp

lemma accepted_distinct:
  assumes "identified qs"
  shows "distinct (map ev_eventId (accepted_events c qs))"
  using assms
proof (induction qs rule: rev_induct)
  case Nil
  show ?case by (simp add: accepted_events_def)
next
  case (snoc x qs)
  have inj: "identified qs" using snoc.prems by (auto simp: identified_def)
  show ?case
  proof (cases "int (count_list (map ev_eventId qs) (ev_eventId x)) = refusals c x")
    case True
    have "ev_eventId x \<notin> ev_eventId ` set (accepted_events c qs)"
    proof
      assume "ev_eventId x \<in> ev_eventId ` set (accepted_events c qs)"
      then have "x \<in> set (accepted_events c qs)"
        using snoc.prems accepted_subset [of c qs] by (auto simp: identified_def inj_on_def)
      then show False using accepted_iff [OF inj, of x c] accepted_subset [of c qs] True by auto
    qed
    then show ?thesis using snoc.IH [OF inj] True by (simp add: accepted_snoc)
  qed (use snoc.IH [OF inj] in \<open>simp add: accepted_snoc\<close>)
qed

section \<open>What numbering says of the last event of an order\<close>

lemma earlier_snoc: "earlier (es @ [x]) k = earlier es k + (if event_order x = k then 1 else 0)"
  by (simp add: earlier_def)

lemma numbered_range:
  "numbered es \<Longrightarrow> e \<in> set es \<Longrightarrow> 1 \<le> ev_sequence e \<and> ev_sequence e \<le> earlier es (event_order e)"
proof (induction es rule: rev_induct)
  case (snoc x es)
  have "0 \<le> earlier es (event_order e)" by (simp add: earlier_def)
  then show ?case using snoc by (auto simp: numbered_snoc earlier_snoc)
qed simp

lemma numbered_top:
  "numbered es \<Longrightarrow> k \<in> event_order ` set es \<Longrightarrow> \<exists>x \<in> set es. event_order x = k \<and> ev_sequence x = earlier es k"
proof (induction es rule: rev_induct)
  case (snoc x es)
  show ?case
  proof (cases "event_order x = k")
    case True
    then show ?thesis using snoc.prems by (auto simp: numbered_snoc earlier_snoc)
  next
    case False
    then have "k \<in> event_order ` set es" using snoc.prems by auto
    then show ?thesis using snoc False by (auto simp: numbered_snoc earlier_snoc)
  qed
qed simp

lemma numbered_is_last:
  assumes "numbered es" "is_last es e"
  shows "ev_sequence e = earlier es (event_order e)"
proof -
  have e: "e \<in> set es" using assms(2) by (simp add: is_last_def)
  then obtain x where "x \<in> set es" "event_order x = event_order e" "ev_sequence x = earlier es (event_order e)"
    using numbered_top [OF assms(1), of "event_order e"] by auto
  then have "earlier es (event_order e) \<le> ev_sequence e" using assms(2) by (auto simp: is_last_def)
  then show ?thesis using numbered_range [OF assms(1) e] by simp
qed

lemma numbered_less:
  "numbered (es @ [x]) \<Longrightarrow> y \<in> set es \<Longrightarrow> event_order y = event_order x \<Longrightarrow> ev_sequence y < ev_sequence x"
  using numbered_range [of es y] by (simp add: numbered_snoc)

lemma numbered_distinct: "numbered es \<Longrightarrow> distinct (map (\<lambda>e. (event_order e, ev_sequence e)) es)"
proof (induction es rule: rev_induct)
  case (snoc x es)
  have "(event_order x, ev_sequence x) \<notin> (\<lambda>e. (event_order e, ev_sequence e)) ` set es"
    using numbered_less [OF snoc.prems] by force
  then show ?case using snoc by (simp add: numbered_snoc)
qed simp

lemma numbered_sorted: "numbered es \<Longrightarrow> sorted (map ev_sequence (filter (\<lambda>e. event_order e = k) es))"
proof (induction es rule: rev_induct)
  case (snoc x es)
  then show ?case using numbered_less [OF snoc.prems] by (auto simp: numbered_snoc sorted_append less_imp_le)
qed simp

section \<open>Tables that hold exactly the accepted events\<close>

definition row_matches :: "effect_row \<Rightarrow> event \<Rightarrow> bool" where
  "row_matches r e \<longleftrightarrow> er_event_id r = ev_eventId e \<and> (er_seller_id r, er_order_id r) = event_order e \<and>
     er_seq r = ev_sequence e \<and> er_operation r = ev_operation e \<and> er_quantity r = ev_quantity e \<and>
     er_price r = ev_price e \<and> er_payload r = body_of e"

definition holds_events :: "event list \<Rightarrow> tables \<Rightarrow> bool" where
  "holds_events es t \<longleftrightarrow> list_all2 row_matches (t_effects t) es \<and> sorted (map effect_index (t_effects t)) \<and>
     distinct (map order_key (t_orders t)) \<and> shows_final es (t_orders t) \<and>
     (\<forall>a \<in> set (t_attempts t). ar_status a \<noteq> Some 409)"

lemma pk_order_key: "pk = order_key"
  by (simp add: fun_eq_iff pk_def order_key_def)

lemma holds_effects:
  assumes "holds_events es t" "distinct (map ev_eventId es)" "mem S = open_ledger t"
  shows "e \<in> set es \<Longrightarrow> effects (mem S) (ev_eventId e) = Some (body_of e)"
    and "key \<notin> ev_eventId ` set es \<Longrightarrow> effects (mem S) key = None"
proof -
  have l2: "list_all2 row_matches (t_effects t) es" using assms(1) by (simp add: holds_events_def)
  have ids: "map er_event_id (t_effects t) = map ev_eventId es"
    using l2 by (auto simp: list_all2_conv_all_nth row_matches_def intro!: nth_equalityI)
  then have d: "distinct (map er_event_id (t_effects t))" using assms(2) by simp
  have eff: "effects (mem S) = map_of (dict_of er_event_id er_payload (t_effects t))"
    by (simp add: assms(3) open_ledger_def)
  { assume "e \<in> set es"
    then obtain x where "x \<in> set (t_effects t)" "row_matches x e"
      using l2 by (metis in_set_conv_nth list_all2_conv_all_nth)
    then show "effects (mem S) (ev_eventId e) = Some (body_of e)"
      unfolding eff using dict_of_distinct_lookup [OF d, of x er_payload] by (simp add: row_matches_def) }
  { assume "key \<notin> ev_eventId ` set es"
    then have "key \<notin> fst ` set (dict_of er_event_id er_payload (t_effects t))"
      using arg_cong [OF ids, of set] by simp
    then show "effects (mem S) key = None" unfolding eff by (simp add: map_of_eq_None_iff) }
qed

lemma holds_orders:
  assumes "holds_events es t" "numbered es" "mem S = open_ledger t"
  shows "next_seq (orders (mem S) k) = earlier es k + 1"
proof -
  have d: "distinct (map pk (t_orders t))" and f: "shows_final es (t_orders t)"
    using assms(1) by (simp_all add: holds_events_def pk_order_key)
  show ?thesis
  proof (cases "k \<in> event_order ` set es")
    case True
    then have "k \<in> pk ` set (t_orders t)" using f by (simp add: shows_final_def pk_order_key)
    then obtain r where r: "r \<in> set (t_orders t)" "pk r = k" by auto
    then obtain e where e: "is_last es e" "order_matches r e" using f by (auto simp: shows_final_def)
    then have s: "or_seq r = earlier es k"
      using numbered_is_last [OF assms(2) e(1)] r(2) by (simp add: order_matches_def pk_order_key)
    have "1 \<le> or_seq r"
      using numbered_range [OF assms(2), of e] e by (simp add: is_last_def order_matches_def)
    moreover have "orders (mem S) k = Some (or_seq r)"
      unfolding assms(3) open_ledger_orders using dict_of_distinct_lookup [OF d r(1), of or_seq] r(2) by simp
    ultimately show ?thesis using s by (simp add: next_seq_def)
  next
    case False
    then have "k \<notin> pk ` set (t_orders t)" using f by (auto simp: shows_final_def pk_order_key)
    then have "k \<notin> fst ` set (dict_of pk or_seq (t_orders t))" by simp
    then have "orders (mem S) k = None" unfolding assms(3) open_ledger_orders by (simp add: map_of_eq_None_iff)
    moreover have "earlier es k = 0" using False by (auto simp: earlier_def filter_empty_conv)
    ultimately show ?thesis by (simp add: next_seq_def)
  qed
qed

text \<open>A request that changes nothing but the log, and one that is applied.\<close>

lemma holds_log_only:
  assumes "exec_all [InsertAttempt row, UpdateAttempt a st l i] t = Inr t'" "holds_events es t"
    and "st \<noteq> 409" "ar_status row = None"
  shows "holds_events es t' \<and> map ar_event_id (t_attempts t') = map ar_event_id (t_attempts t) @ [ar_event_id row]"
  using assms by (auto simp: holds_events_def split: if_split_asm)

lemma shows_final_upsert:
  assumes "shows_final es rows" "numbered (es @ [e])"
  shows "shows_final (es @ [e]) (upsert (order_of e) rows)"
proof -
  let ?o = "order_of e"
  have key: "order_key ?o = event_order e" by (simp add: order_key_def order_of_def event_order_def)
  have keys: "order_key ` set (upsert ?o rows) = insert (event_order e) (order_key ` set rows)"
    using arg_cong [OF upsert_keys [of ?o rows], of set] key by (auto simp: pk_order_key split: if_splits)
  have last_e: "is_last (es @ [e]) e"
    using numbered_less [OF assms(2)] by (auto simp: is_last_def less_imp_le)
  have other: "\<exists>x. is_last (es @ [e]) x \<and> order_matches r x" if rr: "r \<in> set rows" "order_key r \<noteq> event_order e" for r
  proof -
    obtain x where "is_last es x" "order_matches r x" using assms(1) rr(1) unfolding shows_final_def by blast
    then show ?thesis using rr(2) by (intro exI [of _ x]) (auto simp: is_last_def order_matches_def)
  qed
  have self: "order_matches ?o e" using key by (simp add: order_matches_def) (simp add: order_of_def)
  have "\<exists>x. is_last (es @ [e]) x \<and> order_matches r x" if r: "r \<in> set (upsert ?o rows)" for r
  proof (cases "r = ?o")
    case True
    then show ?thesis using self last_e by blast
  next
    case False
    then have "r \<in> set rows \<and> order_key r \<noteq> event_order e"
      using r key by (auto simp: upsert_def pk_order_key list_ex_iff split: if_split_asm)
    then show ?thesis using other by blast
  qed
  moreover have "order_key ` set (upsert ?o rows) = event_order ` set (es @ [e])"
    using keys assms(1) by (simp add: shows_final_def)
  ultimately show ?thesis by (simp add: shows_final_def)
qed

lemma holds_applied:
  assumes "exec_all [InsertAttempt row, InsertEffect x, UpsertOrder (order_of e), UpdateAttempt a st l i] t = Inr t'"
    and "holds_events es t" "numbered (es @ [e])" "row_matches x e" "effect_index x = next_effect (open_ledger t)"
    and "st \<noteq> 409" "ar_status row = None"
  shows "holds_events (es @ [e]) t' \<and> map ar_event_id (t_attempts t') = map ar_event_id (t_attempts t) @ [ar_event_id row]"
proof -
  define t1 where "t1 = t\<lparr>t_attempts := t_attempts t @ [row]\<rparr>"
  define t2 where "t2 = t1\<lparr>t_effects := t_effects t1 @ [x]\<rparr>"
  define t3 where "t3 = t2\<lparr>t_orders := upsert (order_of e) (t_orders t2)\<rparr>"
  have t1: "exec_stmt (InsertAttempt row) t = Inr t1" and t2: "exec_stmt (InsertEffect x) t1 = Inr t2"
    using assms(1) by (auto simp: t1_def t2_def split: if_split_asm)
  have t3: "exec_stmt (UpsertOrder (order_of e)) t2 = Inr t3" unfolding t3_def by (rule exec_upsert)
  have t': "exec_stmt (UpdateAttempt a st l i) t3 = Inr t'"
    using assms(1) t1 t2 t3 by simp
  have eff: "t_effects t' = t_effects t @ [x]" "t_orders t' = upsert (order_of e) (t_orders t)"
    using t' by (auto simp: t3_def t2_def t1_def)
  have "\<forall>j \<in> set (map effect_index (t_effects t)). j \<le> effect_index x"
    unfolding assms(5) using max_default_ge [of _ "map effect_index (t_effects t)" 0]
    by (force simp: open_ledger_def max_id_def)
  then have srt: "sorted (map effect_index (t_effects t'))"
    using assms(2) eff by (auto simp: holds_events_def sorted_append)
  have att: "map ar_event_id (t_attempts t') = map ar_event_id (t_attempts t) @ [ar_event_id row]"
    and st: "\<forall>y \<in> set (t_attempts t'). ar_status y \<noteq> Some 409"
    using t' assms(2,6,7) by (auto simp: t3_def t2_def t1_def holds_events_def split: if_split_asm)
  have "distinct (map order_key (t_orders t'))"
    using assms(2) upsert_keys [of "order_of e" "t_orders t"] unfolding eff by (simp add: holds_events_def pk_order_key)
  moreover have "shows_final (es @ [e]) (t_orders t')"
    unfolding eff using shows_final_upsert assms(2,3) by (simp add: holds_events_def)
  moreover have "list_all2 row_matches (t_effects t') (es @ [e])"
    unfolding eff using assms(2,4) by (simp add: holds_events_def list_all2_appendI)
  ultimately show ?thesis using srt att st by (simp add: holds_events_def)
qed

section \<open>One delivery\<close>

definition quiet_policies :: "controls \<Rightarrow> bool" where
  "quiet_policies c \<longleftrightarrow> (\<forall>seller. nap (policy_for c seller) = None \<and> get_or True (p_idempotent (policy_for c seller)))"

lemma event_request_facts:
  "complete (r_body (event_request e))" "orders_guard (event_request e) = Inr (Some (ev_sellerId e, ev_eventId e))"
  "r_body (event_request e) = body_of e"
  by (simp_all add: event_request_def complete_def orders_guard_def body_of_def)

lemma start_row:
  "start_stmts attempt key seller (body_of e) start inst = Inr [InsertAttempt row] \<Longrightarrow>
    ar_status row = None \<and> ar_event_id row = key"
  by (auto simp: start_stmts_def body_of_def)

lemma body_fields:
  "b_orderId (body_of e) = Some (ev_orderId e)" "b_sequence (body_of e) = Some (ev_sequence e)"
  "b_operation (body_of e) = Some (ev_operation e)" "b_quantity (body_of e) = Some (ev_quantity e)"
  "b_price (body_of e) = Some (ev_price e)" "b_occurredAt (body_of e) = Some (ev_occurredAt e)"
  by (simp_all add: body_of_def)

lemma decide_log_only:
  assumes "cnt < get_or 0 (p_failureCount pol) \<or> (effects L key = Some (body_of e) \<and> get_or True (p_idempotent pol))"
  shows "\<exists>L' v a st l. decide pol seller key (body_of e) cnt attempt ea en L = (L', Inr v) \<and>
    v_statements v = [UpdateAttempt a st l attempt] \<and> st \<noteq> 409"
  using assms by (auto simp: decide_def body_fields conclude_def Let_def)

lemma decide_applied:
  assumes "\<not> cnt < get_or 0 (p_failureCount pol)" "effects L (ev_eventId e) = None"
    and "ev_sequence e = next_seq (orders L (event_order e))"
  shows "\<exists>L' v x a st l. decide pol (ev_sellerId e) (ev_eventId e) (body_of e) cnt attempt ea en L = (L', Inr v) \<and>
    v_statements v = [InsertEffect x, UpsertOrder (order_of e), UpdateAttempt a st l attempt] \<and> st \<noteq> 409 \<and>
    row_matches x e \<and> effect_index x = next_effect L"
  using assms
  by (auto simp: decide_def body_fields conclude_def Let_def effect_stmts_def row_matches_def event_order_def order_of_def)

lemma deliver_one:
  assumes S: "agrees S" and h: "holds_events es (db S)" and n: "numbered es" and d: "distinct (map ev_eventId es)"
    and id: "\<forall>x \<in> set es. ev_eventId x = ev_eventId e \<longrightarrow> x = e" and tm: "commits tm" and q: "quiet_policies c"
    and r: "e \<in> set es \<or> attempt_counts (mem S) (ev_eventId e) < get_or 0 (p_failureCount (policy_for c (ev_sellerId e))) \<or>
      ev_sequence e = earlier es (event_order e) + 1"
  defines "fresh \<equiv> e \<notin> set es \<and> \<not> attempt_counts (mem S) (ev_eventId e) < get_or 0 (p_failureCount (policy_for c (ev_sellerId e)))"
  shows "\<exists>S' x. serve c tm (event_request e) S = (S', x) \<and> agrees S' \<and>
    holds_events (es @ (if fresh then [e] else [])) (db S') \<and>
    map ar_event_id (t_attempts (db S')) = map ar_event_id (t_attempts (db S)) @ [ev_eventId e]"
proof -
  let ?pol = "policy_for c (ev_sellerId e)"
  obtain cnt attempt L where a: "admit (ev_sellerId e) (ev_eventId e) (mem S) = (cnt, attempt, L)" by (metis prod_cases3)
  have L: "cnt = attempt_counts (mem S) (ev_eventId e)" "effects L = effects (mem S)" "orders L = orders (mem S)"
      "next_effect L = next_effect (mem S)"
    using a by (auto simp: admit_def)
  obtain L' v where dec: "decide ?pol (ev_sellerId e) (ev_eventId e) (body_of e) cnt attempt (t_effect tm) (t_end tm) L = (L', v)"
    by fastforce
  have m: "mem S = open_ledger (db S)" using S by (simp add: agrees_def)
  have pol: "nap ?pol = None" "get_or True (p_idempotent ?pol)" using q by (simp_all add: quiet_policies_def)
  from serve_agrees [OF S tm event_request_facts(1,2) pol(1) a dec [folded event_request_facts(3)]]
  obtain w S' row where w: "v = Inr w" "serve c tm (event_request e) S = (S', answer (ev_eventId e) w)" "agrees S'"
      "start_stmts attempt (ev_eventId e) (ev_sellerId e) (body_of e) (t_start tm) (r_instance (event_request e)) = Inr [InsertAttempt row]"
      "exec_all (InsertAttempt row # v_statements w) (db S) = Inr (db S')"
    by (auto simp: event_request_facts(3))
  have row: "ar_status row = None" "ar_event_id row = ev_eventId e" using start_row [OF w(4)] by simp_all
  have "holds_events (es @ (if fresh then [e] else [])) (db S') \<and>
    map ar_event_id (t_attempts (db S')) = map ar_event_id (t_attempts (db S)) @ [ar_event_id row]"
  proof (cases fresh)
    case False
    have "cnt < get_or 0 (p_failureCount ?pol) \<or> (effects L (ev_eventId e) = Some (body_of e) \<and> get_or True (p_idempotent ?pol))"
      using False holds_effects(1) [OF h d m] pol(2) L by (auto simp: fresh_def)
    from decide_log_only [OF this, of "ev_sellerId e" attempt "t_effect tm" "t_end tm"] dec w(1) obtain en st l where "v_statements w = [UpdateAttempt en st l attempt]" "st \<noteq> 409"
      by fastforce
    then show ?thesis using holds_log_only [of row en st l attempt "db S" "db S'" es] w(5) h row False by simp
  next
    case True
    have "ev_eventId e \<notin> ev_eventId ` set es" using id True by (auto simp: fresh_def)
    then have none: "effects L (ev_eventId e) = None" using holds_effects(2) [OF h d m] L by simp
    have sq: "ev_sequence e = earlier es (event_order e) + 1" using r True by (auto simp: fresh_def)
    have go: "\<not> cnt < get_or 0 (p_failureCount ?pol)" "ev_sequence e = next_seq (orders L (event_order e))"
      using True sq holds_orders [OF h n m] L by (simp_all add: fresh_def)
    obtain x en st l where x: "v_statements w = [InsertEffect x, UpsertOrder (order_of e), UpdateAttempt en st l attempt]"
        "st \<noteq> 409" "row_matches x e" "effect_index x = next_effect L"
      using decide_applied [OF go(1) none go(2), of attempt "t_effect tm" "t_end tm"] unfolding dec w(1) by auto
    then show ?thesis
      using holds_applied [of row x e en st l attempt "db S" "db S'" es] w(5) h row True n sq m L
      by (simp add: numbered_snoc)
  qed
  then show ?thesis using w row by auto
qed

section \<open>Any sequence of deliveries\<close>

definition deliveries :: "(timing \<times> event) list \<Rightarrow> (timing \<times> request) list" where
  "deliveries tqs = map (\<lambda>(tm, e). (tm, event_request e)) tqs"

lemma deliver_all:
  assumes "identified (map snd tqs)" "quiet_policies c" "\<forall>(tm, e) \<in> set tqs. commits tm"
    and "numbered (accepted_events c (map snd tqs))"
  shows "\<exists>S xs. serve_all c (deliveries tqs) (open_server empty_tables) = (S, xs) \<and> agrees S \<and>
    holds_events (accepted_events c (map snd tqs)) (db S) \<and>
    map ar_event_id (t_attempts (db S)) = map (\<lambda>q. ev_eventId (snd q)) tqs"
  using assms(1,3,4)
proof (induction tqs rule: rev_induct)
  case Nil
  have "holds_events [] empty_tables" by (simp add: holds_events_def empty_tables_def shows_final_def)
  then show ?case using agrees_empty
    by (simp add: deliveries_def accepted_events_def open_server_def empty_tables_def)
next
  case (snoc q tqs)
  obtain tm e where q: "q = (tm, e)" by (cases q)
  define qs where "qs = map snd tqs"
  define es where "es = accepted_events c qs"
  have inj: "identified qs" "\<forall>x \<in> set qs. ev_eventId x = ev_eventId e \<longrightarrow> x = e"
    using snoc.prems(1) by (auto simp: identified_def inj_on_def qs_def q)
  have acc: "accepted_events c (map snd (tqs @ [q])) = es @ (if int (count_list (map ev_eventId qs) (ev_eventId e)) = refusals c e then [e] else [])"
    by (simp add: q qs_def es_def accepted_snoc)
  have num: "numbered es" using snoc.prems(3) unfolding acc by (auto simp: numbered_snoc split: if_splits)
  obtain S xs where S: "serve_all c (deliveries tqs) (open_server empty_tables) = (S, xs)" "agrees S"
      "holds_events es (db S)" "map ar_event_id (t_attempts (db S)) = map ev_eventId qs"
    using snoc.IH snoc.prems num inj(1) by (auto simp: qs_def es_def comp_def)
  have cnt: "attempt_counts (mem S) (ev_eventId e) = int (count_list (map ev_eventId qs) (ev_eventId e))"
    using S(2,4) by (simp add: agrees_def open_ledger_def)
  have sub: "set es \<subseteq> set qs" unfolding es_def by (rule accepted_subset)
  define fresh where "fresh = (e \<notin> set es \<and>
    \<not> attempt_counts (mem S) (ev_eventId e) < get_or 0 (p_failureCount (policy_for c (ev_sellerId e))))"
  have fresh: "fresh \<longleftrightarrow> int (count_list (map ev_eventId qs) (ev_eventId e)) = refusals c e"
  proof (cases "e \<in> set qs")
    case True
    then show ?thesis
      using accepted_iff [OF inj(1) True, of c] by (auto simp: fresh_def es_def [symmetric] cnt refusals_def)
  next
    case False
    then have "ev_eventId e \<notin> ev_eventId ` set qs" using inj(2) by force
    then have "count_list (map ev_eventId qs) (ev_eventId e) = 0" by (simp add: count_list_0_iff)
    then show ?thesis using False sub by (auto simp: fresh_def cnt refusals_def)
  qed
  have "e \<in> set es \<or> attempt_counts (mem S) (ev_eventId e) < get_or 0 (p_failureCount (policy_for c (ev_sellerId e))) \<or>
      ev_sequence e = earlier es (event_order e) + 1"
  proof (cases fresh)
    case True
    then show ?thesis using snoc.prems(3) fresh unfolding acc by (simp add: numbered_snoc)
  qed (auto simp: fresh_def)
  then obtain S' x where "serve c tm (event_request e) S = (S', x)" "agrees S'"
      "holds_events (es @ (if fresh then [e] else [])) (db S')"
      "map ar_event_id (t_attempts (db S')) = map ar_event_id (t_attempts (db S)) @ [ev_eventId e]"
    using deliver_one [OF S(2,3) num, of e tm c] accepted_distinct [OF inj(1), of c] inj(2) sub assms(2) snoc.prems(2) q
    unfolding fresh_def es_def [symmetric] by auto
  then show ?case
    using S(1,4) unfolding acc fresh
    by (simp add: deliveries_def serve_all_append q qs_def comp_def)
qed

section \<open>The checker's verdict on the snapshot\<close>

definition ext_row_of :: "effect_row \<Rightarrow> ext_row" where
  "ext_row_of r = \<lparr>x_event_id = er_event_id r, x_seller_id = er_seller_id r, x_order_id = er_order_id r, x_seq = er_seq r,
     x_operation = er_operation r, x_quantity = er_quantity r, x_price = er_price r, x_payload = Some (er_payload r)\<rparr>"

definition remote_of :: "effect_row list \<Rightarrow> attempt_row list \<Rightarrow> order_row list \<Rightarrow> remote" where
  "remote_of effs atts ords = \<lparr>m_effects = map ext_row_of effs, m_orders = ords, m_attempts = atts\<rparr>"

lemma handle_deliveries:
  "handle_all (map (\<lambda>(tm, r). PostOrders tm r) rs) w = w\<lparr>w_server := fst (serve_all (w_controls w) rs (w_server w))\<rparr>"
  by (induction rs arbitrary: w) (auto simp: Let_def split: prod.splits)

text \<open>The part of a consistent case that concerns the business database alone.\<close>

definition db_consistent :: "event list \<Rightarrow> db_row list \<Rightarrow> order_row list \<Rightarrow> bool" where
  "db_consistent expected db_effects db_orders \<longleftrightarrow>
     mset (map d_event_id db_effects) = mset (map ev_eventId expected) \<and>
     (\<forall>r \<in> set db_effects. \<exists>e \<in> set expected. db_matches r e) \<and> shows_final expected db_orders"

lemma holds_consistent:
  assumes h: "holds_events es t" and n: "numbered es" and d: "distinct (map ev_eventId es)" and m: "mset es = mset expected"
  shows "consistent expected (remote_of (sort_key effect_index (t_effects t)) (sort_key ar_id (t_attempts t)) (t_orders t)) db_effects db_orders \<longleftrightarrow>
    db_consistent expected db_effects db_orders"
proof -
  have srt: "sort_key effect_index (t_effects t) = t_effects t"
    using h by (simp add: holds_events_def sorted_sort_id sort_key_id_if_sorted)
  have l2: "list_all2 row_matches (t_effects t) es" using h by (simp add: holds_events_def)
  have sets: "set expected = set es" using m by (metis set_mset_mset)
  have ext: "list_all2 (\<lambda>r e. ext_matches (ext_row_of r) e) (t_effects t) es"
    using l2 by (rule list_all2_mono) (simp add: row_matches_def ext_matches_def ext_row_of_def ext_order_def)
  have ids: "map x_event_id (map ext_row_of (t_effects t)) = map ev_eventId es"
    using ext by (auto simp: list_all2_conv_all_nth ext_matches_def intro!: nth_equalityI)
  have keyed: "map x_seq (filter (\<lambda>r. ext_order r = k) (map ext_row_of (t_effects t))) =
      map ev_sequence (filter (\<lambda>e. event_order e = k) es)" for k
    using ext by (induction rule: list_all2_induct) (simp_all add: ext_matches_def)
  have "\<exists>e \<in> set expected. ext_matches r e" if "r \<in> set (map ext_row_of (t_effects t))" for r
    using ext that sets by (auto simp: list_all2_conv_all_nth in_set_conv_nth) (metis nth_mem)
  moreover have "mset (map ev_eventId es) = mset (map ev_eventId expected)" using m by simp
  moreover have "distinct (map ev_eventId expected)" using d calculation(2) mset_eq_imp_distinct_iff by blast
  moreover have "shows_final expected (t_orders t)"
    using h sets by (simp add: holds_events_def shows_final_def is_last_def)
  moreover have "\<forall>a \<in> set (t_attempts t). ar_status a \<noteq> Some 409" using h by (simp add: holds_events_def)
  ultimately show ?thesis
    using numbered_sorted [OF n] by (simp add: consistent_def db_consistent_def remote_of_def srt ids keyed del: map_map)
qed

text \<open>C5: At-least-once delivery, one request at a time, gives effects exactly once at the seller. A fresh mock that serves
  its requests one after the other, whose commits all succeed and whose policies are idempotent and of a valid delay, may
  refuse calls by a failure count, lose responses and see events repeated. If the first accepted requests are the
  expected events, each order's in sequence, then the snapshot it returns adds nothing to the effect checker's errors: the
  checker passes exactly when the rows of the business database are right.\<close>

theorem at_least_once_passes:
  assumes "w_server w = open_server empty_tables" and "quiet_policies (w_controls w)"
    and "\<forall>(tm, e) \<in> set tqs. commits tm" and "identified (map snd tqs)"
    and "numbered (accepted_events (w_controls w) (map snd tqs))"
    and "mset (accepted_events (w_controls w) (map snd tqs)) = mset expected"
    and "distinct (map order_key db_orders)"
  shows "\<exists>w' effs atts ords act.
    handle (GetSnapshot None) (handle_all (map (\<lambda>(tm, e). PostOrders tm (event_request e)) tqs) w) =
      (w', SnapshotReply effs atts ords act) \<and>
    (ck_passed (check_effects expected (remote_of effs atts ords) db_effects db_orders) \<longleftrightarrow>
      mset (map d_event_id db_effects) = mset (map ev_eventId expected) \<and>
      (\<forall>r \<in> set db_effects. \<exists>e \<in> set expected. db_matches r e) \<and> shows_final expected db_orders)"
proof -
  obtain S xs where S: "serve_all (w_controls w) (deliveries tqs) (open_server empty_tables) = (S, xs)" "agrees S"
      "holds_events (accepted_events (w_controls w) (map snd tqs)) (db S)"
    using deliver_all [OF assms(4,2,3,5)] by blast
  have run: "handle_all (map (\<lambda>(tm, e). PostOrders tm (event_request e)) tqs) w = w\<lparr>w_server := S\<rparr>"
    using handle_deliveries [of "deliveries tqs" w] S(1) assms(1)
    by (simp add: deliveries_def comp_def case_prod_unfold)
  let ?remote = "remote_of (sort_key effect_index (t_effects (db S))) (sort_key ar_id (t_attempts (db S))) (t_orders (db S))"
  have "distinct (map order_key (t_orders (db S)))" using S(3) by (simp add: holds_events_def)
  moreover have "distinct (map (\<lambda>e. (event_order e, ev_sequence e)) expected)"
    using numbered_distinct [OF assms(5)] assms(6) by (metis mset_eq_imp_distinct_iff mset_map)
  ultimately have "check_errors expected ?remote db_effects db_orders = [] \<longleftrightarrow> consistent expected ?remote db_effects db_orders"
    by (intro check_errors_iff assms(7)) (simp_all add: remote_of_def)
  then have "check_errors expected ?remote db_effects db_orders = [] \<longleftrightarrow> db_consistent expected db_effects db_orders"
    using holds_consistent [OF S(3) assms(5) accepted_distinct [OF assms(4)] assms(6)] by simp
  moreover obtain S' where "ledger_write [] None S = (S', Some (Inr ()))" "db S' = db S" using write_nothing [OF S(2)] by blast
  ultimately show ?thesis by (simp add: run check_effects_def Let_def db_consistent_def)
qed

definition flaky_world :: world where
  "flaky_world = (boot ''d'' ''d/x'')\<lparr>w_controls := [''s'' \<mapsto> no_policy\<lparr>p_failureCount := Some 1, p_dropResponse := Some True\<rparr>]\<rparr>"

definition first_event :: event where "first_event = sample_event ''e1'' 1 ''CREATE''"
definition second_event :: event where "second_event = sample_event ''e2'' 2 ''CHANGE''"

lemma flaky_facts:
  "w_server flaky_world = open_server empty_tables" "quiet_policies (w_controls flaky_world)"
  "identified [first_event, first_event, first_event, second_event, second_event, first_event]"
  "accepted_events (w_controls flaky_world) [first_event, first_event, first_event, second_event, second_event, first_event] =
     [first_event, second_event]"
  "numbered [first_event, second_event]"
  "shows_final [first_event, second_event] [order_of second_event]"
proof -
  show "w_server flaky_world = open_server empty_tables" by (simp add: flaky_world_def boot_def open_path_def)
  show "quiet_policies (w_controls flaky_world)"
    by (simp add: flaky_world_def quiet_policies_def policy_for_def nap_def no_policy_def)
  show "identified [first_event, first_event, first_event, second_event, second_event, first_event]"
    by (auto simp: identified_def inj_on_def first_event_def second_event_def sample_event_def)
  show "accepted_events (w_controls flaky_world) [first_event, first_event, first_event, second_event, second_event, first_event] =
     [first_event, second_event]" by code_simp
  show "numbered [first_event, second_event]" by code_simp
  have "is_last [first_event, second_event] second_event" "order_matches (order_of second_event) second_event"
    "order_key ` set [order_of second_event] = event_order ` set [first_event, second_event]"
    by code_simp+
  then show "shows_final [first_event, second_event] [order_of second_event]"
    unfolding shows_final_def by (metis empty_iff list.set(1) set_ConsD)
qed

theorem at_least_once_passes_witness:
  "let es = [first_event, first_event, first_event, second_event, second_event, first_event]
   in \<exists>w' effs atts ords act.
     handle (GetSnapshot None) (handle_all (map (\<lambda>(tm, e). PostOrders tm (event_request e)) (map (Pair good_timing) es)) flaky_world) =
       (w', SnapshotReply effs atts ords act) \<and>
     ck_passed (check_effects [first_event, second_event] (remote_of effs atts ords)
       [db_of second_event, db_of first_event] [order_of second_event])"
proof -
  let ?es = "[first_event, first_event, first_event, second_event, second_event, first_event]"
  let ?tqs = "map (Pair good_timing) ?es" and ?rows = "[db_of second_event, db_of first_event]"
  have tqs: "map snd ?tqs = ?es" "\<forall>(tm, e) \<in> set ?tqs. commits tm" by simp_all
  have rows: "mset (map d_event_id ?rows) = mset (map ev_eventId [first_event, second_event])"
    "\<forall>r \<in> set ?rows. \<exists>e \<in> set [first_event, second_event]. db_matches r e"
    by (auto simp: db_of_def db_matches_def event_order_def)
  have "\<exists>w' effs atts ords act.
    handle (GetSnapshot None) (handle_all (map (\<lambda>(tm, e). PostOrders tm (event_request e)) ?tqs) flaky_world) =
      (w', SnapshotReply effs atts ords act) \<and>
    (ck_passed (check_effects [first_event, second_event] (remote_of effs atts ords) ?rows [order_of second_event]) \<longleftrightarrow>
      mset (map d_event_id ?rows) = mset (map ev_eventId [first_event, second_event]) \<and>
      (\<forall>r \<in> set ?rows. \<exists>e \<in> set [first_event, second_event]. db_matches r e) \<and>
      shows_final [first_event, second_event] [order_of second_event])"
    by (rule at_least_once_passes [OF flaky_facts(1,2) tqs(2)]) (simp_all only: tqs(1) flaky_facts(3-5), simp)
  then show ?thesis unfolding Let_def using rows flaky_facts(6) by blast
qed

end
