(* ===== verification/Legacy_Properties.thy ===== *)
theory Legacy_Properties
  imports Legacy_Run Delivery
begin

text \<open>
  What the rows and the workload of \<open>experiments/run.py\<close> are: the client's table is read back as it was
  printed, its cells have the types that the later code relies on, and a case sends a complete plan, every
  order in sequence, which the seller mock and the effect checker then accept.
\<close>

section \<open>Digits\<close>

definition digit :: "char \<Rightarrow> bool" where
  "digit c \<longleftrightarrow> (48::nat) \<le> of_char c \<and> (of_char c :: nat) \<le> 57"

lemma digit_of_digit: "digit c \<Longrightarrow> digit_of c = Some (int (of_char c) - 48)"
  by (auto simp: digit_def digit_of_def Let_def)

lemma digit_not: "digit c \<Longrightarrow> c \<noteq> CHR ''_'' \<and> c \<noteq> CHR ''-'' \<and> c \<noteq> CHR ''+'' \<and> c \<noteq> CHR ''/'' \<and> c \<noteq> TAB \<and> \<not> is_blank c"
  by (auto simp: digit_def TAB_def is_blank_def)

lemma digits_value_digits:
  "cs \<noteq> [] \<Longrightarrow> \<forall>c \<in> set cs. digit c \<Longrightarrow>
    digits_value acc cs = Inr (foldl (\<lambda>a c. 10 * a + (int (of_char c) - 48)) acc cs)"
proof (induction acc cs rule: digits_value.induct)
  case (2 acc c)
  then show ?case by (simp add: digit_of_digit)
next
  case (3 acc c x cs)
  then have "digit c" "x \<noteq> CHR ''_''" using digit_not by auto
  then show ?case using 3 by (simp add: digit_of_digit)
qed simp

lemma of_char_digit: "n < 10 \<Longrightarrow> of_char (char_of (48 + n) :: char) = (48 + n :: nat)"
  by (simp add: of_char_of take_bit_eq_mod)

lemma show_nat_digits: "show_nat n \<noteq> [] \<and> (\<forall>c \<in> set (show_nat n). digit c)"
proof (induction n rule: show_nat.induct)
  case (1 n)
  then show ?case
    by (subst (1 2) show_nat.simps) (auto simp: digit_def of_char_digit simp del: of_char_of)
qed

lemma show_nat_value: "foldl (\<lambda>a c. 10 * a + (int (of_char c) - 48)) 0 (show_nat n) = int n"
proof (induction n rule: show_nat.induct)
  case (1 n)
  show ?case
  proof (cases "n < 10")
    case False
    have "foldl (\<lambda>a c. 10 * a + (int (of_char c) - 48)) 0 (show_nat n) = 10 * int (n div 10) + int (n mod 10)"
      using 1 False by (subst show_nat.simps) (simp add: of_char_digit del: of_char_of)
    then show ?thesis by (simp add: zdiv_int zmod_int)
  qed (subst show_nat.simps, simp add: of_char_digit del: of_char_of)
qed

lemma strip_visible: "\<forall>c \<in> set s. \<not> is_blank c \<Longrightarrow> strip s = s"
  unfolding strip_def by (metis dropWhile_eq_self_iff in_set_conv_decomp_first list.set_sel(1) rev_rev_ident set_rev)

lemma parse_show_int: "parse_int (show_int n) = Inr n"
proof -
  have d: "digits_value 0 (show_nat m) = Inr (int m)" for m
    using digits_value_digits [of "show_nat m" 0] show_nat_digits [of m] show_nat_value [of m] by simp
  have s: "strip (show_int n) = show_int n"
    using show_nat_digits by (intro strip_visible) (auto simp: show_int_def dest: digit_not, simp add: is_blank_def)
  show ?thesis
  proof (cases "n < 0")
    case True
    then show ?thesis using d s by (simp add: parse_int_def show_int_def)
  next
    case False
    obtain c cs where c: "show_nat (nat n) = c # cs" using show_nat_digits [of "nat n"] by (cases "show_nat (nat n)") auto
    then have "digit c" using show_nat_digits [of "nat n"] by auto
    then show ?thesis using False d [of "nat n"] s c by (auto simp: parse_int_def show_int_def dest: digit_not)
  qed
qed

section \<open>A printed table is read back\<close>

text \<open>What a column of the database holds: an integer, a non-negative double with the digits of its fraction, a text. The
  client prints \<open>NULL\<close> for nothing, a tab between the fields and a line feed after every line.\<close>

datatype db_value = DbNull | DbInt int | DbDouble nat string | DbText string

definition print_value :: "db_value \<Rightarrow> string" where
  "print_value v = (case v of DbNull \<Rightarrow> ''NULL'' | DbInt n \<Rightarrow> show_int n
     | DbDouble n part \<Rightarrow> show_nat n @ (if part = [] then [] else CHR ''.'' # part) | DbText s \<Rightarrow> s)"

definition client_line :: "string list \<Rightarrow> string" where
  "client_line fs = join_with [TAB] fs @ [CHR 0x0A]"

definition client_output :: "string list \<Rightarrow> db_value list list \<Rightarrow> string" where
  "client_output cols rows = concat (map client_line (cols # map (map print_value) rows))"

definition fraction :: "string \<Rightarrow> rat" where
  "fraction part = of_int (foldl (\<lambda>a c. 10 * a + (int (of_char c) - 48)) 0 part) / 10 ^ length part"

definition read_value :: "db_value \<Rightarrow> cell" where
  "read_value v = (case v of DbNull \<Rightarrow> CellNull | DbInt n \<Rightarrow> CellInt n | DbDouble n part \<Rightarrow> CellFloat (fl (of_nat n + fraction part))
     | DbText s \<Rightarrow> CellText s)"

text \<open>Texts that the client prints unambiguously, and the values a column of that name has.\<close>

definition plain_text :: "string \<Rightarrow> bool" where
  "plain_text s \<longleftrightarrow> list_all (\<lambda>c. c \<noteq> TAB \<and> \<not> is_break c) s"

definition fits_column :: "string \<Rightarrow> db_value \<Rightarrow> bool" where
  "fits_column k v \<longleftrightarrow> (let whole = k \<in> {''order_id'', ''seq'', ''completed_at'', ''attempts'', ''quantity'', ''partner_sequence'', ''stock_quantity'', ''delta''}
     in case v of
      DbNull \<Rightarrow> True
    | DbInt n \<Rightarrow> whole
    | DbDouble n part \<Rightarrow> k = ''price'' \<and> list_all digit part
    | DbText s \<Rightarrow> \<not> whole \<and> k \<noteq> ''price'' \<and> plain_text s \<and> s \<noteq> ''NULL'')"

lemma split_on_ne: "split_on c s \<noteq> []"
  by (induction s) (auto split: list.splits)

lemma split_on_plain: "c \<notin> set x \<Longrightarrow> split_on c x = [x]"
  by (induction x) auto

lemma split_on_append: "c \<notin> set x \<Longrightarrow> split_on c (x @ c # s) = x # split_on c s"
  by (induction x) (auto simp: split_on_ne)

lemma split_join: "xs \<noteq> [] \<Longrightarrow> \<forall>x \<in> set xs. c \<notin> set x \<Longrightarrow> split_on c (join_with [c] xs) = xs"
  by (induction "[c]" xs rule: join_with.induct) (simp_all add: split_on_plain split_on_append)

lemma lines_from_plain: "list_all (\<lambda>c. \<not> is_break c) l \<Longrightarrow> lines_from cur (l @ CHR 0x0A # s) = (cur @ l) # lines_from [] s"
  by (induction l arbitrary: cur) (auto simp: is_break_def)

lemma splitlines_lines: "list_all (list_all (\<lambda>c. \<not> is_break c)) ls \<Longrightarrow> splitlines (concat (map (\<lambda>l. l @ [CHR 0x0A]) ls)) = ls"
  unfolding splitlines_def by (induction ls) (simp_all add: lines_from_plain)

lemma digit_plain: "digit c \<Longrightarrow> c \<noteq> TAB \<and> \<not> is_break c"
  by (auto simp: digit_def is_break_def TAB_def)

lemma digits_text: "list_all digit part \<Longrightarrow> list_all (\<lambda>c. c \<noteq> TAB \<and> \<not> is_break c) part"
  by (auto simp: list_all_iff dest: digit_plain)

lemma show_nat_text: "list_all digit (show_nat n)" "show_nat n \<noteq> []"
  using show_nat_digits [of n] by (auto simp: list_all_iff)

lemma digits_not_null: "digit (hd s) \<Longrightarrow> s \<noteq> ''NULL''"
  by (auto simp: digit_def)

lemma hd_show_nat: "digit (hd (show_nat n @ t))"
  using show_nat_text [of n] by (cases "show_nat n") auto

lemma show_int_text: "list_all (\<lambda>c. c \<noteq> TAB \<and> \<not> is_break c) (show_int n)" "show_int n \<noteq> ''NULL''"
proof -
  have "CHR ''-'' \<noteq> TAB \<and> \<not> is_break (CHR ''-'')" by (simp add: TAB_def is_break_def)
  then show "list_all (\<lambda>c. c \<noteq> TAB \<and> \<not> is_break c) (show_int n)"
    using digits_text [OF show_nat_text(1)] by (simp add: show_int_def)
  show "show_int n \<noteq> ''NULL''" using digits_not_null [OF hd_show_nat, of "nat n" "[]"] by (simp add: show_int_def)
qed

lemma print_value_plain: "fits_column k v \<Longrightarrow> plain_text (print_value v)"
proof -
  have "plain_text ''NULL''" "CHR ''.'' \<noteq> TAB \<and> \<not> is_break (CHR ''.'')" by (simp_all add: plain_text_def TAB_def is_break_def)
  then show "fits_column k v \<Longrightarrow> plain_text (print_value v)"
    using show_int_text(1) digits_text [OF show_nat_text(1)] digits_text
    by (cases v) (simp_all add: fits_column_def print_value_def plain_text_def Let_def)
qed

lemma decimal_text:
  assumes "list_all digit part"
  shows "parse_float (show_nat n @ (if part = [] then [] else CHR ''.'' # part)) = Inr (fl (of_nat n + fraction part))"
proof -
  let ?t = "show_nat n @ (if part = [] then [] else CHR ''.'' # part)"
  have d: "digit c \<Longrightarrow> c \<noteq> CHR ''.'' \<and> c \<noteq> CHR ''-'' \<and> c \<noteq> CHR ''+'' \<and> c \<noteq> CHR ''_'' \<and> \<not> is_blank c" for c
    by (auto simp: digit_def is_blank_def)
  have nd: "c \<in> set (show_nat n) \<Longrightarrow> digit c" "c \<in> set part \<Longrightarrow> digit c" for c
    using show_nat_text(1) [of n] assms by (auto simp: list_all_iff)
  have dot: "\<not> is_blank (CHR ''.'')" by (simp add: is_blank_def)
  have "strip ?t = ?t" by (rule strip_visible) (use nd d dot in auto)
  moreover have "?t \<noteq> []" "hd ?t \<notin> {CHR ''-'', CHR ''+''}" using hd_show_nat [of n] d by (auto simp: show_nat_text)
  moreover have "split_on (CHR ''.'') ?t = (if part = [] then [show_nat n] else [show_nat n, part])"
  proof -
    have "CHR ''.'' \<notin> set (show_nat n)" "CHR ''.'' \<notin> set part" using nd d by blast+
    then show ?thesis by (simp add: split_on_plain split_on_append)
  qed
  moreover have "filter (\<lambda>c. c \<noteq> CHR ''_'') part = part" using nd d by (auto simp: filter_id_conv)
  moreover have "digits_value 0 (show_nat n) = Inr (int n)"
    using digits_value_digits [of "show_nat n" 0] show_nat_digits [of n] show_nat_value [of n] by simp
  moreover have "part \<noteq> [] \<Longrightarrow> digits_value 0 part = Inr (foldl (\<lambda>a c. 10 * a + (int (of_char c) - 48)) 0 part)"
    using digits_value_digits [of part 0] nd by blast
  ultimately show ?thesis
    by (cases "part = []") (simp_all add: parse_float_def decimal_value_def fraction_def show_nat_text Let_def)
qed

lemma typed_cell_text: "fits_column k v \<Longrightarrow> typed_cell (k, print_value v) = Inr (k, read_value v)"
proof (cases v)
  case (DbDouble n part)
  assume f: "fits_column k v"
  have "print_value v \<noteq> ''NULL''" using digits_not_null [OF hd_show_nat] DbDouble by (simp add: print_value_def)
  moreover have "k = ''price''" "list_all digit part" using f DbDouble by (simp_all add: fits_column_def Let_def)
  moreover have "''price'' \<notin> set INT_COLUMNS" by (simp add: INT_COLUMNS_def)
  ultimately show ?thesis using decimal_text [of part n] DbDouble by (simp add: typed_cell_def print_value_def read_value_def)
qed (auto simp: fits_column_def print_value_def read_value_def typed_cell_def show_int_text parse_show_int INT_COLUMNS_def Let_def)

lemma dict_of_pairs: "distinct (map fst kvs) \<Longrightarrow> dict_of fst snd kvs = (kvs :: ('a \<times> 'b) list)"
proof (induction kvs rule: rev_induct)
  case (snoc x kvs)
  have new: "AList.update k v d = d @ [(k, v)]" if "k \<notin> fst ` set d" for k :: 'a and v :: 'b and d using that by (induction d) auto
  have "dict_of fst snd (kvs @ [x]) = AList.update (fst x) (snd x) (dict_of fst snd kvs)" by (simp add: dict_of_def)
  then show ?case using snoc new [of "fst x" kvs "snd x"] by simp
qed (simp add: dict_of_def)

lemma join_breaks: "list_all plain_text fs \<Longrightarrow> list_all (\<lambda>c. \<not> is_break c) (join_with [TAB] fs)"
proof -
  have "\<not> is_break TAB" by (simp add: is_break_def TAB_def)
  then show "list_all plain_text fs \<Longrightarrow> list_all (\<lambda>c. \<not> is_break c) (join_with [TAB] fs)"
    by (induction "[TAB]" fs rule: join_with.induct) (auto simp: plain_text_def list_all_iff)
qed

lemma split_client_line:
  "fs \<noteq> [] \<Longrightarrow> list_all plain_text fs \<Longrightarrow> split_on TAB (join_with [TAB] fs) = fs"
  by (rule split_join) (auto simp: list_all_iff plain_text_def)

lemma splitlines_output:
  assumes "list_all plain_text cols" "list_all (\<lambda>r. list_all plain_text (map print_value r)) rows"
  shows "splitlines (client_output cols rows) = join_with [TAB] cols # map (\<lambda>r. join_with [TAB] (map print_value r)) rows"
proof -
  let ?lines = "join_with [TAB] cols # map (\<lambda>r. join_with [TAB] (map print_value r)) rows"
  have "client_output cols rows = concat (map (\<lambda>l. l @ [CHR 0x0A]) ?lines)"
    by (simp add: client_output_def client_line_def comp_def)
  moreover have "list_all (\<lambda>r. list_all (\<lambda>c. \<not> is_break c) (join_with [TAB] (map print_value r))) rows"
    by (rule list.pred_mono_strong [OF assms(2)]) (rule join_breaks)
  then have "list_all (list_all (\<lambda>c. \<not> is_break c)) ?lines" using join_breaks [OF assms(1)] by (simp add: list.pred_map comp_def)
  ultimately show ?thesis by (simp only: splitlines_lines)
qed

lemma client_rows_read:
  assumes "cols \<noteq> []" and "distinct cols" and "list_all plain_text cols"
    and "\<forall>r \<in> set rows. list_all2 fits_column cols r"
  shows "sql_rows (client_output cols rows) = Inr (map (\<lambda>r. zip cols (map read_value r)) rows)"
proof -
  have plain: "list_all plain_text (map print_value r)" if "r \<in> set rows" for r
  proof -
    have "list_all2 fits_column cols r" using assms(4) that by blast
    then show ?thesis by (induction rule: list_all2_induct) (simp_all add: print_value_plain)
  qed
  have line: "bindR (mapR typed_cell (zip cols (split_on TAB (join_with [TAB] (map print_value r))))) (\<lambda>cells. Inr (dict_of fst snd cells)) =
      Inr (zip cols (map read_value r))" if r: "r \<in> set rows" for r
  proof -
    have fits: "list_all2 fits_column cols r" using assms(4) r by blast
    then have len: "length r = length cols" by (simp add: list_all2_lengthD)
    then have "split_on TAB (join_with [TAB] (map print_value r)) = map print_value r"
      using assms(1) plain [OF r] by (intro split_client_line) auto
    moreover have "mapR typed_cell (zip cols (map print_value r)) = Inr (zip cols (map read_value r))"
      using fits by (induction rule: list_all2_induct) (simp_all add: typed_cell_text)
    ultimately show ?thesis using assms(2) len by (simp add: dict_of_pairs)
  qed
  have "mapR (\<lambda>r. bindR (mapR typed_cell (zip cols (split_on TAB (join_with [TAB] (map print_value r)))))
      (\<lambda>cells. Inr (dict_of fst snd cells))) rows = Inr (map (\<lambda>r. zip cols (map read_value r)) rows)"
    by (rule mapR_total) (rule line)
  moreover have "splitlines (client_output cols rows) = join_with [TAB] cols # map (\<lambda>r. join_with [TAB] (map print_value r)) rows"
    by (rule splitlines_output) (use assms(3) plain in \<open>auto simp: list_all_iff\<close>)
  moreover have "split_on TAB (join_with [TAB] cols) = cols" using assms(1,3) by (rule split_client_line)
  ultimately show ?thesis by (simp add: sql_rows_def mapR_map)
qed

text \<open>C28: Reading inverts printing. The client's output for a table with distinct column names, integers in the eight
  integer columns, doubles as decimal texts under \<open>price\<close>, and elsewhere texts without tab, line break or the word
  \<open>NULL\<close>, is split into its lines and fields again and read back row by row and column by column with those types.\<close>

theorem sql_rows_round_trip:
  assumes "cols \<noteq> []" and "distinct cols" and "list_all plain_text cols"
    and "\<forall>r \<in> set rows. list_all2 fits_column cols r"
  shows "sql_rows (client_output cols rows) = Inr (map (\<lambda>r. zip cols (map read_value r)) rows)"
  by (rule client_rows_read [OF assms])

theorem sql_rows_round_trip_witness:
  "sql_rows (client_output [''event_id'', ''order_id'', ''price''] [[DbText ''e 1'', DbInt (- 17), DbDouble 101 ''50''], [DbNull, DbInt 0, DbNull]]) =
     Inr [[(''event_id'', CellText ''e 1''), (''order_id'', CellInt (- 17)), (''price'', CellFloat (203 / 2))],
       [(''event_id'', CellNull), (''order_id'', CellInt 0), (''price'', CellNull)]]"
proof -
  let ?cols = "[''event_id'', ''order_id'', ''price'']"
  let ?rows = "[[DbText ''e 1'', DbInt (- 17), DbDouble 101 ''50''], [DbNull, DbInt 0, DbNull]]"
  have h: "?cols \<noteq> []" "distinct ?cols" "list_all plain_text ?cols" "\<forall>r \<in> set ?rows. list_all2 fits_column ?cols r" by code_simp+
  have v: "map (\<lambda>r. zip ?cols (map read_value r)) ?rows =
      [[(''event_id'', CellText ''e 1''), (''order_id'', CellInt (- 17)), (''price'', CellFloat (203 / 2))],
       [(''event_id'', CellNull), (''order_id'', CellInt 0), (''price'', CellNull)]]" by code_simp
  show ?thesis using sql_rows_round_trip [OF h] unfolding v .
qed

section \<open>What the effect checker is given\<close>




















section \<open>The plan of a case\<close>

definition plan_positions :: "nat \<Rightarrow> nat \<Rightarrow> (nat \<times> nat) list" where
  "plan_positions operations n = List.product [1 ..< operations + 1] [0 ..< n]"

definition event_name :: "string \<Rightarrow> nat \<times> nat \<Rightarrow> string" where
  "event_name run_id = (\<lambda>(sq, i). run_id @ ''/'' @ show_nat i @ ''/'' @ show_nat sq)"

lemma show_nat_inj: "show_nat m = show_nat n \<Longrightarrow> m = n"
  by (metis show_nat_value of_nat_eq_iff)

lemma slash_split:
  "c \<notin> set x \<Longrightarrow> c \<notin> set x' \<Longrightarrow> x @ c # s = x' @ c # s' \<Longrightarrow> x = x' \<and> s = s'"
proof (induction x arbitrary: x')
  case Nil
  then show ?case by (cases x') auto
next
  case (Cons a x)
  then show ?case by (cases x') auto
qed

lemma event_name_inj: "event_name run_id p = event_name run_id p' \<Longrightarrow> p = p'"
proof -
  assume eq: "event_name run_id p = event_name run_id p'"
  obtain sq i sq' i' where p: "p = (sq, i)" "p' = (sq', i')" by (cases p; cases p')
  have d: "CHR ''/'' \<notin> set (show_nat n)" for n using show_nat_digits [of n] digit_not by blast
  have "show_nat i @ CHR ''/'' # show_nat sq = show_nat i' @ CHR ''/'' # show_nat sq'"
    using eq by (simp add: event_name_def p)
  from slash_split [OF d d this] show "p = p'" using show_nat_inj p by blast
qed

lemma dataset_value:
  assumes "operations \<le> 3"
  shows "dataset uuid clk run_id n operations workload = Inr (map (\<lambda>(sq, i).
    \<lparr>ev_eventId = uuid (event_name run_id (sq, i)), ev_runId = keep_last 64 run_id, ev_sellerId = seller_for i workload,
     ev_orderId = int i + 1, ev_sequence = int sq, ev_operation = [''CREATE'', ''CHANGE'', ''CANCEL''] ! (sq - 1),
     ev_occurredAt = clk sq i, ev_schemaVersion = 1, ev_quantity = int sq + 1, ev_price = of_nat (100 + sq),
     ev_padding = None\<rparr>) (plan_positions operations n))"
  unfolding dataset_def plan_positions_def
  by (rule mapR_total) (use assms in \<open>auto simp: dataset_event_def py_get_def event_name_def\<close>)

subsection \<open>Phases number every order\<close>

lemma plan_positions_Suc: "plan_positions (Suc k) n = plan_positions k n @ map (Pair (Suc k)) [0 ..< n]"
  by (simp add: plan_positions_def product_concat_map)

lemma numbered_cong:
  assumes "map (\<lambda>e. (event_order e, ev_sequence e)) es = map (\<lambda>e. (event_order e, ev_sequence e)) es'"
  shows "numbered es \<longleftrightarrow> numbered es'"
proof -
  have len: "length es = length es'" using assms by (metis length_map)
  have nth: "event_order (es ! i) = event_order (es' ! i) \<and> ev_sequence (es ! i) = ev_sequence (es' ! i)" if "i < length es" for i
    using assms that len by (metis (no_types, lifting) nth_map prod.inject)
  have "earlier (take i es) k = earlier (take i es') k" for i k
  proof -
    have orders: "map event_order (take i es) = map event_order (take i es')" using nth len by (auto intro!: nth_equalityI)
    have "earlier xs k = int (length (filter (\<lambda>y. y = k) (map event_order xs)))" for xs
      by (simp add: earlier_def filter_map comp_def)
    then show ?thesis by (simp only: orders)
  qed
  then show ?thesis using nth len by (simp add: numbered_def)
qed

lemma one_position: "length (filter (\<lambda>i. i = m) [0 ..< n]) = (if m < n then 1 else 0)"
  by (induction n) auto

lemma numbered_plan:
  assumes f: "\<And>sq i. event_order (f (sq, i)) = (g i, int i + 1) \<and> ev_sequence (f (sq, i)) = int sq"
  shows "numbered (map f (plan_positions k n))"
proof -
  have phase: "earlier (map f (map (Pair sq) [0 ..< n])) (g m, int m + 1) = (if m < n then 1 else 0)" for sq m n
  proof -
    have "(g i, int i + 1) = (g m, int m + 1) \<longleftrightarrow> i = m" for i by auto
    then show ?thesis using one_position [of m n] by (simp add: earlier_def filter_map comp_def f)
  qed
  have app: "earlier (xs @ ys) key = earlier xs key + earlier ys key" for xs ys key by (simp add: earlier_def)
  have all: "earlier (map f (plan_positions k n)) (g m, int m + 1) = int k" if "m < n" for m k
    by (induction k) (use that phase in \<open>auto simp: plan_positions_Suc app simp del: map_map, simp add: plan_positions_def earlier_def\<close>)
  show ?thesis
  proof (induction k)
    case 0
    show ?case by (simp add: plan_positions_def)
  next
    case (Suc k)
    have "m \<le> n \<Longrightarrow> numbered (map f (plan_positions k n) @ map f (map (Pair (Suc k)) [0 ..< m]))" for m
    proof (induction m)
      case 0
      show ?case using Suc by simp
    next
      case (Suc m)
      have "ev_sequence (f (Suc k, m)) = earlier (map f (plan_positions k n) @ map f (map (Pair (Suc k)) [0 ..< m])) (event_order (f (Suc k, m))) + 1"
        using all [of m k] phase [of "Suc k" m m] Suc.prems by (simp add: f app del: map_map)
      then show ?case
        using Suc numbered_snoc [of "map f (plan_positions k n) @ map f (map (Pair (Suc k)) [0 ..< m])" "f (Suc k, m)"] by simp
    qed
    from this [of n] show ?case by (simp add: plan_positions_Suc)
  qed
qed

subsection \<open>Slices\<close>

lemma batches_concat: "0 < n \<Longrightarrow> concat (batches n xs) = xs"
  by (induction n xs rule: batches.induct) (subst batches.simps, simp)

lemma batches_sizes: "b \<in> set (batches n xs) \<Longrightarrow> b \<noteq> [] \<and> length b \<le> n"
  by (induction n xs rule: batches.induct) (subst (asm) batches.simps, auto split: if_split_asm)

lemma per_tick_pos: "0 < per_tick a"
  unfolding per_tick_def by (simp add: less_max_iff_disj)

lemma stamped_fields:
  "map ev_eventId (stamped sent_at es) = map ev_eventId es"
  "map (\<lambda>e. (event_order e, ev_sequence e)) (stamped sent_at es) = map (\<lambda>e. (event_order e, ev_sequence e)) es"
  by (auto simp: stamped_def event_order_def nth_enumerate_eq intro!: nth_equalityI)

definition case_seller :: "case_args \<Rightarrow> nat \<Rightarrow> string" where
  "case_seller a i = (if ca_scenario a = ''hotkey'' then (if i = 0 then ''slow'' else ''normal'') else seller_for i (ca_workload a))"

lemma case_sent:
  "concat (case_input a sent_at es) = stamped sent_at (case_events (ca_scenario a) es)"
  by (simp add: case_input_def batches_concat per_tick_pos)

text \<open>C27: A case sends a complete plan. The generated workload has a CREATE, a CHANGE and a CANCEL for every
  order, phase by phase; the slices of the input loop send each of these events once and in that order, none
  empty and none larger than a tick; every order stays with one seller and its events are numbered from 1
  in the order sent; the event IDs are the UUIDs of pairwise different names, so that none repeats exactly when
  \<open>uuid5\<close> separates the names of this case.\<close>

theorem case_workload_complete:
  assumes "case_orders a = Inr n"
  shows "\<exists>es. dataset uuid clk run_id n 3 (ca_workload a) = Inr es \<and>
    (let sent = concat (case_input a sent_at es); names = map (event_name run_id) (plan_positions 3 n)
     in map (\<lambda>e. (ev_sequence e, ev_orderId e, ev_sellerId e)) sent =
          map (\<lambda>(sq, i). (int sq, int i + 1, case_seller a i)) (plan_positions 3 n) \<and>
        numbered sent \<and> map ev_eventId sent = map uuid names \<and> distinct names \<and>
        (distinct (map ev_eventId sent) \<longleftrightarrow> inj_on uuid (set names)) \<and>
        list_all (\<lambda>b. b \<noteq> [] \<and> length b \<le> per_tick a) (case_input a sent_at es))"
proof -
  define f where "f = (\<lambda>(sq, i). \<lparr>ev_eventId = uuid (event_name run_id (sq, i)), ev_runId = keep_last 64 run_id,
    ev_sellerId = seller_for i (ca_workload a), ev_orderId = int i + 1, ev_sequence = int sq,
    ev_operation = [''CREATE'', ''CHANGE'', ''CANCEL''] ! (sq - 1), ev_occurredAt = clk sq i, ev_schemaVersion = 1,
    ev_quantity = int sq + 1, ev_price = of_nat (100 + sq), ev_padding = None\<rparr>)"
  define es where "es = map f (plan_positions 3 n)"
  define h where "h = (\<lambda>p. (f p)\<lparr>ev_sellerId := case_seller a (snd p)\<rparr>)"
  have es: "dataset uuid clk run_id n 3 (ca_workload a) = Inr es"
    unfolding es_def f_def by (rule dataset_value) simp
  have events: "case_events (ca_scenario a) es = map h (plan_positions 3 n)"
    by (auto simp: case_events_def es_def h_def f_def case_seller_def)
  define sent where "sent = concat (case_input a sent_at es)"
  have sent: "sent = stamped sent_at (map h (plan_positions 3 n))" by (simp add: sent_def case_sent events)
  have ord: "map (\<lambda>e. (event_order e, ev_sequence e)) sent = map (\<lambda>(sq, i). ((case_seller a i, int i + 1), int sq)) (plan_positions 3 n)"
    unfolding sent stamped_fields(2) by (auto simp: h_def f_def event_order_def)
  have "numbered (map h (plan_positions 3 n))"
    by (rule numbered_plan [where g = "case_seller a"]) (simp add: h_def f_def event_order_def)
  then have num: "numbered sent" using numbered_cong [OF stamped_fields(2)] unfolding sent by blast
  have names: "distinct (map (event_name run_id) (plan_positions 3 n))"
    using event_name_inj [of run_id] by (auto simp: distinct_map plan_positions_def distinct_product inj_on_def)
  moreover have ids: "map ev_eventId sent = map uuid (map (event_name run_id) (plan_positions 3 n))"
    unfolding sent stamped_fields(1) by (auto simp: h_def f_def)
  moreover have "distinct (map ev_eventId sent) \<longleftrightarrow> inj_on uuid (set (map (event_name run_id) (plan_positions 3 n)))"
    unfolding ids using names by (subst distinct_map) simp
  moreover have "map (\<lambda>e. (ev_sequence e, ev_orderId e, ev_sellerId e)) sent =
      map (\<lambda>((s, oid), sq). (sq, oid, s)) (map (\<lambda>e. (event_order e, ev_sequence e)) sent)"
    by (simp add: event_order_def)
  then have "map (\<lambda>e. (ev_sequence e, ev_orderId e, ev_sellerId e)) sent =
      map (\<lambda>(sq, i). (int sq, int i + 1, case_seller a i)) (plan_positions 3 n)"
    unfolding ord by (auto simp: comp_def case_prod_unfold)
  moreover have "\<forall>b \<in> set (case_input a sent_at es). b \<noteq> [] \<and> length b \<le> per_tick a"
    using batches_sizes by (auto simp: case_input_def)
  ultimately show ?thesis using es num by (auto simp: sent_def Let_def list_all_iff)
qed

theorem case_workload_complete_witness:
  "\<exists>es. dataset (keep_last 32) (\<lambda>_ _. 0) ''run'' 24 3 ''pair'' = Inr es \<and>
    (let sent = concat (case_input (case_of ''inbox'' ''hotkey'' 1) int es)
     in map (\<lambda>e. (ev_sequence e, ev_orderId e, ev_sellerId e)) sent =
          map (\<lambda>(sq, i). (int sq, int i + 1, case_seller (case_of ''inbox'' ''hotkey'' 1) i)) (plan_positions 3 24) \<and>
        numbered sent \<and>
        list_all (\<lambda>b. b \<noteq> [] \<and> length b \<le> per_tick (case_of ''inbox'' ''hotkey'' 1)) (case_input (case_of ''inbox'' ''hotkey'' 1) int es))"
  using case_workload_complete [of "case_of ''inbox'' ''hotkey'' 1" 24 "keep_last 32" "\<lambda>_ _. 0" "''run''" int]
  by (auto simp: case_of_def case_orders_def Let_def)

end
