(* ===== verification/Diagnosis.thy ===== *)
theory Diagnosis
  imports Legacy_Run
begin

text \<open>
  The diagnosis of a finished case, \<open>experiments/analyze.py\<close>: three hypotheses judged from traces and
  observations alone, then the delay of the detection against the controller's log. Traces and samples carry
  the fields that their stage writes.
\<close>

section \<open>Evidence\<close>

record case_trace =
  tr_stage :: string
  tr_sellerId :: string
  tr_durationMs :: int
  tr_offset :: int
  tr_time :: int

record broker_view =
  bv_committed :: "int option"
  bv_error :: bool          \<comment> \<open>\<open>brokerError\<close> is present and not empty\<close>
  bv_logEnd :: bool         \<comment> \<open>\<open>logEnd\<close> is present\<close>

record case_sample =
  sm_time :: int
  sm_service :: "broker_view option"

definition delayed_calls :: "case_trace list \<Rightarrow> (string \<times> nat) list" where
  "delayed_calls traces =
     map (\<lambda>(s, ds). (s, length (filter (\<lambda>d. 500 \<le> d) ds)))
       (group_by tr_sellerId tr_durationMs (filter (\<lambda>t. tr_stage t = ''external_result'') traces))"

definition completions :: "case_trace list \<Rightarrow> case_trace list" where
  "completions traces = filter (\<lambda>t. tr_stage t = ''business_commit'') traces"

definition gap_step :: "int option \<Rightarrow> int \<Rightarrow> case_trace \<Rightarrow> int \<Rightarrow> int" where
  "gap_step committed now_ms c g =
     (if (case committed of None \<Rightarrow> True | Some off \<Rightarrow> off \<le> tr_offset c) \<and> tr_time c < now_ms
      then max g (now_ms - tr_time c) else g)"

definition gap_of_sample :: "case_trace list \<Rightarrow> case_sample \<Rightarrow> int \<Rightarrow> int" where
  "gap_of_sample completion sm g =
     (case sm_service sm of
        None \<Rightarrow> g
      | Some v \<Rightarrow>
         if bv_committed v = None \<and> bv_error v then g
         else if \<not> bv_logEnd v then g
         else fold (gap_step (bv_committed v) (sm_time sm)) completion g)"

definition committed_gap :: "case_trace list \<Rightarrow> case_sample list \<Rightarrow> int" where
  "committed_gap completion samples = fold (gap_of_sample completion) samples 0"

definition missing_committed :: "case_sample list \<Rightarrow> nat" where
  "missing_committed samples =
     length (filter (\<lambda>sm. case sm_service sm of None \<Rightarrow> False | Some v \<Rightarrow> bv_committed v = None \<and> \<not> bv_error v) samples)"

section \<open>Verdicts\<close>

datatype judgement = Accepted | Rejected | Pending

record diagnosis =
  dg_missingCommittedSamples :: nat
  dg_delayedCallsBySeller :: "(string \<times> nat) list"
  dg_peakDbWaiting :: int
  dg_completedButUncommittedMaxAgeMs :: int
  dg_seller_api_delay :: judgement
  dg_shared_db_pool :: judgement
  dg_post_business_ack_delay :: judgement

definition judge_seller_api :: "(string \<times> nat) list \<Rightarrow> judgement" where
  "judge_seller_api delayed =
     (let normal_delayed = sum_list (map snd (filter (\<lambda>(k, n). k \<noteq> ''slow'') delayed))
      in if 0 < get_or 0 (map_of delayed ''slow'') \<and> normal_delayed = 0 then Accepted
         else if delayed \<noteq> [] then Rejected else Pending)"

definition judge_db_pool :: "int \<Rightarrow> case_sample list \<Rightarrow> judgement" where
  "judge_db_pool maxwait samples = (if 0 < maxwait then Accepted else if samples \<noteq> [] then Rejected else Pending)"

definition judge_ack_delay :: "int \<Rightarrow> int \<Rightarrow> (string \<times> nat) list \<Rightarrow> case_sample list \<Rightarrow> judgement" where
  "judge_ack_delay gap maxwait delayed samples =
     (if 1500 \<le> gap \<and> maxwait = 0 \<and> sum_list (map snd delayed) = 0 then Accepted
      else if 1500 \<le> gap then Pending
      else if samples \<noteq> [] then Rejected else Pending)"

definition diagnose :: "case_trace list \<Rightarrow> case_sample list \<Rightarrow> int \<Rightarrow> diagnosis" where
  "diagnose traces samples maxwait =
     (let delayed = delayed_calls traces; gap = committed_gap (completions traces) samples
      in \<lparr>dg_missingCommittedSamples = missing_committed samples, dg_delayedCallsBySeller = delayed,
          dg_peakDbWaiting = maxwait, dg_completedButUncommittedMaxAgeMs = gap,
          dg_seller_api_delay = judge_seller_api delayed, dg_shared_db_pool = judge_db_pool maxwait samples,
          dg_post_business_ack_delay = judge_ack_delay gap maxwait delayed samples\<rparr>)"

section \<open>Against the controller's log\<close>

record control_line =
  cl_action :: string
  cl_time :: int
  cl_gate :: "string option"

text \<open>The marker of a gate is given as its lines; the second one is the time at which it was reached.\<close>

definition injected_at :: "control_line list \<Rightarrow> (string \<Rightarrow> string list option) \<Rightarrow> int option" where
  "injected_at controller marker =
     (case find (\<lambda>x. cl_action x \<in> {''fault_injected'', ''gate_armed''}) controller of
        None \<Rightarrow> None
      | Some x \<Rightarrow> Some (case cl_gate x of
            None \<Rightarrow> cl_time x
          | Some g \<Rightarrow> (if g = [] then cl_time x
              else case marker g of
                None \<Rightarrow> cl_time x
              | Some ls \<Rightarrow> (case bindR (py_get ls 1) parse_int of Inl _ \<Rightarrow> cl_time x | Inr t \<Rightarrow> t))))"

definition detection_delay :: "int option \<Rightarrow> control_line list \<Rightarrow> (string \<Rightarrow> string list option) \<Rightarrow> int option" where
  "detection_delay detected_at controller marker =
     (case (detected_at, injected_at controller marker) of (Some d, Some t) \<Rightarrow> Some (d - t) | _ \<Rightarrow> None)"

section \<open>What the verdicts mean\<close>

lemma fold_gap_step_ge_iff:
  assumes "0 < c"
  shows "c \<le> fold (gap_step committed t) cs g \<longleftrightarrow>
    c \<le> g \<or> (\<exists>x \<in> set cs. (case committed of None \<Rightarrow> True | Some off \<Rightarrow> off \<le> tr_offset x) \<and> c \<le> t - tr_time x)"
proof (induction cs arbitrary: g)
  case (Cons x cs)
  have "c \<le> gap_step committed t x g \<longleftrightarrow>
      c \<le> g \<or> (case committed of None \<Rightarrow> True | Some off \<Rightarrow> off \<le> tr_offset x) \<and> c \<le> t - tr_time x"
    using assms by (auto simp: gap_step_def le_max_iff_disj)
  then show ?case by (auto simp: Cons.IH)
qed simp

text \<open>A completion that a valid sample shows as not committed, with its age.\<close>

definition uncommitted_for :: "case_sample \<Rightarrow> case_trace \<Rightarrow> int \<Rightarrow> bool" where
  "uncommitted_for sm x age \<longleftrightarrow> (\<exists>v. sm_service sm = Some v \<and> \<not> (bv_committed v = None \<and> bv_error v) \<and> bv_logEnd v \<and>
     (\<forall>off. bv_committed v = Some off \<longrightarrow> off \<le> tr_offset x)) \<and> age = sm_time sm - tr_time x"

lemma committed_gap_ge_iff:
  assumes "0 < c"
  shows "c \<le> committed_gap cs samples \<longleftrightarrow> (\<exists>sm \<in> set samples. \<exists>x \<in> set cs. \<exists>age \<ge> c. uncommitted_for sm x age)"
proof -
  have "c \<le> fold (gap_of_sample cs) samples g \<longleftrightarrow>
      c \<le> g \<or> (\<exists>sm \<in> set samples. \<exists>x \<in> set cs. \<exists>age \<ge> c. uncommitted_for sm x age)" for g
  proof (induction samples arbitrary: g)
    case (Cons sm samples)
    have "c \<le> gap_of_sample cs sm g \<longleftrightarrow> c \<le> g \<or> (\<exists>x \<in> set cs. \<exists>age \<ge> c. uncommitted_for sm x age)"
      by (auto simp: gap_of_sample_def uncommitted_for_def fold_gap_step_ge_iff [OF assms] split: option.splits)
    then show ?case by (auto simp: Cons.IH)
  qed simp
  then show ?thesis using assms by (simp add: committed_gap_def)
qed

definition slow_call :: "case_trace \<Rightarrow> bool" where
  "slow_call t \<longleftrightarrow> tr_stage t = ''external_result'' \<and> 500 \<le> tr_durationMs t"

lemma delayed_count:
  "(k, n) \<in> set (delayed_calls traces) \<Longrightarrow>
    0 < n \<longleftrightarrow> (\<exists>t \<in> set traces. slow_call t \<and> tr_sellerId t = k)"
  by (auto simp: delayed_calls_def set_group_by slow_call_def filter_empty_conv)

lemma delayed_lookup:
  "0 < get_or 0 (map_of (delayed_calls traces) k) \<longleftrightarrow> (\<exists>t \<in> set traces. slow_call t \<and> tr_sellerId t = k)"
proof (cases "map_of (delayed_calls traces) k")
  case None
  then have "k \<notin> fst ` set (delayed_calls traces)" by (simp add: map_of_eq_None_iff)
  then have "\<not> (\<exists>t \<in> set traces. slow_call t \<and> tr_sellerId t = k)"
    by (force simp: delayed_calls_def set_group_by slow_call_def image_iff)
  then show ?thesis using None by simp
next
  case (Some n)
  then show ?thesis using delayed_count [OF map_of_SomeD] by simp
qed

lemma delayed_sum_zero:
  "sum_list (map snd (filter (\<lambda>(k, n). P k) (delayed_calls traces))) = 0 \<longleftrightarrow>
    (\<forall>t \<in> set traces. slow_call t \<longrightarrow> \<not> P (tr_sellerId t))"
proof -
  have "(\<exists>(k, n) \<in> set (delayed_calls traces). P k \<and> 0 < n) \<longleftrightarrow> (\<exists>k. P k \<and> 0 < get_or 0 (map_of (delayed_calls traces) k))"
  proof -
    have d: "distinct (map fst (delayed_calls traces))"
      by (simp add: delayed_calls_def comp_def case_prod_unfold)
    have "0 < get_or 0 (map_of (delayed_calls traces) k) \<longleftrightarrow> (\<exists>n. (k, n) \<in> set (delayed_calls traces) \<and> 0 < n)" for k
    proof
      assume "0 < get_or 0 (map_of (delayed_calls traces) k)"
      then show "\<exists>n. (k, n) \<in> set (delayed_calls traces) \<and> 0 < n"
        by (cases "map_of (delayed_calls traces) k") (auto dest: map_of_SomeD)
    next
      assume "\<exists>n. (k, n) \<in> set (delayed_calls traces) \<and> 0 < n"
      then show "0 < get_or 0 (map_of (delayed_calls traces) k)" using map_of_is_SomeI [OF d] by fastforce
    qed
    then show ?thesis by auto
  qed
  then have "(\<exists>(k, n) \<in> set (delayed_calls traces). P k \<and> 0 < n) \<longleftrightarrow> (\<exists>t \<in> set traces. slow_call t \<and> P (tr_sellerId t))"
    unfolding delayed_lookup by auto
  moreover have "sum_list (map snd (filter (\<lambda>(k, n). P k) (delayed_calls traces))) = 0 \<longleftrightarrow>
      \<not> (\<exists>(k, n) \<in> set (delayed_calls traces). P k \<and> 0 < n)" by auto
  ultimately show ?thesis by blast
qed

text \<open>C33: Each accepted hypothesis states exactly its evidence. A seller delay is accepted when the slow seller had a
  call of 500 ms or more and no other seller did; the shared pool when a wait was observed; a late
  acknowledgement when some completed operation was seen uncommitted 1500 ms after its commit and neither a
  pool wait nor a slow call was seen. So the last never comes with one of the others.\<close>

theorem diagnosis_exact:
  "let d = diagnose traces samples maxwait
   in (dg_seller_api_delay d = Accepted \<longleftrightarrow>
        (\<exists>t \<in> set traces. slow_call t \<and> tr_sellerId t = ''slow'') \<and> \<not> (\<exists>t \<in> set traces. slow_call t \<and> tr_sellerId t \<noteq> ''slow'')) \<and>
      (dg_shared_db_pool d = Accepted \<longleftrightarrow> 0 < maxwait) \<and>
      (dg_post_business_ack_delay d = Accepted \<longleftrightarrow>
        (\<exists>sm \<in> set samples. \<exists>x \<in> set traces. \<exists>age \<ge> 1500. tr_stage x = ''business_commit'' \<and> uncommitted_for sm x age) \<and>
        maxwait = 0 \<and> \<not> (\<exists>t \<in> set traces. slow_call t))"
proof -
  let ?d = "diagnose traces samples maxwait"
  have s: "dg_seller_api_delay ?d = Accepted \<longleftrightarrow>
        (\<exists>t \<in> set traces. slow_call t \<and> tr_sellerId t = ''slow'') \<and> \<not> (\<exists>t \<in> set traces. slow_call t \<and> tr_sellerId t \<noteq> ''slow'')"
    using delayed_lookup [of traces "''slow''"] delayed_sum_zero [of "\<lambda>k. k \<noteq> ''slow''" traces]
    by (auto simp: diagnose_def judge_seller_api_def Let_def)
  have p: "dg_shared_db_pool ?d = Accepted \<longleftrightarrow> 0 < maxwait"
    by (simp add: diagnose_def judge_db_pool_def Let_def)
  have g: "1500 \<le> committed_gap (completions traces) samples \<longleftrightarrow>
      (\<exists>sm \<in> set samples. \<exists>x \<in> set traces. \<exists>age \<ge> 1500. tr_stage x = ''business_commit'' \<and> uncommitted_for sm x age)"
    using committed_gap_ge_iff [of 1500 "completions traces" samples] by (auto simp: completions_def)
  have z: "sum_list (map snd (delayed_calls traces)) = 0 \<longleftrightarrow> \<not> (\<exists>t \<in> set traces. slow_call t)"
    using delayed_sum_zero [of "\<lambda>_. True" traces] by simp
  have "dg_post_business_ack_delay ?d = Accepted \<longleftrightarrow>
      1500 \<le> committed_gap (completions traces) samples \<and> maxwait = 0 \<and> sum_list (map snd (delayed_calls traces)) = 0"
    by (simp add: diagnose_def judge_ack_delay_def Let_def)
  with s p show ?thesis unfolding Let_def g z by blast
qed

end
