(* ===== verification/Source_Drivers.thy ===== *)
theory Source_Drivers
  imports Legacy_Run
begin

text \<open>
  The drivers that go through the order service's HTTP API, \<open>experiments/end_to_end.py\<close> and
  \<open>experiments/admission.py\<close>: the partner events expected from the source's outbox, and the checks of the
  source's stock, history and final orders. Rows of the source databases are records with the columns read.
\<close>

section \<open>Expected events\<close>

definition e2e_seller :: "nat \<Rightarrow> string" where
  "e2e_seller i = (if i mod 2 = 0 then ''slow'' else ''normal'')"

definition source_sellers :: "int list \<Rightarrow> (int \<times> string) list" where
  "source_sellers ids = dict_of snd (\<lambda>x. e2e_seller (fst x)) (enumerate 0 ids)"

definition E2E_OPERATIONS :: "(int \<times> string) list" where
  "E2E_OPERATIONS = [(1, ''CREATE''), (2, ''CHANGE''), (3, ''CANCEL'')]"

definition e2e_wanted :: "string \<Rightarrow> (int \<times> string) list \<Rightarrow> event \<Rightarrow> event result" where
  "e2e_wanted run_name sellers emitted =
     (let sq = ev_sequence emitted
      in bindR (need ''orderId'' (map_of sellers (ev_orderId emitted))) (\<lambda>seller.
         bindR (need ''sequence'' (map_of E2E_OPERATIONS sq)) (\<lambda>oper.
           let w = emitted\<lparr>ev_sellerId := seller, ev_runId := run_name, ev_operation := oper,
                 ev_quantity := (if sq = 1 then 2 else 3), ev_price := (if sq = 1 then 100 else 120), ev_schemaVersion := 1\<rparr>
           in if emitted \<noteq> w then Inl AssertionError else Inr w)))"

definition e2e_expected :: "string \<Rightarrow> int list \<Rightarrow> event list \<Rightarrow> event list result" where
  "e2e_expected run_name ids records =
     bindR (mapR (e2e_wanted run_name (source_sellers ids)) records) (\<lambda>expected.
       if length expected \<noteq> 18 then Inl AssertionError
       else if set (map (\<lambda>e. (ev_orderId e, ev_sequence e)) expected) \<noteq> set (List.product ids [1, 2, 3]) then Inl AssertionError
       else Inr expected)"

section \<open>Source state\<close>

record history_row =
  hr_order_id :: int
  hr_delta :: int

record source_order =
  so_order_id :: int
  so_status :: string
  so_partner_sequence :: int
  so_quantity :: int
  so_price :: rat

datatype source_error = InventoryEffects | SourceState | AdmissionState

definition e2e_source_errors :: "int list \<Rightarrow> int \<Rightarrow> history_row list \<Rightarrow> source_order list \<Rightarrow> source_error list" where
  "e2e_source_errors ids stock history final_orders =
     (if stock \<noteq> 988 \<or> length history \<noteq> 6 \<or> list_ex (\<lambda>x. hr_delta x \<noteq> -2) history \<or> set (map hr_order_id history) \<noteq> set ids
      then [InventoryEffects] else []) @
     (if list_ex (\<lambda>x. so_status x \<noteq> ''CANCELLED'' \<or> so_partner_sequence x \<noteq> 3 \<or> so_quantity x \<noteq> 3 \<or> so_price x \<noteq> 120) final_orders
      then [SourceState] else [])"

definition e2e_passed ::
    "event list \<Rightarrow> remote \<Rightarrow> db_row list \<Rightarrow> order_row list \<Rightarrow> int list \<Rightarrow> int \<Rightarrow> history_row list \<Rightarrow> source_order list \<Rightarrow> bool" where
  "e2e_passed expected rem db_effects db_orders ids stock history final_orders \<longleftrightarrow>
     check_errors expected rem db_effects db_orders = [] \<and> e2e_source_errors ids stock history final_orders = []"

definition admission_errors :: "source_order list \<Rightarrow> int \<Rightarrow> source_error list" where
  "admission_errors source_orders stock =
     (if length source_orders \<noteq> 201 \<or> stock \<noteq> 598 \<or>
         list_ex (\<lambda>x. so_status x \<noteq> ''CONFIRMED'' \<or> so_partner_sequence x \<noteq> 1 \<or> so_quantity x \<noteq> 2 \<or> so_price x \<noteq> 100) source_orders
      then [AdmissionState] else [])"

definition admission_passed ::
    "event list \<Rightarrow> remote \<Rightarrow> db_row list \<Rightarrow> order_row list \<Rightarrow> source_order list \<Rightarrow> int \<Rightarrow> bool" where
  "admission_passed expected rem db_effects db_orders source_orders stock \<longleftrightarrow>
     ck_passed (check_effects expected rem db_effects db_orders) \<and> admission_errors source_orders stock = []"

section \<open>What the checks establish\<close>

lemma distinct_if_cover: "set xs = A \<Longrightarrow> finite A \<Longrightarrow> length xs = card A \<Longrightarrow> distinct xs"
  by (metis card_distinct)

lemma source_sellers_lookup:
  assumes "distinct ids" "i < length ids"
  shows "map_of (source_sellers ids) (ids ! i) = Some (e2e_seller i)"
proof -
  have "(i, ids ! i) \<in> set (enumerate 0 ids)" using assms(2) by (simp add: in_set_enumerate_eq)
  then show ?thesis
    unfolding source_sellers_def
    using dict_of_distinct_lookup [of snd "enumerate 0 ids" "(i, ids ! i)" "\<lambda>x. e2e_seller (fst x)"] assms(1) by simp
qed

text \<open>C30: The events expected of an end-to-end run are the outbox's own payloads, complete and exact: if the driver
  accepts them for six distinct orders, each order has exactly one event of each of the three sequence numbers,
  with the operation, quantity and price of the HTTP request it comes from and the seller given at input.\<close>

theorem e2e_expected_complete:
  assumes "e2e_expected run_name ids records = Inr expected" and "distinct ids" and "length ids = 6"
  shows "expected = records \<and> distinct (map (\<lambda>e. (ev_orderId e, ev_sequence e)) expected) \<and>
    set (map (\<lambda>e. (ev_orderId e, ev_sequence e)) expected) = set ids \<times> {1, 2, 3} \<and>
    (\<forall>e \<in> set expected. \<forall>i < length ids. ev_orderId e = ids ! i \<longrightarrow> ev_sellerId e = e2e_seller i) \<and>
    (\<forall>e \<in> set expected. (ev_operation e, ev_quantity e, ev_price e) =
      (if ev_sequence e = 1 then (''CREATE'', 2, 100) else if ev_sequence e = 2 then (''CHANGE'', 3, 120) else (''CANCEL'', 3, 120)))"
proof -
  have r: "mapR (e2e_wanted run_name (source_sellers ids)) records = Inr expected" "length expected = 18"
    and cover: "set (map (\<lambda>e. (ev_orderId e, ev_sequence e)) expected) = set ids \<times> {1, 2, 3}"
    using assms(1) by (auto simp: e2e_expected_def bindR_Inr_iff split: if_split_asm)
  have w: "emitted = e \<and> map_of (source_sellers ids) (ev_orderId e) = Some (ev_sellerId e) \<and>
      map_of E2E_OPERATIONS (ev_sequence e) = Some (ev_operation e) \<and>
      ev_quantity e = (if ev_sequence e = 1 then 2 else 3) \<and> ev_price e = (if ev_sequence e = 1 then 100 else 120)"
    if ok: "e2e_wanted run_name (source_sellers ids) emitted = Inr e" for emitted e
  proof -
    obtain seller oper w where w: "map_of (source_sellers ids) (ev_orderId emitted) = Some seller"
        "map_of E2E_OPERATIONS (ev_sequence emitted) = Some oper" "emitted = w" "e = w"
        "w = emitted\<lparr>ev_sellerId := seller, ev_runId := run_name, ev_operation := oper,
          ev_quantity := (if ev_sequence emitted = 1 then 2 else 3), ev_price := (if ev_sequence emitted = 1 then 100 else 120),
          ev_schemaVersion := 1\<rparr>"
      using ok unfolding e2e_wanted_def Let_def bindR_Inr_iff need_Inr_iff by (metis Inl_Inr_False Inr_inject)
    have "ev_sellerId w = seller" "ev_operation w = oper" "ev_quantity w = (if ev_sequence emitted = 1 then 2 else 3)"
        "ev_price w = (if ev_sequence emitted = 1 then 100 else 120)"
      using w(5) by simp_all
    then show ?thesis using w(1-4) by simp
  qed
  have same: "expected = records"
  proof (rule nth_equalityI)
    show "length expected = length records" using r(1) unfolding mapR_Inr_iff by (simp add: list_all2_lengthD)
    fix i
    assume "i < length expected"
    then have "e2e_wanted run_name (source_sellers ids) (records ! i) = Inr (expected ! i)"
      using r(1) unfolding mapR_Inr_iff by (simp add: list_all2_conv_all_nth)
    from w [OF this] show "expected ! i = records ! i" by (elim conjE) (rule sym)
  qed
  have fields: "map_of (source_sellers ids) (ev_orderId e) = Some (ev_sellerId e)"
      "map_of E2E_OPERATIONS (ev_sequence e) = Some (ev_operation e)"
      "ev_quantity e = (if ev_sequence e = 1 then 2 else 3)" "ev_price e = (if ev_sequence e = 1 then 100 else 120)"
    if "e \<in> set expected" for e
    using mapR_range [OF r(1) that] w by blast+
  have "card (set ids \<times> {1, 2, 3 :: int}) = 18" using assms(2,3) by (simp add: card_cartesian_product distinct_card)
  then have "distinct (map (\<lambda>e. (ev_orderId e, ev_sequence e)) expected)"
    using distinct_if_cover [OF cover] r(2) by simp
  moreover have "ev_sellerId e = e2e_seller i" if "e \<in> set expected" "i < length ids" "ev_orderId e = ids ! i" for e i
    using fields(1) [OF that(1)] source_sellers_lookup [OF assms(2) that(2)] that(3) by simp
  moreover have "(ev_operation e, ev_quantity e, ev_price e) =
      (if ev_sequence e = 1 then (''CREATE'', 2, 100) else if ev_sequence e = 2 then (''CHANGE'', 3, 120) else (''CANCEL'', 3, 120))"
    if "e \<in> set expected" for e
    using fields(2-4) [OF that] by (auto simp: E2E_OPERATIONS_def split: if_split_asm)
  ultimately show ?thesis using same cover by blast
qed

definition e2e_sample :: "int \<Rightarrow> nat \<Rightarrow> int \<Rightarrow> event" where
  "e2e_sample oid i sq = \<lparr>ev_eventId = show_int oid @ ''/'' @ show_int sq, ev_runId = ''run'', ev_sellerId = e2e_seller i,
     ev_orderId = oid, ev_sequence = sq, ev_operation = get_or [] (map_of E2E_OPERATIONS sq), ev_occurredAt = 1,
     ev_schemaVersion = 1, ev_quantity = (if sq = 1 then 2 else 3), ev_price = (if sq = 1 then 100 else 120), ev_padding = None\<rparr>"

definition e2e_records :: "event list" where
  "e2e_records = map (\<lambda>((i, oid), sq). e2e_sample oid i sq) (List.product (enumerate 0 [11, 12, 13, 14, 15, 16]) [1, 2, 3])"

lemma e2e_records_accepted: "e2e_expected ''run'' [11, 12, 13, 14, 15, 16] e2e_records = Inr e2e_records"
proof -
  have "case e2e_expected ''run'' [11, 12, 13, 14, 15, 16] e2e_records of Inl _ \<Rightarrow> False | Inr es \<Rightarrow> es = e2e_records" by code_simp
  then show ?thesis
    by (cases "e2e_expected ''run'' [11, 12, 13, 14, 15, 16] e2e_records") (simp_all only: sum.case)
qed

theorem e2e_expected_complete_witness:
  "distinct (map (\<lambda>e. (ev_orderId e, ev_sequence e)) e2e_records) \<and>
   set (map (\<lambda>e. (ev_orderId e, ev_sequence e)) e2e_records) = set [11, 12, 13, 14, 15, 16] \<times> {1, 2, 3}"
proof -
  have "distinct [11, 12, 13, 14, 15, 16 :: int]" "length [11, 12, 13, 14, 15, 16 :: int] = 6" by simp_all
  from e2e_expected_complete [OF e2e_records_accepted this] show ?thesis by blast
qed

text \<open>The source's own check means exactly one inventory effect per order: when it is empty for six distinct
  orders, every order has one history row, nothing else has one, each took two pieces, and the stock is the
  initial 1000 plus all recorded changes.\<close>

lemma e2e_stock_exactly_once:
  assumes "e2e_source_errors ids stock history final_orders = []" and "distinct ids" and "length ids = 6"
  shows "distinct (map hr_order_id history) \<and> set (map hr_order_id history) = set ids \<and>
    (\<forall>h \<in> set history. hr_delta h = -2) \<and> stock = 1000 + sum_list (map hr_delta history)"
proof -
  have h: "stock = 988" "length history = 6" "\<forall>h \<in> set history. hr_delta h = -2" "set (map hr_order_id history) = set ids"
    using assms(1) by (auto simp: e2e_source_errors_def list_ex_iff split: if_split_asm)
  have "distinct (map hr_order_id history)"
    using distinct_if_cover [OF h(4)] assms(2,3) h(2) by (simp add: distinct_card)
  moreover have "map hr_delta history = replicate 6 (- 2)"
    using h(2,3) by (auto simp: map_replicate_const [symmetric] intro!: nth_equalityI)
  ultimately show ?thesis using h by (simp add: sum_list_replicate)
qed

lemma e2e_stock_exactly_once_witness:
  "(988 :: int) = 1000 + sum_list (map hr_delta (map (\<lambda>k. \<lparr>hr_order_id = k, hr_delta = -2\<rparr>) [6, 5, 4, 3, 2, 1]))"
  using e2e_stock_exactly_once [of "[1, 2, 3, 4, 5, 6]" 988 "map (\<lambda>k. \<lparr>hr_order_id = k, hr_delta = -2\<rparr>) [6, 5, 4, 3, 2, 1]"
      "[\<lparr>so_order_id = 1, so_status = ''CANCELLED'', so_partner_sequence = 3, so_quantity = 3, so_price = 120\<rparr>]"]
  by (simp add: e2e_source_errors_def insert_commute)

end
