(* ===== verification/Completion_Audit.thy ===== *)
theory Completion_Audit
  imports Diagnosis Source_Drivers Budgets
begin

text \<open>
  The local completion audit, \<open>experiments/audit_local.py\<close>, and the scripts that make the runs it asks for
  (\<open>run.py --suite\<close>, \<open>finish_local.py\<close>, \<open>extra_cases.py\<close>, \<open>final_measurements.py\<close>, \<open>admission.py\<close>). A run's
  settings are the dictionary that \<open>metadata\<close> writes; files of a run directory are fields of its record.
\<close>

section \<open>Settings and jobs\<close>

datatype setting = SText string | SFlag bool | SNumber nat

type_synonym settings = "(string \<times> setting) list"

text \<open>The settings of a case apart from the names and the topology.\<close>

definition case_dict :: "case_args \<Rightarrow> settings" where
  "case_dict a =
     [(''mode'', SText (ca_mode a)), (''scenario'', SText (ca_scenario a)), (''repeat'', SNumber (ca_repeat a)),
      (''observe'', SFlag (ca_observe a)), (''backlogLimit'', SNumber (if ca_scenario a = ''backlog'' then 8 else 200)),
      (''workload'', SText (ca_workload a)), (''partitions'', SNumber (ca_partitions a)),
      (''targetEventsPerSecond'', SNumber (per_tick a * 10))]"

record e2e_args =
  ea_mode :: string
  ea_boundary :: string
  ea_concurrent :: bool
  ea_poll_ms :: nat
  ea_seller_fault :: bool

definition e2e_of :: "string \<Rightarrow> e2e_args" where
  "e2e_of mode = \<lparr>ea_mode = mode, ea_boundary = ''none'', ea_concurrent = False, ea_poll_ms = 100, ea_seller_fault = False\<rparr>"

definition e2e_dict :: "e2e_args \<Rightarrow> settings" where
  "e2e_dict a =
     [(''mode'', SText (ea_mode a)), (''scenario'', SText ''end-to-end''), (''boundary'', SText (ea_boundary a)),
      (''concurrentDuplicate'', SFlag (ea_concurrent a)), (''sourcePollMs'', SNumber (ea_poll_ms a)),
      (''sellerFault'', SFlag (ea_seller_fault a))]"

definition admission_dict :: settings where
  "admission_dict = [(''mode'', SText ''inbox''), (''scenario'', SText ''global-admission'')]"

datatype job = CaseJob case_args | EndToEnd e2e_args | Admission

fun job_settings :: "job \<Rightarrow> settings" where
  "job_settings (CaseJob a) = case_dict a"
| "job_settings (EndToEnd a) = e2e_dict a"
| "job_settings Admission = admission_dict"

definition BASE_MODES :: "string list" where
  "BASE_MODES = [''sequential'', ''async'', ''inbox'']"

definition extra_jobs :: "job list" where
  "extra_jobs = [CaseJob (case_of mode sc 2). mode \<leftarrow> BASE_MODES, sc \<leftarrow> [''hotkey'', ''broker-kill'', ''retry'']]"

definition gate_jobs :: "job list" where
  "gate_jobs = [EndToEnd ((e2e_of ''inbox'')\<lparr>ea_boundary := b\<rparr>). b \<leftarrow> [''broker_ack'', ''inventory_broker_ack''], r \<leftarrow> [0, 1 :: nat]]"

definition poll_jobs :: "job list" where
  "poll_jobs = [EndToEnd ((e2e_of ''inbox'')\<lparr>ea_poll_ms := poll\<rparr>). r \<leftarrow> [0, 1, 2 :: nat], poll \<leftarrow> [1000, 100]]"

definition finish_jobs :: "job list" where
  "finish_jobs =
     [CaseJob (case_of mode ''api'' r). r \<leftarrow> [5, 6, 7], mode \<leftarrow> BASE_MODES] @
     [CaseJob (case_of mode sc 2). mode \<leftarrow> BASE_MODES, sc \<leftarrow> [''db'', ''response-loss'', ''redelivery'']] @
     [CaseJob (case_of mode ''ack-release'' 2). mode \<leftarrow> [''sequential'', ''async'']] @
     [CaseJob (case_of ''inbox'' ''backlog'' 2)] @
     [CaseJob ((case_of mode ''clean'' r)\<lparr>ca_observe := ob\<rparr>). r \<leftarrow> [1, 2, 3], mode \<leftarrow> BASE_MODES, ob \<leftarrow> [True, False]] @
     [EndToEnd ((e2e_of mode)\<lparr>ea_seller_fault := fault\<rparr>). mode \<leftarrow> BASE_MODES, fault \<leftarrow> [False, True]] @
     gate_jobs @ [EndToEnd ((e2e_of ''inbox'')\<lparr>ea_concurrent := True\<rparr>)] @ extra_jobs @ [Admission]"

definition measurement_jobs :: "job list" where
  "measurement_jobs =
     [CaseJob (case_of mode ''api'' r). r \<leftarrow> [8, 9, 10], mode \<leftarrow> BASE_MODES] @ poll_jobs"

text \<open>The whole reproduction, \<open>reproduce.sh\<close>, and the older way: the suite completed by \<open>finish_local.py\<close> and
  \<open>final_measurements.py\<close>. The default mode of \<open>end_to_end.py\<close> is the inbox.\<close>

definition reproduce_jobs :: "job list" where
  "reproduce_jobs =
     map CaseJob suite_cases @
     [EndToEnd (e2e_of mode). mode \<leftarrow> BASE_MODES] @
     [EndToEnd ((e2e_of mode)\<lparr>ea_seller_fault := True\<rparr>).
        mode \<leftarrow> [''sequential'', ''async'', ''inbox'', ''circuit-breaker'', ''retry-topic'', ''parallel-consumer'']] @
     poll_jobs @ gate_jobs @ [EndToEnd ((e2e_of ''inbox'')\<lparr>ea_concurrent := True\<rparr>)] @ [Admission] @ extra_jobs"

definition local_jobs :: "job list" where
  "local_jobs = map CaseJob suite_cases @ finish_jobs @ measurement_jobs"

section \<open>Items of the index\<close>

datatype hypothesis = SellerApiDelay | SharedDbPool | PostBusinessAckDelay

record audit_item =
  ai_run :: string
  ai_settings :: settings
  ai_checker_passed :: bool                    \<comment> \<open>\<open>metrics.checker.passed\<close>\<close>
  ai_slo :: bool                               \<comment> \<open>\<open>measuredNormalSloPassed\<close>\<close>
  ai_sourceStock :: "int option"
  ai_acceptedUnfinished :: "int option"
  ai_rejected201st :: bool
  ai_verdict :: "hypothesis \<Rightarrow> judgement"
  ai_expected :: "event list"                  \<comment> \<open>the files replayed by the checker\<close>
  ai_remote :: remote
  ai_db_effects :: "db_row list"
  ai_db_orders :: "order_row list"
  ai_source_history :: "int list"              \<comment> \<open>order IDs of \<open>source-final.json\<close>\<close>
  ai_source_orders :: "int list"
  ai_source_input :: "int list"
  ai_budget :: "budget_check result"           \<comment> \<open>\<open>verify_budgets.py\<close> on the directory\<close>
  ai_gate_event :: string                      \<comment> \<open>first line of the gate's marker\<close>
  ai_outbox :: "(string \<times> string) list"    \<comment> \<open>event ID and status at the boundary\<close>
  ai_broker_has :: bool                        \<comment> \<open>the event is in the captured broker records\<close>

datatype audit_error =
    TooFew string nat nat                      \<comment> \<open>requirement, wanted, found\<close>
  | ReplayFailed string "check_error list"
  | SourceHistory string
  | SloFailed string
  | BudgetFailed string
  | NoParallelism string
  | NoPendingOutbox string
  | NoBrokerRecord string
  | StockMismatch string
  | AdmissionProof
  | DiagnosisMissing string hypothesis
  | BaselineMissing

record requirement =
  rq_name :: string
  rq_mode :: string
  rq_scenario :: string
  rq_count :: nat
  rq_settings :: settings

definition asked :: "settings \<Rightarrow> requirement \<Rightarrow> bool" where
  "asked d r \<longleftrightarrow> map_of d ''mode'' = Some (SText (rq_mode r)) \<and> map_of d ''scenario'' = Some (SText (rq_scenario r)) \<and>
     list_all (\<lambda>(k, v). map_of d k = Some v) (rq_settings r)"

definition matches_of :: "audit_item list \<Rightarrow> requirement \<Rightarrow> audit_item list" where
  "matches_of items r = filter (\<lambda>x. ai_checker_passed x \<and> asked (ai_settings x) r) items"

definition require_errors :: "audit_item list \<Rightarrow> requirement \<Rightarrow> audit_error list" where
  "require_errors items r =
     (let n = length (matches_of items r) in if n < rq_count r then [TooFew (rq_name r) (rq_count r) n] else [])"

section \<open>The requirements, in the order of the code\<close>

definition req :: "string \<Rightarrow> string \<Rightarrow> string \<Rightarrow> nat \<Rightarrow> settings \<Rightarrow> requirement" where
  "req name mode scenario n st = \<lparr>rq_name = name, rq_mode = mode, rq_scenario = scenario, rq_count = n, rq_settings = st\<rparr>"

definition show_bool :: "bool \<Rightarrow> string" where
  "show_bool v = (if v then ''True'' else ''False'')"

definition api_requirement :: "string \<Rightarrow> requirement" where
  "api_requirement mode = req (''api-'' @ mode) mode ''api'' 3 [(''observe'', SFlag True), (''workload'', SText ''pair'')]"

definition http_settings :: "nat \<Rightarrow> bool \<Rightarrow> settings" where
  "http_settings poll fault = [(''boundary'', SText ''none''), (''concurrentDuplicate'', SFlag False),
     (''sourcePollMs'', SNumber poll), (''sellerFault'', SFlag fault)]"

definition http_requirement :: "string \<Rightarrow> bool \<Rightarrow> requirement" where
  "http_requirement mode fault = req (''http-'' @ mode @ ''-'' @ show_bool fault) mode ''end-to-end'' 1 (http_settings 100 fault)"

definition plain_requirement :: "string \<Rightarrow> string \<Rightarrow> requirement" where
  "plain_requirement mode scenario = req (scenario @ ''-'' @ mode) mode scenario 1 []"

definition base_requirements :: "string \<Rightarrow> requirement list" where
  "base_requirements mode =
     [req (''clean-'' @ mode @ ''-'' @ show_bool ob) mode ''clean'' 3 [(''observe'', SFlag ob)]. ob \<leftarrow> [True, False]] @
     map (plain_requirement mode) [''db'', ''response-loss'', ''redelivery'', ''retry'', ''hotkey'', ''broker-kill''] @
     map (http_requirement mode) [False, True]"

definition boundary_requirements :: "string \<Rightarrow> requirement list" where
  "boundary_requirements mode =
     (if mode \<in> {''sequential'', ''async''}
      then map (plain_requirement mode) [''ack-kill'', ''ack-release'', ''external-kill'', ''business-before-kill'', ''rebalance'']
      else [])"

definition inbox_requirements :: "requirement list" where
  "inbox_requirements =
     map (plain_requirement ''inbox'')
       [''inbox-kill'', ''worker-kill'', ''external-kill'', ''business-before-kill'', ''inbox-before-kill'', ''backlog''] @
     [req (''poll-'' @ show_nat poll) ''inbox'' ''end-to-end'' 3 (http_settings poll False). poll \<leftarrow> [1000, 100]]"

definition gate_requirement :: "string \<Rightarrow> requirement" where
  "gate_requirement gate = req gate ''inbox'' ''end-to-end'' 2 [(''boundary'', SText gate)]"

definition admission_requirement :: requirement where
  "admission_requirement = req ''global-admission'' ''inbox'' ''global-admission'' 1 []"

definition concurrent_requirement :: requirement where
  "concurrent_requirement =
     req ''inventory-concurrent-duplicate'' ''inbox'' ''end-to-end'' 1 [(''concurrentDuplicate'', SFlag True)]"

definition remedy_requirements :: "requirement list" where
  "remedy_requirements =
     concat (map (\<lambda>mode. [api_requirement mode] @
       map (plain_requirement mode) [''db'', ''response-loss'', ''redelivery'', ''retry'', ''hotkey'', ''broker-kill'',
         ''external-kill'', ''business-before-kill'', ''ack-kill''] @
       [http_requirement mode True]) [''circuit-breaker'', ''retry-topic'', ''parallel-consumer'']) @
     [req ''park-kill-retry-topic'' ''retry-topic'' ''park-kill'' 1 []] @
     [req (''market-p'' @ show_nat p @ ''-'' @ mode) mode ''api'' 3 [(''workload'', SText ''market''), (''partitions'', SNumber p)].
        mode \<leftarrow> [''sequential'', ''async'', ''inbox'', ''circuit-breaker'', ''retry-topic'', ''parallel-consumer''], p \<leftarrow> [1, 4]] @
     [req (''hang-'' @ mode) mode ''hang'' 3 [(''workload'', SText ''market''), (''partitions'', SNumber 4)].
        mode \<leftarrow> [''sequential'', ''retry-topic'', ''parallel-consumer'', ''inbox'']]"

section \<open>The audit\<close>

definition replay_errors :: "audit_item \<Rightarrow> audit_error list" where
  "replay_errors x =
     (let errs = check_errors (ai_expected x) (ai_remote x) (ai_db_effects x) (ai_db_orders x)
      in (if errs \<noteq> [] then [ReplayFailed (ai_run x) errs] else []) @
         (if map_of (ai_settings x) ''scenario'' = Some (SText ''end-to-end'') \<and>
             (length (ai_source_history x) \<noteq> card (set (ai_source_input x)) \<or>
              set (ai_source_history x) \<noteq> set (ai_source_input x) \<or> set (ai_source_orders x) \<noteq> set (ai_source_input x))
          then [SourceHistory (ai_run x)] else []))"

text \<open>\<open>verify_budgets.py\<close> exits with an error when its check fails or raises.\<close>

definition api_item_errors :: "string \<Rightarrow> audit_item \<Rightarrow> audit_error list" where
  "api_item_errors mode x =
     (if mode = ''inbox'' \<and> \<not> ai_slo x then [SloFailed (ai_run x)] else []) @
     (case ai_budget x of
        Inl _ \<Rightarrow> [BudgetFailed (ai_run x)]
      | Inr c \<Rightarrow> if \<not> bc_passed c then [BudgetFailed (ai_run x)]
                 else if mode \<in> {''async'', ''inbox''} \<and> \<not> bc_differentOrdersOverlapped c then [NoParallelism (ai_run x)] else [])"

definition last_three :: "'a list \<Rightarrow> 'a list" where
  "last_three xs = drop (length xs - 3) xs"

definition mode_errors :: "audit_item list \<Rightarrow> string \<Rightarrow> audit_error list" where
  "mode_errors items mode =
     require_errors items (api_requirement mode) @
     concat (map (require_errors items) (base_requirements mode)) @
     concat (map (api_item_errors mode) (last_three (matches_of items (api_requirement mode)))) @
     concat (map (require_errors items) (boundary_requirements mode))"

definition gate_item_errors :: "audit_item \<Rightarrow> audit_error list" where
  "gate_item_errors x =
     (if \<not> list_ex (\<lambda>(k, st). k = ai_gate_event x \<and> st = ''PENDING'') (ai_outbox x) then [NoPendingOutbox (ai_run x)] else []) @
     (if \<not> ai_broker_has x then [NoBrokerRecord (ai_run x)] else []) @
     (if ai_sourceStock x \<noteq> Some 988 then [StockMismatch (ai_run x)] else [])"

definition gate_errors :: "audit_item list \<Rightarrow> string \<Rightarrow> audit_error list" where
  "gate_errors items gate =
     require_errors items (gate_requirement gate) @
     concat (map gate_item_errors (matches_of items (gate_requirement gate)))"

definition admission_audit :: "audit_item list \<Rightarrow> audit_error list" where
  "admission_audit items =
     require_errors items admission_requirement @
     concat (map (\<lambda>x. if ai_acceptedUnfinished x \<noteq> Some 200 \<or> \<not> ai_rejected201st x then [AdmissionProof] else [])
       (matches_of items admission_requirement))"

definition hypotheses_of :: "string \<Rightarrow> (string \<times> hypothesis) list" where
  "hypotheses_of mode = [(''api'', SellerApiDelay), (''db'', SharedDbPool)] @
     (if mode \<noteq> ''inbox'' then [(''ack-release'', PostBusinessAckDelay)] else [])"

definition pair_cases :: "audit_item list \<Rightarrow> string \<Rightarrow> string \<Rightarrow> audit_item list" where
  "pair_cases items mode scenario =
     filter (\<lambda>x. map_of (ai_settings x) ''mode'' = Some (SText mode) \<and> map_of (ai_settings x) ''scenario'' = Some (SText scenario) \<and>
       get_or (SText ''pair'') (map_of (ai_settings x) ''workload'') = SText ''pair'') items"

definition diagnosis_errors :: "audit_item list \<Rightarrow> string \<Rightarrow> audit_error list" where
  "diagnosis_errors items mode =
     concat (map (\<lambda>(scenario, h). let cases = pair_cases items mode scenario
       in if cases = [] \<or> ai_verdict (List.last cases) h \<noteq> Accepted then [DiagnosisMissing mode h] else []) (hypotheses_of mode))"

definition audit_errors :: "bool \<Rightarrow> audit_item list \<Rightarrow> audit_error list" where
  "audit_errors baseline_exists items =
     concat (map replay_errors items) @
     concat (map (mode_errors items) BASE_MODES) @
     concat (map (require_errors items) inbox_requirements) @
     concat (map (gate_errors items) [''broker_ack'', ''inventory_broker_ack'']) @
     require_errors items concurrent_requirement @
     admission_audit items @
     concat (map (diagnosis_errors items) BASE_MODES) @
     (if baseline_exists then [] else [BaselineMissing]) @
     concat (map (require_errors items) remedy_requirements)"

definition all_requirements :: "requirement list" where
  "all_requirements =
     concat (map (\<lambda>mode. api_requirement mode # base_requirements mode @ boundary_requirements mode) BASE_MODES) @
     inbox_requirements @ map gate_requirement [''broker_ack'', ''inventory_broker_ack''] @
     [concurrent_requirement, admission_requirement] @ remedy_requirements"

section \<open>Which requirements the scripts meet\<close>

definition planned :: "job list \<Rightarrow> requirement \<Rightarrow> nat" where
  "planned jobs r = length (filter (\<lambda>j. asked (job_settings j) r) jobs)"

definition met :: "job list \<Rightarrow> requirement \<Rightarrow> bool" where
  "met jobs r \<longleftrightarrow> rq_count r \<le> planned jobs r"

lemma asked_case:
  "asked (case_dict a) r \<longleftrightarrow> ca_mode a = rq_mode r \<and> ca_scenario a = rq_scenario r \<and>
     list_all (\<lambda>(k, v). map_of (case_dict a) k = Some v) (rq_settings r)"
  by (simp add: asked_def case_dict_def)

lemma case_settings_lookup:
  "map_of (case_dict a) ''observe'' = Some (SFlag (ca_observe a))"
  "map_of (case_dict a) ''workload'' = Some (SText (ca_workload a))"
  "map_of (case_dict a) ''partitions'' = Some (SNumber (ca_partitions a))"
  by (simp_all add: case_dict_def)

lemma planned_evidence:
  assumes "distinct ys" "set ys \<subseteq> set jobs" "\<forall>j \<in> set ys. asked (job_settings j) r" "rq_count r \<le> length ys"
  shows "rq_count r \<le> planned jobs r"
proof -
  have "length ys = card (set ys)" using assms(1) by (simp add: distinct_card)
  also have "\<dots> \<le> card (set (filter (\<lambda>j. asked (job_settings j) r) jobs))" using assms(2,3) by (intro card_mono) auto
  also have "\<dots> \<le> planned jobs r" unfolding planned_def by (rule card_length)
  finally show ?thesis using assms(4) by simp
qed

lemma planned_append: "planned (xs @ ys) r = planned xs r + planned ys r"
  by (simp add: planned_def)

lemma case_of_eq [simp]: "case_of m s k = case_of m' s' k' \<longleftrightarrow> m = m' \<and> s = s' \<and> k = k'"
  by (simp add: case_of_def)

lemma met_plain_suite:
  "\<forall>(mode, sc) \<in> set (List.product BASE_MODES [''db'', ''response-loss'', ''redelivery'', ''retry''] @
      List.product [''sequential'', ''async''] [''ack-kill'', ''ack-release'', ''external-kill'', ''business-before-kill'', ''rebalance''] @
      List.product [''inbox''] [''inbox-kill'', ''worker-kill'', ''external-kill'', ''business-before-kill'', ''inbox-before-kill'', ''backlog''] @
      List.product NEW_MODES [''db'', ''response-loss'', ''redelivery'', ''retry'', ''hotkey'', ''broker-kill'',
        ''external-kill'', ''business-before-kill'', ''ack-kill''] @ [(''retry-topic'', ''park-kill'')]).
    case_of mode sc 1 \<in> set suite_cases"
proof -
  have part: "set (List.product ms scs) = set ms \<times> set scs" for ms scs :: "string list" by simp
  have "\<forall>mode \<in> set BASE_MODES. \<forall>sc \<in> set [''db'', ''response-loss'', ''redelivery'', ''retry'']. case_of mode sc 1 \<in> set suite_cases"
    unfolding suite_cases_def set_append BASE_MODES_def by auto
  moreover have "\<forall>mode \<in> set [''sequential'', ''async'']. \<forall>sc \<in> set [''ack-kill'', ''ack-release'', ''external-kill'', ''business-before-kill'', ''rebalance''].
      case_of mode sc 1 \<in> set suite_cases"
    unfolding suite_cases_def set_append by auto
  moreover have "\<forall>sc \<in> set [''inbox-kill'', ''worker-kill'', ''external-kill'', ''business-before-kill'', ''inbox-before-kill'', ''backlog''].
      case_of ''inbox'' sc 1 \<in> set suite_cases"
    unfolding suite_cases_def set_append by auto
  moreover have "\<forall>mode \<in> set NEW_MODES. \<forall>sc \<in> set [''db'', ''response-loss'', ''redelivery'', ''retry'', ''hotkey'', ''broker-kill'',
        ''external-kill'', ''business-before-kill'', ''ack-kill'']. case_of mode sc 1 \<in> set comparison_cases"
    unfolding comparison_cases_def set_append by auto
  moreover have "case_of ''retry-topic'' ''park-kill'' 1 \<in> set comparison_cases" unfolding comparison_cases_def set_append by simp
  moreover have "set comparison_cases \<subseteq> set suite_cases" unfolding suite_cases_def set_append by blast
  ultimately show ?thesis unfolding set_append part by auto
qed

lemma suite_members:
  "k \<in> {1, 2, 3} \<Longrightarrow> mode \<in> set BASE_MODES \<union> set NEW_MODES \<Longrightarrow>
    (case_of mode ''api'' k)\<lparr>ca_observe := True, ca_workload := ''pair'', ca_partitions := 1\<rparr> \<in> set suite_cases"
  "k \<in> {1, 2, 3} \<Longrightarrow> mode \<in> set BASE_MODES \<Longrightarrow>
    (case_of mode ''clean'' k)\<lparr>ca_observe := ob, ca_workload := ''pair'', ca_partitions := 1\<rparr> \<in> set suite_cases"
  "k \<in> {1, 2, 3} \<Longrightarrow> mode \<in> set MODES \<Longrightarrow> p \<in> {1, 4} \<Longrightarrow>
    (case_of mode ''api'' k)\<lparr>ca_observe := True, ca_workload := ''market'', ca_partitions := p\<rparr> \<in> set suite_cases"
  "k \<in> {1, 2, 3} \<Longrightarrow> mode \<in> {''sequential'', ''retry-topic'', ''parallel-consumer'', ''inbox''} \<Longrightarrow>
    (case_of mode ''hang'' k)\<lparr>ca_observe := True, ca_workload := ''market'', ca_partitions := 4\<rparr> \<in> set suite_cases"
proof -
  have pair: "(case_of m s k)\<lparr>ca_observe := ob, ca_workload := ''pair'', ca_partitions := 1\<rparr> = (case_of m s k)\<lparr>ca_observe := ob\<rparr>"
    "(case_of m s k)\<lparr>ca_observe := True\<rparr> = case_of m s k"
    "(case_of m s k)\<lparr>ca_observe := True, ca_workload := w, ca_partitions := p\<rparr> = (case_of m s k)\<lparr>ca_workload := w, ca_partitions := p\<rparr>" for m s k ob w p
    by (simp_all add: case_of_def)
  have api: "(case_of m s k)\<lparr>ca_observe := True, ca_workload := ''pair'', ca_partitions := 1\<rparr> = case_of m s k" for m s k
    by (simp add: case_of_def)
  have sub: "set comparison_cases \<subseteq> set suite_cases" unfolding suite_cases_def set_append by blast
  { assume k: "k \<in> {1, 2, 3}" and m: "mode \<in> set BASE_MODES \<union> set NEW_MODES"
    have base: "mode \<in> set BASE_MODES \<Longrightarrow> case_of mode ''api'' k \<in> set suite_cases"
      using k unfolding suite_cases_def set_append BASE_MODES_def by (intro UnI1) auto
    have new: "mode \<in> set NEW_MODES \<Longrightarrow> case_of mode ''api'' k \<in> set comparison_cases"
      using k unfolding comparison_cases_def set_append by (intro UnI1) auto
    from m have "case_of mode ''api'' k \<in> set suite_cases"
      by (rule UnE) (erule base, rule subsetD [OF sub], erule new)
    then show "(case_of mode ''api'' k)\<lparr>ca_observe := True, ca_workload := ''pair'', ca_partitions := 1\<rparr> \<in> set suite_cases"
      by (simp only: api) }
  { assume "k \<in> {1, 2, 3}" "mode \<in> set BASE_MODES"
    then show "(case_of mode ''clean'' k)\<lparr>ca_observe := ob, ca_workload := ''pair'', ca_partitions := 1\<rparr> \<in> set suite_cases"
      unfolding pair suite_cases_def set_append BASE_MODES_def by (cases ob) auto }
  { assume "k \<in> {1, 2, 3}" "mode \<in> set MODES" "p \<in> {1, 4}"
    then have "(case_of mode ''api'' k)\<lparr>ca_workload := ''market'', ca_partitions := p\<rparr> \<in> set comparison_cases"
      unfolding comparison_cases_def set_append by - (rule UnI2, rule UnI1, auto)
    then show "(case_of mode ''api'' k)\<lparr>ca_observe := True, ca_workload := ''market'', ca_partitions := p\<rparr> \<in> set suite_cases"
      unfolding pair using sub by blast }
  { assume "k \<in> {1, 2, 3}" "mode \<in> {''sequential'', ''retry-topic'', ''parallel-consumer'', ''inbox''}"
    then have "(case_of mode ''hang'' k)\<lparr>ca_workload := ''market'', ca_partitions := 4\<rparr> \<in> set comparison_cases"
      unfolding comparison_cases_def set_append by auto
    then show "(case_of mode ''hang'' k)\<lparr>ca_observe := True, ca_workload := ''market'', ca_partitions := 4\<rparr> \<in> set suite_cases"
      unfolding pair using sub by blast }
qed

subsection \<open>Plans that contain the suite and the drivers\<close>

text \<open>What a plan of jobs has to contain for the requirements below, independent of the script that makes it.\<close>

locale job_plan =
  fixes jobs :: "job list"
  assumes suite_job: "a \<in> set suite_cases \<Longrightarrow> CaseJob a \<in> set jobs"
    and extra_job: "j \<in> set extra_jobs \<Longrightarrow> j \<in> set jobs"
    and http_job: "mode \<in> set BASE_MODES \<Longrightarrow> EndToEnd ((e2e_of mode)\<lparr>ea_seller_fault := fault\<rparr>) \<in> set jobs"
    and poll_job: "planned poll_jobs r \<le> planned jobs r"
    and gate_job: "planned gate_jobs r \<le> planned jobs r"
    and concurrent_job: "EndToEnd ((e2e_of ''inbox'')\<lparr>ea_concurrent := True\<rparr>) \<in> set jobs"
    and admission_job: "Admission \<in> set jobs"
begin

lemma plain_met:
  assumes "CaseJob (case_of mode sc k) \<in> set jobs"
  shows "rq_count (plain_requirement mode sc) \<le> planned jobs (plain_requirement mode sc)"
  by (rule planned_evidence [of "[CaseJob (case_of mode sc k)]"])
    (use assms in \<open>simp_all add: asked_case plain_requirement_def req_def case_of_def\<close>)

lemma plain_suite:
  assumes "case_of mode sc 1 \<in> set suite_cases"
  shows "rq_count (plain_requirement mode sc) \<le> planned jobs (plain_requirement mode sc)"
  by (rule plain_met, rule suite_job, rule assms)

lemma plain_extra:
  assumes "CaseJob (case_of mode sc 2) \<in> set extra_jobs"
  shows "rq_count (plain_requirement mode sc) \<le> planned jobs (plain_requirement mode sc)"
  by (rule plain_met, rule extra_job, rule assms)

lemma triple_met:
  assumes "\<And>k. k \<in> {1, 2, 3} \<Longrightarrow> (case_of mode sc k)\<lparr>ca_observe := ob, ca_workload := w, ca_partitions := p\<rparr> \<in> set suite_cases"
    and "rq_mode r = mode" "rq_scenario r = sc" "rq_count r \<le> 3"
    and "list_all (\<lambda>(k, v). (k, v) \<in> {(''observe'', SFlag ob), (''workload'', SText w), (''partitions'', SNumber p)}) (rq_settings r)"
  shows "rq_count r \<le> planned jobs r"
proof (rule planned_evidence)
  let ?a = "\<lambda>k. (case_of mode sc k)\<lparr>ca_observe := ob, ca_workload := w, ca_partitions := p\<rparr>"
  let ?ys = "map (\<lambda>k. CaseJob (?a k)) [1, 2, 3]"
  show "distinct ?ys" by (simp add: case_of_def)
  have job: "CaseJob (?a k) \<in> set jobs" if k: "k \<in> {1, 2, 3}" for k by (rule suite_job, rule assms(1), rule k)
  show "set ?ys \<subseteq> set jobs" using job [of 1] job [of 2] job [of 3] by (simp del: case_of_eq)
  have "map_of (case_dict (?a k)) x = Some v"
    if "(x, v) \<in> {(''observe'', SFlag ob), (''workload'', SText w), (''partitions'', SNumber p)}" for k x v
    using that unfolding insert_iff prod.inject by (elim disjE conjE) (simp_all add: case_settings_lookup)
  then have "list_all (\<lambda>(x, v). map_of (case_dict (?a k)) x = Some v) (rq_settings r)" for k
    using assms(5) by (rule_tac list.pred_mono_strong) (assumption, blast)
  then show "\<forall>j \<in> set ?ys. asked (job_settings j) r"
    using assms(2,3) by (simp add: asked_case) (simp add: case_of_def)
  show "rq_count r \<le> length ?ys" using assms(4) by simp
qed

lemma met_api:
  "mode \<in> set BASE_MODES \<union> set NEW_MODES \<Longrightarrow> rq_count (api_requirement mode) \<le> planned jobs (api_requirement mode)"
  by (rule triple_met [OF suite_members(1)]) (simp_all add: api_requirement_def req_def)

lemma met_clean:
  "mode \<in> set BASE_MODES \<Longrightarrow> rq_count (req name mode ''clean'' 3 [(''observe'', SFlag ob)]) \<le>
     planned jobs (req name mode ''clean'' 3 [(''observe'', SFlag ob)])"
  by (rule triple_met [OF suite_members(2)]) (simp_all add: req_def)

lemma met_market:
  "mode \<in> set MODES \<Longrightarrow> p \<in> {1, 4} \<Longrightarrow>
     rq_count (req name mode ''api'' 3 [(''workload'', SText ''market''), (''partitions'', SNumber p)]) \<le>
     planned jobs (req name mode ''api'' 3 [(''workload'', SText ''market''), (''partitions'', SNumber p)])"
  by (rule triple_met [OF suite_members(3)]) (simp_all add: req_def)

lemma met_hang:
  "mode \<in> {''sequential'', ''retry-topic'', ''parallel-consumer'', ''inbox''} \<Longrightarrow>
     rq_count (req name mode ''hang'' 3 [(''workload'', SText ''market''), (''partitions'', SNumber 4)]) \<le>
     planned jobs (req name mode ''hang'' 3 [(''workload'', SText ''market''), (''partitions'', SNumber 4)])"
  by (rule triple_met [OF suite_members(4)]) (simp_all add: req_def)

lemma met_http:
  assumes "mode \<in> set BASE_MODES"
  shows "rq_count (http_requirement mode fault) \<le> planned jobs (http_requirement mode fault)"
proof (rule planned_evidence [of "[EndToEnd ((e2e_of mode)\<lparr>ea_seller_fault := fault\<rparr>)]"])
  show "set [EndToEnd ((e2e_of mode)\<lparr>ea_seller_fault := fault\<rparr>)] \<subseteq> set jobs" using http_job [OF assms] by simp
qed (simp_all add: asked_def http_requirement_def http_settings_def req_def e2e_dict_def e2e_of_def)

lemma met_repeated:
  "poll \<in> {1000, 100} \<Longrightarrow> rq_count (req name ''inbox'' ''end-to-end'' 3 (http_settings poll False)) \<le>
     planned jobs (req name ''inbox'' ''end-to-end'' 3 (http_settings poll False))"
  "gate \<in> {''broker_ack'', ''inventory_broker_ack''} \<Longrightarrow>
     rq_count (gate_requirement gate) \<le> planned jobs (gate_requirement gate)"
proof -
  { assume "poll \<in> {1000, 100}"
    then have "3 \<le> planned poll_jobs (req name ''inbox'' ''end-to-end'' 3 (http_settings poll False))"
      by (auto simp: planned_def poll_jobs_def asked_def req_def http_settings_def e2e_dict_def e2e_of_def)
    then show "rq_count (req name ''inbox'' ''end-to-end'' 3 (http_settings poll False)) \<le>
        planned jobs (req name ''inbox'' ''end-to-end'' 3 (http_settings poll False))"
      by (intro order_trans [OF _ poll_job]) (simp add: req_def) }
  { assume "gate \<in> {''broker_ack'', ''inventory_broker_ack''}"
    then have "2 \<le> planned gate_jobs (gate_requirement gate)"
      by (auto simp: planned_def gate_jobs_def asked_def gate_requirement_def req_def e2e_dict_def e2e_of_def)
    then show "rq_count (gate_requirement gate) \<le> planned jobs (gate_requirement gate)"
      by (intro order_trans [OF _ gate_job]) (simp add: req_def gate_requirement_def) }
qed

lemma met_single:
  "rq_count concurrent_requirement \<le> planned jobs concurrent_requirement"
  "rq_count admission_requirement \<le> planned jobs admission_requirement"
proof -
  show "rq_count concurrent_requirement \<le> planned jobs concurrent_requirement"
    by (rule planned_evidence [of "[EndToEnd ((e2e_of ''inbox'')\<lparr>ea_concurrent := True\<rparr>)]"])
      (use concurrent_job in \<open>simp_all add: asked_def concurrent_requirement_def req_def e2e_dict_def e2e_of_def\<close>)
  show "rq_count admission_requirement \<le> planned jobs admission_requirement"
    by (rule planned_evidence [of "[Admission]"])
      (use admission_job in \<open>simp_all add: asked_def admission_requirement_def req_def admission_dict_def\<close>)
qed

lemma met_plain:
  "mode \<in> set BASE_MODES \<Longrightarrow>
     \<forall>x \<in> set (map (plain_requirement mode) [''db'', ''response-loss'', ''redelivery'', ''retry'', ''hotkey'', ''broker-kill'']). met jobs x"
  "\<forall>x \<in> set (boundary_requirements mode). met jobs x"
  "\<forall>x \<in> set (map (plain_requirement ''inbox'')
     [''inbox-kill'', ''worker-kill'', ''external-kill'', ''business-before-kill'', ''inbox-before-kill'', ''backlog'']). met jobs x"
  "mode \<in> set NEW_MODES \<Longrightarrow> \<forall>x \<in> set (map (plain_requirement mode) [''db'', ''response-loss'', ''redelivery'', ''retry'', ''hotkey'',
     ''broker-kill'', ''external-kill'', ''business-before-kill'', ''ack-kill'']). met jobs x"
  "met jobs (req ''park-kill-retry-topic'' ''retry-topic'' ''park-kill'' 1 [])"
proof -
  note suite = met_plain_suite [unfolded set_append set_product ball_Un split_paired_Ball_Sigma prod.case]
  have plain: "case_of m sc 1 \<in> set suite_cases \<Longrightarrow> met jobs (plain_requirement m sc)" for m sc
    unfolding met_def by (rule plain_suite)
  have extra: "m \<in> set BASE_MODES \<Longrightarrow> sc \<in> {''hotkey'', ''broker-kill''} \<Longrightarrow> met jobs (plain_requirement m sc)" for m sc
    unfolding met_def by (rule plain_extra) (auto simp: extra_jobs_def)
  { assume "mode \<in> set BASE_MODES"
    with suite extra plain show
      "\<forall>x \<in> set (map (plain_requirement mode) [''db'', ''response-loss'', ''redelivery'', ''retry'', ''hotkey'', ''broker-kill'']). met jobs x"
      by simp }
  show "\<forall>x \<in> set (boundary_requirements mode). met jobs x"
  proof (cases "mode \<in> {''sequential'', ''async''}")
    case True
    then consider "mode = ''sequential''" | "mode = ''async''" by blast
    then show ?thesis by cases (use suite plain in \<open>simp_all add: boundary_requirements_def\<close>)
  qed (simp add: boundary_requirements_def)
  show "\<forall>x \<in> set (map (plain_requirement ''inbox'')
     [''inbox-kill'', ''worker-kill'', ''external-kill'', ''business-before-kill'', ''inbox-before-kill'', ''backlog'']). met jobs x"
    using suite plain by simp
  { assume "mode \<in> set NEW_MODES"
    with suite plain show "\<forall>x \<in> set (map (plain_requirement mode) [''db'', ''response-loss'', ''redelivery'', ''retry'', ''hotkey'',
        ''broker-kill'', ''external-kill'', ''business-before-kill'', ''ack-kill'']). met jobs x"
      by simp }
  have rename: "met jobs (x\<lparr>rq_name := n\<rparr>) = met jobs x" for x n by (simp add: met_def planned_def asked_def)
  have "(plain_requirement ''retry-topic'' ''park-kill'')\<lparr>rq_name := ''park-kill-retry-topic''\<rparr> =
      req ''park-kill-retry-topic'' ''retry-topic'' ''park-kill'' 1 []"
    by (simp add: plain_requirement_def req_def)
  moreover have "met jobs (plain_requirement ''retry-topic'' ''park-kill'')" using suite plain by simp
  ultimately show "met jobs (req ''park-kill-retry-topic'' ''retry-topic'' ''park-kill'' 1 [])" using rename by metis
qed

lemma requirement_groups:
  "\<forall>r \<in> set all_requirements. met jobs r \<or> r \<in> (\<lambda>m. http_requirement m True) ` set NEW_MODES"
proof -
  have base: "\<forall>x \<in> set (api_requirement mode # base_requirements mode @ boundary_requirements mode). met jobs x" if "mode \<in> set BASE_MODES" for mode
    using met_plain(1,2) [of mode] met_api [of mode] met_clean [OF that] met_http [OF that] that
    by (simp add: base_requirements_def met_def)
  have inbox: "\<forall>x \<in> set inbox_requirements. met jobs x"
    using met_plain(3) met_repeated(1) by (simp add: inbox_requirements_def met_def)
  have new: "set [''circuit-breaker'', ''retry-topic'', ''parallel-consumer''] = set NEW_MODES" by (simp add: NEW_MODES_def)
  have remedy: "\<forall>x \<in> set (concat (map (\<lambda>mode. [api_requirement mode] @
       map (plain_requirement mode) [''db'', ''response-loss'', ''redelivery'', ''retry'', ''hotkey'', ''broker-kill'',
         ''external-kill'', ''business-before-kill'', ''ack-kill''] @
       [http_requirement mode True]) [''circuit-breaker'', ''retry-topic'', ''parallel-consumer''])).
     met jobs x \<or> x \<in> (\<lambda>m. http_requirement m True) ` set NEW_MODES"
    unfolding set_concat set_map new set_append
    using met_plain(4) met_api by (auto simp: met_def)
  have market: "\<forall>x \<in> set [req (''market-p'' @ show_nat p @ ''-'' @ mode) mode ''api'' 3 [(''workload'', SText ''market''), (''partitions'', SNumber p)].
        mode \<leftarrow> [''sequential'', ''async'', ''inbox'', ''circuit-breaker'', ''retry-topic'', ''parallel-consumer''], p \<leftarrow> [1, 4]]. met jobs x"
    using met_market by (auto simp: met_def MODES_def)
  have hang: "\<forall>x \<in> set [req (''hang-'' @ mode) mode ''hang'' 3 [(''workload'', SText ''market''), (''partitions'', SNumber 4)].
        mode \<leftarrow> [''sequential'', ''retry-topic'', ''parallel-consumer'', ''inbox'']]. met jobs x"
    using met_hang by (auto simp: met_def)
  have gates: "\<forall>x \<in> set (map gate_requirement [''broker_ack'', ''inventory_broker_ack'']). met jobs x"
    using met_repeated(2) by (simp add: met_def)
  have bases: "\<forall>x \<in> set (concat (map (\<lambda>mode. api_requirement mode # base_requirements mode @ boundary_requirements mode) BASE_MODES)). met jobs x"
    unfolding set_concat set_map using base by blast
  have single: "\<forall>x \<in> set [concurrent_requirement, admission_requirement]. met jobs x"
    "\<forall>x \<in> set [req ''park-kill-retry-topic'' ''retry-topic'' ''park-kill'' 1 []]. met jobs x"
    using met_single met_plain(5) by (simp_all add: met_def)
  have weaken: "\<forall>x \<in> A. met jobs x \<Longrightarrow> \<forall>x \<in> A. met jobs x \<or> x \<in> (\<lambda>m. http_requirement m True) ` set NEW_MODES" for A by blast
  show ?thesis
    unfolding all_requirements_def remedy_requirements_def set_append ball_Un
    by (intro conjI weaken bases inbox gates single market hang remedy)
qed

end

interpretation reproduction: job_plan reproduce_jobs
proof
  have fault: "EndToEnd ((e2e_of mode)\<lparr>ea_seller_fault := True\<rparr>) \<in> set reproduce_jobs" if "mode \<in> set BASE_MODES" for mode
    using that unfolding reproduce_jobs_def set_append BASE_MODES_def by - (rule UnI2, rule UnI2, rule UnI1, auto)
  have clean: "EndToEnd (e2e_of mode) \<in> set reproduce_jobs" if "mode \<in> set BASE_MODES" for mode
    using that unfolding reproduce_jobs_def set_append by - (rule UnI2, rule UnI1, simp)
  have same: "(e2e_of mode)\<lparr>ea_seller_fault := False\<rparr> = e2e_of mode" for mode by (simp add: e2e_of_def)
  show "EndToEnd ((e2e_of mode)\<lparr>ea_seller_fault := fault\<rparr>) \<in> set reproduce_jobs" if "mode \<in> set BASE_MODES" for mode fault
    by (cases fault) (simp_all only: same fault [OF that] clean [OF that])
  show "planned poll_jobs r \<le> planned reproduce_jobs r" "planned gate_jobs r \<le> planned reproduce_jobs r" for r
    unfolding reproduce_jobs_def planned_append by linarith+
  show "CaseJob a \<in> set reproduce_jobs" if "a \<in> set suite_cases" for a
    using that unfolding reproduce_jobs_def set_append set_map by blast
  show "j \<in> set reproduce_jobs" if "j \<in> set extra_jobs" for j
    using that unfolding reproduce_jobs_def set_append by blast
  show "EndToEnd ((e2e_of ''inbox'')\<lparr>ea_concurrent := True\<rparr>) \<in> set reproduce_jobs" "Admission \<in> set reproduce_jobs"
    unfolding reproduce_jobs_def set_append by (simp_all only: list.set) blast+
qed

interpretation completion: job_plan local_jobs
proof
  have extra: "set extra_jobs \<subseteq> set finish_jobs" unfolding finish_jobs_def set_append by blast
  have finish: "set finish_jobs \<subseteq> set local_jobs" unfolding local_jobs_def set_append by blast
  have "EndToEnd ((e2e_of mode)\<lparr>ea_seller_fault := fault\<rparr>) \<in>
      set [EndToEnd ((e2e_of mode)\<lparr>ea_seller_fault := fault\<rparr>). mode \<leftarrow> BASE_MODES, fault \<leftarrow> [False, True]]"
    if "mode \<in> set BASE_MODES" for mode fault
    using that by (cases fault) auto
  then show "EndToEnd ((e2e_of mode)\<lparr>ea_seller_fault := fault\<rparr>) \<in> set local_jobs" if "mode \<in> set BASE_MODES" for mode fault
    using that finish unfolding finish_jobs_def set_append by blast
  show "planned poll_jobs r \<le> planned local_jobs r" "planned gate_jobs r \<le> planned local_jobs r" for r
    unfolding local_jobs_def finish_jobs_def measurement_jobs_def planned_append by linarith+
  show "CaseJob a \<in> set local_jobs" if "a \<in> set suite_cases" for a
    using that unfolding local_jobs_def set_append set_map by blast
  show "j \<in> set local_jobs" if "j \<in> set extra_jobs" for j using that extra finish by blast
  have "EndToEnd ((e2e_of ''inbox'')\<lparr>ea_concurrent := True\<rparr>) \<in> set finish_jobs" "Admission \<in> set finish_jobs"
    unfolding finish_jobs_def set_append by (simp_all only: list.set) blast+
  then show "EndToEnd ((e2e_of ''inbox'')\<lparr>ea_concurrent := True\<rparr>) \<in> set local_jobs" "Admission \<in> set local_jobs"
    using finish by blast+
qed

lemma reproduction_met: "r \<in> set all_requirements \<Longrightarrow> met reproduce_jobs r"
proof -
  have "met reproduce_jobs (http_requirement m True)" if "m \<in> set NEW_MODES" for m
    unfolding met_def
  proof (rule planned_evidence [of "[EndToEnd ((e2e_of m)\<lparr>ea_seller_fault := True\<rparr>)]"])
    have "EndToEnd ((e2e_of m)\<lparr>ea_seller_fault := True\<rparr>) \<in> set reproduce_jobs"
      using that unfolding reproduce_jobs_def set_append NEW_MODES_def by - (rule UnI2, rule UnI2, rule UnI1, auto)
    then show "set [EndToEnd ((e2e_of m)\<lparr>ea_seller_fault := True\<rparr>)] \<subseteq> set reproduce_jobs" by simp
  qed (simp_all add: asked_def http_requirement_def http_settings_def req_def e2e_dict_def e2e_of_def)
  then show "r \<in> set all_requirements \<Longrightarrow> met reproduce_jobs r"
    using bspec [OF reproduction.requirement_groups, of r] by blast
qed

text \<open>C32: The reproduction script makes every run that the completion audit asks for: no requirement of the audit asks
  for more runs of a kind than \<open>reproduce.sh\<close> makes.\<close>

theorem reproduction_covers_audit: "filter (\<lambda>r. planned reproduce_jobs r < rq_count r) all_requirements = []"
  using reproduction_met by (simp add: filter_empty_conv met_def not_less)

definition job_kind :: "job \<Rightarrow> bool" where
  "job_kind j \<longleftrightarrow> (case j of CaseJob a \<Rightarrow> ca_scenario a \<noteq> ''end-to-end'' | EndToEnd a \<Rightarrow> ea_mode a \<in> set BASE_MODES | Admission \<Rightarrow> True)"

lemma job_kind_case: "job_kind (CaseJob ((case_of m sc k)\<lparr>ca_observe := ob, ca_workload := w, ca_partitions := p\<rparr>)) \<longleftrightarrow> sc \<noteq> ''end-to-end''"
  "job_kind (CaseJob ((case_of m sc k)\<lparr>ca_workload := w, ca_partitions := p\<rparr>)) \<longleftrightarrow> sc \<noteq> ''end-to-end''"
  "job_kind (CaseJob ((case_of m sc k)\<lparr>ca_observe := ob\<rparr>)) \<longleftrightarrow> sc \<noteq> ''end-to-end''"
  "job_kind (CaseJob (case_of m sc k)) \<longleftrightarrow> sc \<noteq> ''end-to-end''"
  by (simp_all add: job_kind_def case_of_def)

lemma job_kind_e2e: "m \<in> set BASE_MODES \<Longrightarrow> job_kind (EndToEnd ((e2e_of m)\<lparr>ea_seller_fault := f\<rparr>))"
  "job_kind (EndToEnd ((e2e_of ''inbox'')\<lparr>ea_boundary := b\<rparr>))" "job_kind (EndToEnd ((e2e_of ''inbox'')\<lparr>ea_concurrent := d\<rparr>))"
  "job_kind (EndToEnd ((e2e_of ''inbox'')\<lparr>ea_poll_ms := n\<rparr>))" "job_kind Admission"
  by (simp_all add: job_kind_def e2e_of_def BASE_MODES_def)

lemma job_kinds: "\<forall>j \<in> set local_jobs. job_kind j"
proof -
  have "\<forall>a \<in> set comparison_cases. job_kind (CaseJob a)"
    unfolding comparison_cases_def set_append ball_Un by (simp add: ball_Un job_kind_case)
  then have "\<forall>a \<in> set suite_cases. job_kind (CaseJob a)"
    unfolding suite_cases_def set_append ball_Un by (simp add: ball_Un job_kind_case)
  moreover have "\<forall>j \<in> set extra_jobs. job_kind j" by (simp add: extra_jobs_def ball_Un job_kind_case)
  then have "\<forall>j \<in> set finish_jobs. job_kind j"
    unfolding finish_jobs_def gate_jobs_def set_append ball_Un by (simp add: ball_Un job_kind_case job_kind_e2e)
  moreover have "\<forall>j \<in> set measurement_jobs. job_kind j"
    unfolding measurement_jobs_def poll_jobs_def set_append ball_Un by (simp add: ball_Un job_kind_case job_kind_e2e)
  ultimately show ?thesis by (auto simp: local_jobs_def)
qed

lemma http_unplanned:
  assumes "mode \<notin> set BASE_MODES"
  shows "planned local_jobs (http_requirement mode fault) = 0"
proof -
  have "\<not> asked (job_settings j) (http_requirement mode fault)" if "j \<in> set local_jobs" for j
    using bspec [OF job_kinds that] assms
    by (cases j) (auto simp: job_kind_def asked_def http_requirement_def req_def case_dict_def e2e_dict_def admission_dict_def)
  then show ?thesis by (simp add: planned_def)
qed

text \<open>The older scripts do not: they miss exactly the end-to-end case with a seller fault for the three standard
  remedies.\<close>

lemma scripts_cover_audit:
  "{r. r \<in> set all_requirements \<and> planned local_jobs r < rq_count r} =
     {http_requirement ''circuit-breaker'' True, http_requirement ''retry-topic'' True, http_requirement ''parallel-consumer'' True}"
proof -
  have new: "{http_requirement ''circuit-breaker'' True, http_requirement ''retry-topic'' True, http_requirement ''parallel-consumer'' True} =
      (\<lambda>m. http_requirement m True) ` set NEW_MODES"
    by (simp add: NEW_MODES_def)
  have short: "planned local_jobs (http_requirement m True) < rq_count (http_requirement m True)" if "m \<in> set NEW_MODES" for m
  proof -
    have "m \<notin> set BASE_MODES" using that by (auto simp: NEW_MODES_def BASE_MODES_def)
    then show ?thesis using http_unplanned by (simp add: http_requirement_def req_def)
  qed
  have listed: "http_requirement m True \<in> set all_requirements" if "m \<in> set NEW_MODES" for m
    using that unfolding all_requirements_def remedy_requirements_def set_append set_concat set_map NEW_MODES_def by auto
  show ?thesis
    unfolding new using completion.requirement_groups short listed unfolding met_def by (auto simp: not_le [symmetric])
qed

section \<open>What a passed audit means\<close>

definition run_replays :: "audit_item \<Rightarrow> bool" where
  "run_replays x \<longleftrightarrow> ck_passed (check_effects (ai_expected x) (ai_remote x) (ai_db_effects x) (ai_db_orders x)) \<and>
     (map_of (ai_settings x) ''scenario'' = Some (SText ''end-to-end'') \<longrightarrow>
        distinct (ai_source_history x) \<and> set (ai_source_history x) = set (ai_source_input x) \<and>
        set (ai_source_orders x) = set (ai_source_input x))"

definition api_run_ok :: "string \<Rightarrow> audit_item \<Rightarrow> bool" where
  "api_run_ok mode x \<longleftrightarrow> (mode = ''inbox'' \<longrightarrow> ai_slo x) \<and>
     (\<exists>c. ai_budget x = Inr c \<and> bc_passed c \<and> (mode \<in> {''async'', ''inbox''} \<longrightarrow> bc_differentOrdersOverlapped c))"

definition gate_run_ok :: "audit_item \<Rightarrow> bool" where
  "gate_run_ok x \<longleftrightarrow> (ai_gate_event x, ''PENDING'') \<in> set (ai_outbox x) \<and> ai_broker_has x \<and> ai_sourceStock x = Some 988"

definition diagnosed :: "audit_item list \<Rightarrow> string \<Rightarrow> string \<times> hypothesis \<Rightarrow> bool" where
  "diagnosed items mode = (\<lambda>(scenario, h). pair_cases items mode scenario \<noteq> [] \<and>
     ai_verdict (List.last (pair_cases items mode scenario)) h = Accepted)"

lemma replay_errors_iff: "replay_errors x = [] \<longleftrightarrow> run_replays x"
proof -
  have "length h = card (set i) \<and> set h = set i \<longleftrightarrow> distinct h \<and> set h = set i" for h i :: "int list"
    by (metis card_distinct distinct_card)
  then show ?thesis by (auto simp: replay_errors_def run_replays_def check_effects_def Let_def)
qed

lemma api_item_errors_iff: "api_item_errors mode x = [] \<longleftrightarrow> api_run_ok mode x"
  by (cases "ai_budget x") (auto simp: api_item_errors_def api_run_ok_def)

lemma gate_item_errors_iff: "gate_item_errors x = [] \<longleftrightarrow> gate_run_ok x"
  by (auto simp: gate_item_errors_def gate_run_ok_def list_ex_iff)

lemma require_errors_iff: "require_errors items r = [] \<longleftrightarrow> rq_count r \<le> length (matches_of items r)"
  by (auto simp: require_errors_def Let_def)

lemma diagnosis_errors_iff: "diagnosis_errors items mode = [] \<longleftrightarrow> list_all (diagnosed items mode) (hypotheses_of mode)"
  unfolding diagnosis_errors_def concat_map_Nil_iff list_all_iff diagnosed_def Let_def by (auto split: if_split_asm)

lemmas audit_parts = replay_errors_iff api_item_errors_iff gate_item_errors_iff require_errors_iff diagnosis_errors_iff

text \<open>The error lists, read as conditions on the lists of the code.\<close>

lemma audit_passed_parts:
  "audit_errors baseline_exists items = [] \<longleftrightarrow>
     baseline_exists \<and> list_all run_replays items \<and>
     list_all (\<lambda>r. rq_count r \<le> length (matches_of items r)) all_requirements \<and>
     list_all (\<lambda>mode. list_all (api_run_ok mode) (last_three (matches_of items (api_requirement mode)))) BASE_MODES \<and>
     list_all (\<lambda>gate. list_all gate_run_ok (matches_of items (gate_requirement gate))) [''broker_ack'', ''inventory_broker_ack''] \<and>
     list_all (\<lambda>x. ai_acceptedUnfinished x = Some 200 \<and> ai_rejected201st x) (matches_of items admission_requirement) \<and>
     list_all (\<lambda>mode. list_all (diagnosed items mode) (hypotheses_of mode)) BASE_MODES"
proof -
  have m: "mode_errors items mode = [] \<longleftrightarrow>
      list_all (\<lambda>r. rq_count r \<le> length (matches_of items r)) (api_requirement mode # base_requirements mode @ boundary_requirements mode) \<and>
      list_all (api_run_ok mode) (last_three (matches_of items (api_requirement mode)))" for mode
    unfolding mode_errors_def append_is_Nil_conv concat_map_Nil_iff audit_parts list_all_iff by auto
  have g: "gate_errors items gate = [] \<longleftrightarrow> rq_count (gate_requirement gate) \<le> length (matches_of items (gate_requirement gate)) \<and>
      list_all gate_run_ok (matches_of items (gate_requirement gate))" for gate
    unfolding gate_errors_def append_is_Nil_conv concat_map_Nil_iff audit_parts list_all_iff ..
  have a: "admission_audit items = [] \<longleftrightarrow> rq_count admission_requirement \<le> length (matches_of items admission_requirement) \<and>
      list_all (\<lambda>x. ai_acceptedUnfinished x = Some 200 \<and> ai_rejected201st x) (matches_of items admission_requirement)"
    unfolding admission_audit_def append_is_Nil_conv concat_map_if_Nil_iff audit_parts list_all_iff by auto
  have b: "(if baseline_exists then [] else [BaselineMissing]) = [] \<longleftrightarrow> baseline_exists" by simp
  show ?thesis
    unfolding audit_errors_def append_is_Nil_conv concat_map_Nil_iff m g a b audit_parts all_requirements_def
    unfolding list_all_iff set_append set_concat set_map by auto
qed

subsection \<open>By position in the index\<close>

definition passing_runs :: "audit_item list \<Rightarrow> string \<Rightarrow> string \<Rightarrow> ((string \<rightharpoonup> setting) \<Rightarrow> bool) \<Rightarrow> nat set" where
  "passing_runs items mode scenario p =
     {i. i < length items \<and> ai_checker_passed (items ! i) \<and> map_of (ai_settings (items ! i)) ''mode'' = Some (SText mode) \<and>
       map_of (ai_settings (items ! i)) ''scenario'' = Some (SText scenario) \<and> p (map_of (ai_settings (items ! i)))}"

lemma finite_passing_runs [simp]: "finite (passing_runs items mode scenario p)"
  by (simp add: passing_runs_def)

lemma matches_count:
  "length (matches_of items (req name mode scenario n st)) = card (passing_runs items mode scenario (\<lambda>d. list_all (\<lambda>(k, v). d k = Some v) st))"
  by (simp add: matches_of_def asked_def req_def passing_runs_def length_filter_conv_card)

lemma list_all_matches:
  "list_all Q (matches_of items (req name mode scenario n st)) \<longleftrightarrow>
     (\<forall>i \<in> passing_runs items mode scenario (\<lambda>d. list_all (\<lambda>(k, v). d k = Some v) st). Q (items ! i))"
proof -
  have "list_all Q (filter P xs) \<longleftrightarrow> (\<forall>x \<in> set xs. P x \<longrightarrow> Q x)" for P and xs :: "audit_item list" by (auto simp: list_all_iff)
  then show ?thesis unfolding matches_of_def all_set_conv_all_nth by (auto simp: asked_def req_def passing_runs_def)
qed

lemma later_Cons: "{j. Suc i < j \<and> j < length (x # xs) \<and> P ((x # xs) ! j)} = Suc ` {j. i < j \<and> j < length xs \<and> P (xs ! j)}"
  by (auto simp: image_iff less_Suc_eq_0_disj gr0_conv_Suc)

lemma last_three_Cons: "last_three (x # ys) = (if length ys < 3 then x # last_three ys else last_three ys)"
  by (auto simp: last_three_def drop_Cons' numeral_3_eq_3)

lemma list_all_last_three:
  "list_all Q (last_three (filter P xs)) \<longleftrightarrow>
     (\<forall>i < length xs. P (xs ! i) \<and> card {j. i < j \<and> j < length xs \<and> P (xs ! j)} < 3 \<longrightarrow> Q (xs ! i))"
proof (induction xs)
  case (Cons x xs)
  let ?later = "\<lambda>xs i. {j. i < j \<and> j < length xs \<and> P (xs ! j)}"
  have "?later (x # xs) 0 = Suc ` {j. j < length xs \<and> P (xs ! j)}"
    by (auto simp: image_iff gr0_conv_Suc)
  then have zero: "card (?later (x # xs) 0) = length (filter P xs)" by (simp add: card_image length_filter_conv_card)
  have suc: "card (?later (x # xs) (Suc i)) = card (?later xs i)" for i unfolding later_Cons by (simp add: card_image)
  have "list_all Q (last_three (filter P (x # xs))) \<longleftrightarrow>
      (P x \<and> length (filter P xs) < 3 \<longrightarrow> Q x) \<and> list_all Q (last_three (filter P xs))"
    by (simp add: last_three_Cons)
  then show ?case unfolding Cons.IH
    using suc zero by (simp only: All_less_Suc2 length_Cons nth_Cons_0 nth_Cons_Suc)
qed (simp add: last_three_def)

lemma last_filter_iff:
  "filter P xs \<noteq> [] \<and> Q (List.last (filter P xs)) \<longleftrightarrow>
     (\<exists>i < length xs. P (xs ! i) \<and> Q (xs ! i) \<and> (\<forall>j. i < j \<and> j < length xs \<longrightarrow> \<not> P (xs ! j)))"
proof (induction xs rule: rev_induct)
  case (snoc x xs)
  show ?case
  proof (cases "P x")
    case True
    have final: "i = length xs" if "i < Suc (length xs)" "\<forall>j. i < j \<and> j < Suc (length xs) \<longrightarrow> \<not> P ((xs @ [x]) ! j)" for i
      using that(2) [rule_format, of "length xs"] that(1) True by (auto simp: less_Suc_eq)
    have "(\<exists>i < Suc (length xs). P ((xs @ [x]) ! i) \<and> Q ((xs @ [x]) ! i) \<and> (\<forall>j. i < j \<and> j < Suc (length xs) \<longrightarrow> \<not> P ((xs @ [x]) ! j))) \<longleftrightarrow> Q x"
    proof
      assume "\<exists>i < Suc (length xs). P ((xs @ [x]) ! i) \<and> Q ((xs @ [x]) ! i) \<and> (\<forall>j. i < j \<and> j < Suc (length xs) \<longrightarrow> \<not> P ((xs @ [x]) ! j))"
      then obtain i where "i < Suc (length xs)" "Q ((xs @ [x]) ! i)" "\<forall>j. i < j \<and> j < Suc (length xs) \<longrightarrow> \<not> P ((xs @ [x]) ! j)" by blast
      then show "Q x" using final [of i] by simp
    qed (use True in \<open>auto intro: exI [of _ "length xs"]\<close>)
    then show ?thesis using True by simp
  next
    case False
    have "(\<exists>i < length (xs @ [x]). P ((xs @ [x]) ! i) \<and> Q ((xs @ [x]) ! i) \<and> (\<forall>j. i < j \<and> j < length (xs @ [x]) \<longrightarrow> \<not> P ((xs @ [x]) ! j))) \<longleftrightarrow>
        (\<exists>i < length xs. P (xs ! i) \<and> Q (xs ! i) \<and> (\<forall>j. i < j \<and> j < length xs \<longrightarrow> \<not> P (xs ! j)))"
      using False by (auto simp: nth_append less_Suc_eq)
    then show ?thesis using snoc False by simp
  qed
qed simp

definition SIX_MODES :: "string set" where
  "SIX_MODES = {''sequential'', ''async'', ''inbox'', ''circuit-breaker'', ''retry-topic'', ''parallel-consumer''}"

definition unsettled :: "(string \<rightharpoonup> setting) \<Rightarrow> bool" where
  "unsettled d \<longleftrightarrow> True"

definition observed_pair :: "(string \<rightharpoonup> setting) \<Rightarrow> bool" where
  "observed_pair d \<longleftrightarrow> d ''observe'' = Some (SFlag True) \<and> d ''workload'' = Some (SText ''pair'')"

definition on_market :: "nat \<Rightarrow> (string \<rightharpoonup> setting) \<Rightarrow> bool" where
  "on_market p d \<longleftrightarrow> d ''workload'' = Some (SText ''market'') \<and> d ''partitions'' = Some (SNumber p)"

definition plain_http :: "nat \<Rightarrow> bool \<Rightarrow> (string \<rightharpoonup> setting) \<Rightarrow> bool" where
  "plain_http poll fault d \<longleftrightarrow> d ''boundary'' = Some (SText ''none'') \<and> d ''concurrentDuplicate'' = Some (SFlag False) \<and>
     d ''sourcePollMs'' = Some (SNumber poll) \<and> d ''sellerFault'' = Some (SFlag fault)"

definition enough :: "audit_item list \<Rightarrow> nat \<Rightarrow> string \<Rightarrow> string \<Rightarrow> ((string \<rightharpoonup> setting) \<Rightarrow> bool) \<Rightarrow> bool" where
  "enough items n mode scenario p \<longleftrightarrow> n \<le> card (passing_runs items mode scenario p)"

lemma enough_req:
  "rq_count (req name mode scenario n st) \<le> length (matches_of items (req name mode scenario n st)) \<longleftrightarrow>
     enough items n mode scenario (\<lambda>d. list_all (\<lambda>(k, v). d k = Some v) st)"
  unfolding matches_count enough_def by (simp add: req_def)

lemma settings_named:
  "(\<lambda>d. list_all (\<lambda>(k, v). d k = Some v) []) = unsettled"
  "(\<lambda>d. list_all (\<lambda>(k, v). d k = Some v) [(''observe'', SFlag True), (''workload'', SText ''pair'')]) = observed_pair"
  "(\<lambda>d. list_all (\<lambda>(k, v). d k = Some v) [(''workload'', SText ''market''), (''partitions'', SNumber p)]) = on_market p"
  "(\<lambda>d. list_all (\<lambda>(k, v). d k = Some v) (http_settings poll fault)) = plain_http poll fault"
  "(\<lambda>d. list_all (\<lambda>(k, v). d k = Some v) [(key, val)]) = (\<lambda>d. d key = Some val)"
  by (simp_all add: fun_eq_iff unsettled_def observed_pair_def on_market_def plain_http_def http_settings_def)

lemma requirements_met:
  "list_all (\<lambda>r. rq_count r \<le> length (matches_of items r)) all_requirements \<longleftrightarrow>
     (\<forall>mode \<in> SIX_MODES. enough items 3 mode ''api'' observed_pair \<and> enough items 3 mode ''api'' (on_market 1) \<and>
        enough items 3 mode ''api'' (on_market 4) \<and> enough items 1 mode ''end-to-end'' (plain_http 100 True) \<and>
        (\<forall>sc \<in> {''db'', ''response-loss'', ''redelivery'', ''retry'', ''hotkey'', ''broker-kill'', ''external-kill'', ''business-before-kill''}.
           enough items 1 mode sc unsettled)) \<and>
     (\<forall>mode \<in> {''sequential'', ''async'', ''inbox''}. enough items 3 mode ''clean'' (\<lambda>d. d ''observe'' = Some (SFlag True)) \<and>
        enough items 3 mode ''clean'' (\<lambda>d. d ''observe'' = Some (SFlag False)) \<and> enough items 1 mode ''end-to-end'' (plain_http 100 False)) \<and>
     (\<forall>mode \<in> SIX_MODES - {''inbox''}. enough items 1 mode ''ack-kill'' unsettled) \<and>
     (\<forall>mode \<in> {''sequential'', ''async''}. enough items 1 mode ''ack-release'' unsettled \<and> enough items 1 mode ''rebalance'' unsettled) \<and>
     (\<forall>sc \<in> {''inbox-kill'', ''worker-kill'', ''inbox-before-kill'', ''backlog'', ''global-admission''}. enough items 1 ''inbox'' sc unsettled) \<and>
     enough items 1 ''retry-topic'' ''park-kill'' unsettled \<and>
     (\<forall>mode \<in> {''sequential'', ''retry-topic'', ''parallel-consumer'', ''inbox''}. enough items 3 mode ''hang'' (on_market 4)) \<and>
     enough items 3 ''inbox'' ''end-to-end'' (plain_http 1000 False) \<and> enough items 3 ''inbox'' ''end-to-end'' (plain_http 100 False) \<and>
     enough items 1 ''inbox'' ''end-to-end'' (\<lambda>d. d ''concurrentDuplicate'' = Some (SFlag True)) \<and>
     (\<forall>gate \<in> {''broker_ack'', ''inventory_broker_ack''}. enough items 2 ''inbox'' ''end-to-end'' (\<lambda>d. d ''boundary'' = Some (SText gate)))"
proof -
  have others: "SIX_MODES - {''inbox''} = {''sequential'', ''async'', ''circuit-breaker'', ''retry-topic'', ''parallel-consumer''}"
    by (simp add: SIX_MODES_def insert_Diff_if)
  have boundary: "boundary_requirements ''sequential'' = map (plain_requirement ''sequential'') [''ack-kill'', ''ack-release'', ''external-kill'', ''business-before-kill'', ''rebalance'']"
    "boundary_requirements ''async'' = map (plain_requirement ''async'') [''ack-kill'', ''ack-release'', ''external-kill'', ''business-before-kill'', ''rebalance'']"
    "boundary_requirements ''inbox'' = []"
    by (simp_all add: boundary_requirements_def)
  have none: "list_all P [] \<longleftrightarrow> True" for P :: "requirement \<Rightarrow> bool" by simp
  show ?thesis
    unfolding others
    unfolding SIX_MODES_def all_requirements_def BASE_MODES_def list.map concat.simps list_all_append boundary
    unfolding base_requirements_def inbox_requirements_def remedy_requirements_def list.map concat.simps list_all_append list.pred_inject append_Nil2
    unfolding api_requirement_def http_requirement_def plain_requirement_def gate_requirement_def concurrent_requirement_def
      admission_requirement_def enough_req settings_named ball_simps
    unfolding none simp_thms by (rule iffI; elim conjE; intro conjI; assumption)
qed

definition pair_run :: "audit_item list \<Rightarrow> string \<Rightarrow> string \<Rightarrow> nat \<Rightarrow> bool" where
  "pair_run items mode scenario i \<longleftrightarrow> i < length items \<and> map_of (ai_settings (items ! i)) ''mode'' = Some (SText mode) \<and>
     map_of (ai_settings (items ! i)) ''scenario'' = Some (SText scenario) \<and>
     map_of (ai_settings (items ! i)) ''workload'' \<in> {None, Some (SText ''pair'')}"

lemma last_runs_ok:
  "list_all (api_run_ok mode) (last_three (matches_of items (api_requirement mode))) \<longleftrightarrow>
     (\<forall>i \<in> passing_runs items mode ''api'' observed_pair.
        card {j \<in> passing_runs items mode ''api'' observed_pair. i < j} < 3 \<longrightarrow> api_run_ok mode (items ! i))"
proof -
  let ?P = "\<lambda>x. ai_checker_passed x \<and> asked (ai_settings x) (api_requirement mode)"
  have run: "i \<in> passing_runs items mode ''api'' observed_pair \<longleftrightarrow> i < length items \<and> ?P (items ! i)" for i
    by (auto simp: passing_runs_def asked_def api_requirement_def req_def observed_pair_def)
  have later: "{j \<in> passing_runs items mode ''api'' observed_pair. i < j} = {j. i < j \<and> j < length items \<and> ?P (items ! j)}" for i
    unfolding run by blast
  show ?thesis unfolding matches_of_def list_all_last_three later Ball_def unfolding run by blast
qed

lemma diagnosed_iff:
  "diagnosed items mode (scenario, h) \<longleftrightarrow>
     (\<exists>i. pair_run items mode scenario i \<and> ai_verdict (items ! i) h = Accepted \<and> (\<forall>j. i < j \<longrightarrow> \<not> pair_run items mode scenario j))"
proof -
  let ?P = "\<lambda>x. map_of (ai_settings x) ''mode'' = Some (SText mode) \<and> map_of (ai_settings x) ''scenario'' = Some (SText scenario) \<and>
       get_or (SText ''pair'') (map_of (ai_settings x) ''workload'') = SText ''pair''"
  have run: "pair_run items mode scenario i \<longleftrightarrow> i < length items \<and> ?P (items ! i)" for i
    by (cases "map_of (ai_settings (items ! i)) ''workload''") (auto simp: pair_run_def)
  show ?thesis
    unfolding diagnosed_def prod.case pair_cases_def last_filter_iff [where Q = "\<lambda>x. ai_verdict x h = Accepted"] run by blast
qed

text \<open>C31: What a passed audit shows, counted by the positions of the runs in the index. It passes exactly when the
  baseline exists; every indexed run passes the replayed checker, and the source history of an end-to-end run names each
  HTTP order once; each of the six modes has three observed fault runs of the pair workload, three of the
  market workload with one and with four partitions, an end-to-end run with a seller fault and a passing run of the eight
  shared scenarios; the base modes have three clean runs with and without observation and a clean end-to-end run;
  the boundary, inbox, hang, polling and duplicate runs are there; the last three fault runs of a base mode (those that fewer than
  three others follow) keep the budgets, show parallel orders unless sequential, and meet the latency goal for the
  inbox; each boundary run shows its event published but pending; the admission run stopped at 200; and the last
  pair run of each injected cause accepted that cause.\<close>

theorem audit_passed_iff:
  "audit_errors baseline_exists items = [] \<longleftrightarrow> baseline_exists \<and>
     (\<forall>x \<in> set items. ck_passed (check_effects (ai_expected x) (ai_remote x) (ai_db_effects x) (ai_db_orders x)) \<and>
        (map_of (ai_settings x) ''scenario'' = Some (SText ''end-to-end'') \<longrightarrow> distinct (ai_source_history x) \<and>
           set (ai_source_history x) = set (ai_source_input x) \<and> set (ai_source_orders x) = set (ai_source_input x))) \<and>
     (\<forall>mode \<in> SIX_MODES. enough items 3 mode ''api'' observed_pair \<and> enough items 3 mode ''api'' (on_market 1) \<and>
        enough items 3 mode ''api'' (on_market 4) \<and> enough items 1 mode ''end-to-end'' (plain_http 100 True) \<and>
        (\<forall>sc \<in> {''db'', ''response-loss'', ''redelivery'', ''retry'', ''hotkey'', ''broker-kill'', ''external-kill'', ''business-before-kill''}.
           enough items 1 mode sc unsettled)) \<and>
     (\<forall>mode \<in> {''sequential'', ''async'', ''inbox''}. enough items 3 mode ''clean'' (\<lambda>d. d ''observe'' = Some (SFlag True)) \<and>
        enough items 3 mode ''clean'' (\<lambda>d. d ''observe'' = Some (SFlag False)) \<and> enough items 1 mode ''end-to-end'' (plain_http 100 False)) \<and>
     (\<forall>mode \<in> SIX_MODES - {''inbox''}. enough items 1 mode ''ack-kill'' unsettled) \<and>
     (\<forall>mode \<in> {''sequential'', ''async''}. enough items 1 mode ''ack-release'' unsettled \<and> enough items 1 mode ''rebalance'' unsettled) \<and>
     (\<forall>sc \<in> {''inbox-kill'', ''worker-kill'', ''inbox-before-kill'', ''backlog'', ''global-admission''}. enough items 1 ''inbox'' sc unsettled) \<and>
     enough items 1 ''retry-topic'' ''park-kill'' unsettled \<and>
     (\<forall>mode \<in> {''sequential'', ''retry-topic'', ''parallel-consumer'', ''inbox''}. enough items 3 mode ''hang'' (on_market 4)) \<and>
     enough items 3 ''inbox'' ''end-to-end'' (plain_http 1000 False) \<and> enough items 3 ''inbox'' ''end-to-end'' (plain_http 100 False) \<and>
     enough items 1 ''inbox'' ''end-to-end'' (\<lambda>d. d ''concurrentDuplicate'' = Some (SFlag True)) \<and>
     (\<forall>gate \<in> {''broker_ack'', ''inventory_broker_ack''}. enough items 2 ''inbox'' ''end-to-end'' (\<lambda>d. d ''boundary'' = Some (SText gate))) \<and>
     (\<forall>mode \<in> {''sequential'', ''async'', ''inbox''}. \<forall>i \<in> passing_runs items mode ''api'' observed_pair.
        card {j \<in> passing_runs items mode ''api'' observed_pair. i < j} < 3 \<longrightarrow>
          (mode = ''inbox'' \<longrightarrow> ai_slo (items ! i)) \<and>
          (\<exists>c. ai_budget (items ! i) = Inr c \<and> bc_passed c \<and> (mode \<noteq> ''sequential'' \<longrightarrow> bc_differentOrdersOverlapped c))) \<and>
     (\<forall>gate \<in> {''broker_ack'', ''inventory_broker_ack''}.
        \<forall>i \<in> passing_runs items ''inbox'' ''end-to-end'' (\<lambda>d. d ''boundary'' = Some (SText gate)).
          (ai_gate_event (items ! i), ''PENDING'') \<in> set (ai_outbox (items ! i)) \<and> ai_broker_has (items ! i) \<and>
          ai_sourceStock (items ! i) = Some 988) \<and>
     (\<forall>i \<in> passing_runs items ''inbox'' ''global-admission'' unsettled.
        ai_acceptedUnfinished (items ! i) = Some 200 \<and> ai_rejected201st (items ! i)) \<and>
     (\<forall>(mode, scenario, h) \<in> {(''sequential'', ''api'', SellerApiDelay), (''async'', ''api'', SellerApiDelay), (''inbox'', ''api'', SellerApiDelay),
          (''sequential'', ''db'', SharedDbPool), (''async'', ''db'', SharedDbPool), (''inbox'', ''db'', SharedDbPool),
          (''sequential'', ''ack-release'', PostBusinessAckDelay), (''async'', ''ack-release'', PostBusinessAckDelay)}.
        \<exists>i. pair_run items mode scenario i \<and> ai_verdict (items ! i) h = Accepted \<and> (\<forall>j. i < j \<longrightarrow> \<not> pair_run items mode scenario j))"
proof -
  have replays: "list_all run_replays items \<longleftrightarrow>
      (\<forall>x \<in> set items. ck_passed (check_effects (ai_expected x) (ai_remote x) (ai_db_effects x) (ai_db_orders x)) \<and>
        (map_of (ai_settings x) ''scenario'' = Some (SText ''end-to-end'') \<longrightarrow> distinct (ai_source_history x) \<and>
           set (ai_source_history x) = set (ai_source_input x) \<and> set (ai_source_orders x) = set (ai_source_input x)))"
    unfolding list_all_iff run_replays_def ..
  have last_runs: "list_all (\<lambda>mode. list_all (api_run_ok mode) (last_three (matches_of items (api_requirement mode)))) BASE_MODES \<longleftrightarrow>
      (\<forall>mode \<in> {''sequential'', ''async'', ''inbox''}. \<forall>i \<in> passing_runs items mode ''api'' observed_pair.
        card {j \<in> passing_runs items mode ''api'' observed_pair. i < j} < 3 \<longrightarrow>
          (mode = ''inbox'' \<longrightarrow> ai_slo (items ! i)) \<and>
          (\<exists>c. ai_budget (items ! i) = Inr c \<and> bc_passed c \<and> (mode \<noteq> ''sequential'' \<longrightarrow> bc_differentOrdersOverlapped c)))"
    unfolding last_runs_ok api_run_ok_def by (simp add: BASE_MODES_def)
  have gates: "list_all (\<lambda>gate. list_all gate_run_ok (matches_of items (gate_requirement gate))) [''broker_ack'', ''inventory_broker_ack''] \<longleftrightarrow>
      (\<forall>gate \<in> {''broker_ack'', ''inventory_broker_ack''}.
        \<forall>i \<in> passing_runs items ''inbox'' ''end-to-end'' (\<lambda>d. d ''boundary'' = Some (SText gate)).
          (ai_gate_event (items ! i), ''PENDING'') \<in> set (ai_outbox (items ! i)) \<and> ai_broker_has (items ! i) \<and>
          ai_sourceStock (items ! i) = Some 988)"
    unfolding gate_requirement_def list_all_matches settings_named gate_run_ok_def by simp
  have admission: "list_all (\<lambda>x. ai_acceptedUnfinished x = Some 200 \<and> ai_rejected201st x) (matches_of items admission_requirement) \<longleftrightarrow>
      (\<forall>i \<in> passing_runs items ''inbox'' ''global-admission'' unsettled. ai_acceptedUnfinished (items ! i) = Some 200 \<and> ai_rejected201st (items ! i))"
    unfolding admission_requirement_def list_all_matches settings_named ..
  have causes: "list_all (\<lambda>mode. list_all (diagnosed items mode) (hypotheses_of mode)) BASE_MODES \<longleftrightarrow>
      (\<forall>(mode, scenario, h) \<in> {(''sequential'', ''api'', SellerApiDelay), (''async'', ''api'', SellerApiDelay), (''inbox'', ''api'', SellerApiDelay),
          (''sequential'', ''db'', SharedDbPool), (''async'', ''db'', SharedDbPool), (''inbox'', ''db'', SharedDbPool),
          (''sequential'', ''ack-release'', PostBusinessAckDelay), (''async'', ''ack-release'', PostBusinessAckDelay)}.
        \<exists>i. pair_run items mode scenario i \<and> ai_verdict (items ! i) h = Accepted \<and> (\<forall>j. i < j \<longrightarrow> \<not> pair_run items mode scenario j))"
    unfolding diagnosed_iff [symmetric] by (auto simp: hypotheses_of_def BASE_MODES_def)
  show ?thesis
    unfolding audit_passed_parts replays last_runs gates admission causes requirements_met conj_assoc ..
qed

definition good_item :: "job \<Rightarrow> audit_item" where
  "good_item j = \<lparr>ai_run = ''run'', ai_settings = job_settings j, ai_checker_passed = True, ai_slo = True, ai_sourceStock = Some 988,
     ai_acceptedUnfinished = Some 200, ai_rejected201st = True, ai_verdict = (\<lambda>h. Accepted), ai_expected = [],
     ai_remote = \<lparr>m_effects = [], m_orders = [], m_attempts = []\<rparr>, ai_db_effects = [], ai_db_orders = [],
     ai_source_history = [7], ai_source_orders = [7], ai_source_input = [7],
     ai_budget = Inr \<lparr>bc_passed = True, bc_errors = [], bc_peakExternalCalls = [], bc_differentOrdersOverlapped = True,
       bc_sameOrderOverlaps = 0, bc_retryAdmissions = [], bc_retryWindowMs = 1000, bc_retryBudget = 2, bc_budgetTraceAvailable = True\<rparr>,
     ai_gate_event = ''e'', ai_outbox = [(''e'', ''PENDING'')], ai_broker_has = True\<rparr>"

lemma good_matches: "length (matches_of (map good_item jobs) r) = planned jobs r"
proof -
  have "(\<lambda>x. ai_checker_passed x \<and> asked (ai_settings x) r) \<circ> good_item = (\<lambda>j. asked (job_settings j) r)" by (simp add: fun_eq_iff good_item_def)
  then show ?thesis by (simp add: matches_of_def planned_def filter_map)
qed

lemma good_set: "x \<in> set (last_three (matches_of (map good_item jobs) r)) \<Longrightarrow> \<exists>j. x = good_item j"
  "x \<in> set (matches_of (map good_item jobs) r) \<Longrightarrow> \<exists>j. x = good_item j"
  by (auto simp: matches_of_def last_three_def dest!: in_set_dropD)

lemma good_diagnosed:
  assumes "CaseJob (case_of mode scenario k) \<in> set jobs"
  shows "diagnosed (map good_item jobs) mode (scenario, h)"
proof -
  let ?xs = "pair_cases (map good_item jobs) mode scenario"
  have "good_item (CaseJob (case_of mode scenario k)) \<in> set ?xs"
    using assms by (simp add: pair_cases_def) (simp add: good_item_def case_dict_def case_of_def)
  then have "?xs \<noteq> []" by auto
  moreover from this have "List.last ?xs \<in> set (map good_item jobs)" using last_in_set [of ?xs] by (auto simp: pair_cases_def)
  then have "ai_verdict (List.last ?xs) h = Accepted" by (auto simp: good_item_def)
  ultimately show ?thesis by (simp add: diagnosed_def)
qed

lemma good_reproduction_passes: "audit_errors True (map good_item reproduce_jobs) = []"
  unfolding audit_passed_parts
proof (intro conjI)
  show "list_all run_replays (map good_item reproduce_jobs)"
    unfolding list_all_iff set_map ball_simps by (intro ballI) (simp add: run_replays_def good_item_def, code_simp)
  show "list_all (\<lambda>r. rq_count r \<le> length (matches_of (map good_item reproduce_jobs) r)) all_requirements"
    unfolding good_matches list_all_iff using reproduction_met by (simp add: met_def)
  show "list_all (\<lambda>mode. list_all (api_run_ok mode) (last_three (matches_of (map good_item reproduce_jobs) (api_requirement mode)))) BASE_MODES"
    by (auto simp: list_all_iff api_run_ok_def good_item_def dest!: good_set)
  show "list_all (\<lambda>gate. list_all gate_run_ok (matches_of (map good_item reproduce_jobs) (gate_requirement gate))) [''broker_ack'', ''inventory_broker_ack'']"
    by (auto simp: list_all_iff gate_run_ok_def good_item_def dest!: good_set)
  show "list_all (\<lambda>x. ai_acceptedUnfinished x = Some 200 \<and> ai_rejected201st x) (matches_of (map good_item reproduce_jobs) admission_requirement)"
    by (auto simp: list_all_iff good_item_def dest!: good_set)
  note suite = met_plain_suite [unfolded set_append set_product ball_Un split_paired_Ball_Sigma prod.case]
  have plain: "case_of mode sc 1 \<in> set suite_cases \<Longrightarrow> diagnosed (map good_item reproduce_jobs) mode (sc, h)" for mode sc h
    by (rule good_diagnosed, rule reproduction.suite_job)
  have api: "mode \<in> set BASE_MODES \<Longrightarrow> case_of mode ''api'' 1 \<in> set suite_cases" for mode
    unfolding suite_cases_def set_append BASE_MODES_def by (intro UnI1) auto
  show "list_all (\<lambda>mode. list_all (diagnosed (map good_item reproduce_jobs) mode) (hypotheses_of mode)) BASE_MODES"
    using suite plain api by (simp add: BASE_MODES_def hypotheses_of_def)
qed simp

text \<open>The runs of the reproduction script pass when each of them went well, so the audit can be passed; the market runs with a
  hanging seller are then among them.\<close>

theorem audit_passed_iff_witness:
  "audit_errors True (map good_item reproduce_jobs) = [] \<and> enough (map good_item reproduce_jobs) 3 ''inbox'' ''hang'' (on_market 4)"
proof -
  note parts = iffD1 [OF audit_passed_iff good_reproduction_passes]
  have "\<forall>mode \<in> {''sequential'', ''retry-topic'', ''parallel-consumer'', ''inbox''}. enough (map good_item reproduce_jobs) 3 mode ''hang'' (on_market 4)"
    using parts by (elim conjE) assumption
  then show ?thesis using good_reproduction_passes by simp
qed

end
