(* ===== verification/Hosts.thy ===== *)
theory Hosts
  imports Collector
begin

text \<open>
  Host counters around a workload, \<open>experiments/topology.py\<close>: one \<open>ssh\<close> round trip per host gives the first
  line of \<open>/proc/stat\<close> and the whole-disk lines of \<open>/proc/diskstats\<close>. The lines, or the exception of \<open>ssh\<close>,
  are arguments.
\<close>

section \<open>A sample\<close>

record host_counters =
  hs_busy :: int
  hs_total :: int
  hs_steal :: int
  hs_disk :: "(int \<times> int \<times> int) option"   \<comment> \<open>writes, milliseconds writing, sectors of the busiest disk\<close>

definition cpu_fields :: "string list \<Rightarrow> int list result" where
  "cpu_fields out = bindR (py_get out 0) (\<lambda>l. mapR parse_int (drop 1 (words_of l)))"

text \<open>\<open>max(disks, key=...)\<close>: the first disk with the most completed writes.\<close>

definition disk_writes :: "string list \<Rightarrow> (int \<times> string list) result" where
  "disk_writes d = bindR (py_get d 7) (\<lambda>w. bindR (parse_int w) (\<lambda>n. Inr (n, d)))"

fun busiest :: "(int \<times> 'a) list \<Rightarrow> (int \<times> 'a) option" where
  "busiest [] = None"
| "busiest (x # xs) = Some (foldl (\<lambda>m y. if fst m < fst y then y else m) x xs)"

definition disk_figures :: "int \<times> string list \<Rightarrow> (int \<times> int \<times> int) result" where
  "disk_figures x =
     bindR (py_get (snd x) 10) (\<lambda>ms. bindR (parse_int ms) (\<lambda>t.
     bindR (py_get (snd x) 9) (\<lambda>se. bindR (parse_int se) (\<lambda>n. Inr (fst x, t, n)))))"

definition host_sample :: "string list \<Rightarrow> host_counters result" where
  "host_sample out =
     bindR (cpu_fields out) (\<lambda>cpu.
     bindR (mapR (\<lambda>l. disk_writes (words_of l)) (drop 1 out)) (\<lambda>disks.
     bindR (py_get cpu 3) (\<lambda>idle. bindR (py_get cpu 4) (\<lambda>iowait.
     bindR (case busiest disks of None \<Rightarrow> Inr None | Some d \<Rightarrow> bindR (disk_figures d) (\<lambda>f. Inr (Some f))) (\<lambda>disk. Inr
       \<lparr>hs_busy = sum_list cpu - idle - iowait, hs_total = sum_list cpu,
        hs_steal = (if 7 < length cpu then cpu ! 7 else 0), hs_disk = disk\<rparr>)))))"

definition sample_hosts :: "(string \<times> string list result) list \<Rightarrow> (string \<times> host_counters result) list" where
  "sample_hosts answers = map (\<lambda>(name, out). (name, bindR out host_sample)) answers"

section \<open>Usage between two samples\<close>

record host_report =
  ho_cpuBusy :: rat
  ho_cpuSteal :: rat
  ho_disk :: "(rat option \<times> rat option \<times> rat option) option"
    \<comment> \<open>writes per second, mean write latency, MB per second\<close>

definition share :: "int \<Rightarrow> int \<Rightarrow> rat" where
  "share x whole = py_round 4 (fl (of_int x / of_int whole))"

definition disk_usage :: "int \<times> int \<times> int \<Rightarrow> int \<times> int \<times> int \<Rightarrow> rat \<Rightarrow> rat option \<times> rat option \<times> rat option" where
  "disk_usage b a seconds =
     (let writes = fst a - fst b
      in (if seconds \<noteq> 0 then Some (py_round 1 (fl (of_int writes / seconds))) else None,
          if writes \<noteq> 0 then Some (py_round 3 (fl (of_int (fst (snd a) - fst (snd b)) / of_int writes))) else None,
          if seconds \<noteq> 0
          then Some (py_round 2 (fl (fl (of_int ((snd (snd a) - snd (snd b)) * 512) / 1048576) / seconds))) else None))"

definition usage_between :: "host_counters \<Rightarrow> host_counters \<Rightarrow> rat \<Rightarrow> host_report" where
  "usage_between b a seconds =
     (let whole = hs_total a - hs_total b
      in \<lparr>ho_cpuBusy = share (hs_busy a - hs_busy b) whole, ho_cpuSteal = share (hs_steal a - hs_steal b) whole,
          ho_disk = (case (hs_disk b, hs_disk a) of (Some d0, Some d1) \<Rightarrow> Some (disk_usage d0 d1 seconds) | _ \<Rightarrow> None)\<rparr>)"

text \<open>A failed sample stays \<open>None\<close>.\<close>

definition host_usage_of :: "host_counters result option \<Rightarrow> host_counters result \<Rightarrow> rat \<Rightarrow> host_report option" where
  "host_usage_of before after seconds =
     (case (before, after) of
        (Some (Inr b), Inr a) \<Rightarrow> if hs_total b < hs_total a then Some (usage_between b a seconds) else None
      | _ \<Rightarrow> None)"

definition host_usage ::
    "(string \<times> host_counters result) list \<Rightarrow> (string \<times> host_counters result) list \<Rightarrow> rat \<Rightarrow> (string \<times> host_report option) list" where
  "host_usage before after seconds = map (\<lambda>(name, a). (name, host_usage_of (map_of before name) a seconds)) after"

section \<open>Shares stay between nothing and everything\<close>

lemma half_even_le: "y \<le> of_int n \<Longrightarrow> half_even y \<le> n"
  using half_even_err [of y] by linarith

lemma half_even_nonneg: "0 \<le> y \<Longrightarrow> 0 \<le> half_even y"
  using half_even_err [of y] by linarith

lemma fl_le_one:
  assumes "x \<le> 1"
  shows "fl x \<le> 1"
proof (cases "0 < x")
  case True
  have "expo x < int 1" by (rule expo_less) (use True assms in simp_all)
  then have "expo x \<le> 0" by simp
  define u :: rat where "u = 2 powi (expo x - 52)"
  obtain k :: nat where k: "52 - expo x = int k" using \<open>expo x \<le> 0\<close> by (metis diff_ge_0_iff_ge nonneg_int_cases order_trans zero_le_numeral)
  have u: "u * 2 ^ k = 1"
  proof -
    have "u = 1 / 2 ^ k" unfolding u_def using k
      by (metis minus_diff_eq power_int_minus_divide power_int_of_nat)
    then show ?thesis by simp
  qed
  have pos: "0 < u" by (simp add: u_def)
  have "x / u \<le> of_int (2 ^ k)" using assms u pos by (simp add: divide_le_eq mult.commute)
  then have "half_even (x / u) \<le> 2 ^ k" by (rule half_even_le)
  then have "of_int (half_even (x / u)) \<le> (2 ^ k :: rat)" by (simp flip: of_int_le_iff)
  then have "of_int (half_even (x / u)) * u \<le> 1" using mult_right_mono [of _ "2 ^ k" u] pos u by (metis less_imp_le mult.commute)
  then show ?thesis using True by (simp only: fl_def fl_pos_def Let_def u_def [symmetric] if_not_P not_less_iff_gr_or_eq) simp
next
  case False
  then show ?thesis using fl_nonneg [of "- x"] by (auto simp: fl_def)
qed

lemma share_bounds:
  assumes "0 \<le> x" "x \<le> whole" "0 < whole"
  shows "0 \<le> share x whole \<and> share x whole \<le> 1"
proof -
  define y where "y = fl (of_int x / of_int whole)"
  have y: "0 \<le> y" "y \<le> 1" using assms by (simp_all add: y_def fl_nonneg fl_le_one)
  have "half_even (y * 10 ^ 4) \<le> 10000" by (rule half_even_le) (use y in simp)
  moreover have "0 \<le> half_even (y * 10 ^ 4)" using y by (intro half_even_nonneg) simp
  ultimately have "0 \<le> of_int (half_even (y * 10 ^ 4)) / (10 ^ 4 :: rat)" "of_int (half_even (y * 10 ^ 4)) / (10 ^ 4 :: rat) \<le> 1"
    by (simp_all add: divide_le_eq)
  then show ?thesis
    unfolding share_def y_def [symmetric] py_round_def using fl_nonneg fl_le_one by blast
qed

lemma sum_list_le:
  "list_all2 (\<le>) xs ys \<Longrightarrow> sum_list xs \<le> sum_list ys" for xs ys :: "int list"
  by (induction rule: list_all2_induct) auto

lemma sum_list_field_le:
  "list_all2 (\<le>) xs ys \<Longrightarrow> i < length xs \<Longrightarrow> ys ! i - xs ! i \<le> sum_list ys - sum_list xs" for xs ys :: "int list"
proof (induction arbitrary: i rule: list_all2_induct)
  case (Cons x xs y ys)
  show ?case
  proof (cases i)
    case 0
    then show ?thesis using sum_list_le [OF Cons.hyps(2)] by simp
  next
    case (Suc j)
    then show ?thesis using Cons.IH [of j] Cons.prems Cons.hyps(1) by simp
  qed
qed simp

lemma unmoved_fields: "list_all2 (\<le>) xs ys \<Longrightarrow> sum_list ys \<le> sum_list xs \<Longrightarrow> xs = ys" for xs ys :: "int list"
proof (induction rule: list_all2_induct)
  case (Cons x xs y ys)
  then show ?case using sum_list_le [OF Cons.hyps(2)] by simp
qed simp

lemma five_fields: "4 < length xs \<Longrightarrow> \<exists>a b c d e r. xs = a # b # c # d # e # r"
  by (simp add: numeral_eq_Suc less_eq_Suc_le Suc_le_length_iff) blast

lemma busy_bounds:
  fixes xs ys :: "int list"
  assumes "list_all2 (\<le>) xs ys" "4 < length xs"
  shows "sum_list xs - xs ! 3 - xs ! 4 \<le> sum_list ys - ys ! 3 - ys ! 4"
    and "(sum_list ys - ys ! 3 - ys ! 4) - (sum_list xs - xs ! 3 - xs ! 4) \<le> sum_list ys - sum_list xs"
proof -
  obtain a b c d e r where x: "xs = a # b # c # d # e # r" using five_fields [OF assms(2)] by blast
  obtain a' b' c' d' e' r' where y: "ys = a' # b' # c' # d' # e' # r'" using five_fields [of ys] assms(2) list_all2_lengthD [OF assms(1)] by auto
  have "a \<le> a'" "b \<le> b'" "c \<le> c'" "d \<le> d'" "e \<le> e'" "sum_list r \<le> sum_list r'"
    using assms(1) sum_list_le [of r r'] by (simp_all add: x y)
  then show "sum_list xs - xs ! 3 - xs ! 4 \<le> sum_list ys - ys ! 3 - ys ! 4"
    "(sum_list ys - ys ! 3 - ys ! 4) - (sum_list xs - xs ! 3 - xs ! 4) \<le> sum_list ys - sum_list xs"
    by (simp_all add: x y numeral_eq_Suc)
qed

lemma host_sample_fields:
  assumes "host_sample out = Inr s"
  obtains cpu where "cpu_fields out = Inr cpu" "4 < length cpu" "hs_busy s = sum_list cpu - cpu ! 3 - cpu ! 4"
    "hs_total s = sum_list cpu" "hs_steal s = (if 7 < length cpu then cpu ! 7 else 0)"
  using assms by (auto simp: host_sample_def bindR_Inr_iff py_get_def split: if_splits)

text \<open>C36: The CPU shares of a host are shares, and a failed sample never becomes 0. When a host's counters did not go
  back between the two samples, it has a usage exactly when both samples succeeded and some counter moved, and then its
  busy and steal shares are at least 0 and at most 1, rounding included; otherwise its entry is \<open>None\<close>.\<close>

theorem host_usage_shares:
  assumes "\<forall>xs ys. bindR before cpu_fields = Inr xs \<and> bindR after cpu_fields = Inr ys \<longrightarrow> list_all2 (\<le>) xs ys"
  shows "if (\<exists>b. bindR before host_sample = Inr b) \<and> (\<exists>a. bindR after host_sample = Inr a) \<and>
        bindR before cpu_fields \<noteq> bindR after cpu_fields
    then \<exists>u. map_of (host_usage (sample_hosts [(name, before)]) (sample_hosts [(name, after)]) seconds) name = Some (Some u) \<and>
        0 \<le> ho_cpuBusy u \<and> ho_cpuBusy u \<le> 1 \<and> 0 \<le> ho_cpuSteal u \<and> ho_cpuSteal u \<le> 1
    else map_of (host_usage (sample_hosts [(name, before)]) (sample_hosts [(name, after)]) seconds) name = Some None"
proof (cases "\<exists>b a. bindR before host_sample = Inr b \<and> bindR after host_sample = Inr a")
  case False
  then have "(\<exists>e. bindR before host_sample = Inl e) \<or> (\<exists>e. bindR after host_sample = Inl e)"
    by (metis sum.exhaust)
  then have "map_of (host_usage (sample_hosts [(name, before)]) (sample_hosts [(name, after)]) seconds) name = Some None"
    by (auto simp: host_usage_def sample_hosts_def host_usage_of_def split: sum.splits)
  then show ?thesis using False by auto
next
  case True
  then obtain b a o0 o1 where s: "before = Inr o0" "after = Inr o1" "host_sample o0 = Inr b" "host_sample o1 = Inr a"
    by (auto simp: bindR_Inr_iff)
  obtain xs where x: "cpu_fields o0 = Inr xs" "4 < length xs" "hs_busy b = sum_list xs - xs ! 3 - xs ! 4"
      "hs_total b = sum_list xs" "hs_steal b = (if 7 < length xs then xs ! 7 else 0)"
    by (rule host_sample_fields [OF s(3)])
  obtain ys where y: "cpu_fields o1 = Inr ys" "4 < length ys" "hs_busy a = sum_list ys - ys ! 3 - ys ! 4"
      "hs_total a = sum_list ys" "hs_steal a = (if 7 < length ys then ys ! 7 else 0)"
    by (rule host_sample_fields [OF s(4)])
  have le: "list_all2 (\<le>) xs ys" using assms x(1) y(1) s(1,2) by simp
  show ?thesis
  proof (cases "hs_total b < hs_total a")
    case moved: True
    let ?u = "usage_between b a seconds"
    have "0 \<le> ho_cpuBusy ?u \<and> ho_cpuBusy ?u \<le> 1"
      unfolding usage_between_def Let_def host_report.simps
      by (rule share_bounds) (use busy_bounds [OF le x(2)] moved x y in simp_all)
    moreover have "0 \<le> ho_cpuSteal ?u \<and> ho_cpuSteal ?u \<le> 1"
      unfolding usage_between_def Let_def host_report.simps
      by (rule share_bounds)
        (use sum_list_field_le [OF le, of 7] list_all2_nthD [OF le, of 7] list_all2_lengthD [OF le] moved x y in auto)
    moreover have "xs \<noteq> ys" using moved x(4) y(4) by auto
    ultimately show ?thesis
      using s moved x(1) y(1) by (simp add: host_usage_def sample_hosts_def host_usage_of_def)
  next
    case False
    then have "xs = ys" using le x(4) y(4) by (intro unmoved_fields) simp_all
    then show ?thesis using s False x y by (simp add: host_usage_def sample_hosts_def host_usage_of_def)
  qed
qed

definition stat_before :: "string list" where
  "stat_before = [''cpu 100 0 50 800 50 0 0 0'']"

definition stat_after :: "string list" where
  "stat_after = [''cpu 160 0 70 900 55 0 0 15'', ''259 0 nvme0n1 1 2 3 4 50 6 700 80'']"

theorem host_usage_shares_witness:
  "\<exists>u. map_of (host_usage (sample_hosts [(''mysql'', Inr stat_before)]) (sample_hosts [(''mysql'', Inr stat_after)]) 12) ''mysql'' = Some (Some u) \<and>
     0 \<le> ho_cpuBusy u \<and> ho_cpuBusy u \<le> 1 \<and> 0 \<le> ho_cpuSteal u \<and> ho_cpuSteal u \<le> 1"
proof -
  let ?m = "map_of (host_usage (sample_hosts [(''mysql'', Inr stat_before)]) (sample_hosts [(''mysql'', Inr stat_after)]) 12) ''mysql''"
  have f: "cpu_fields stat_before = Inr [100, 0, 50, 800, 50, 0, 0, 0]" "cpu_fields stat_after = Inr [160, 0, 70, 900, 55, 0, 0, 15]"
    by code_simp+
  have ok: "case host_sample stat_before of Inr _ \<Rightarrow> True | Inl _ \<Rightarrow> False" "case host_sample stat_after of Inr _ \<Rightarrow> True | Inl _ \<Rightarrow> False" by code_simp+
  have "\<forall>xs ys. bindR (Inr stat_before) cpu_fields = Inr xs \<and> bindR (Inr stat_after) cpu_fields = Inr ys \<longrightarrow> list_all2 (\<le>) xs ys"
    by (simp add: f)
  from host_usage_shares [OF this, of "''mysql''" 12] ok show ?thesis by (auto simp: f split: sum.splits)
qed

end
