(* ===== verification/Run_Report.thy ===== *)
theory Run_Report
  imports Hosts Diagnosis
begin

text \<open>
  The report of a case, \<open>report\<close> in \<open>experiments/run.py\<close>: the figures of \<open>summary.json\<close> from the files of the
  run directory. A file or line is its decoded content or the exception of reading it: missing, not JSON, or without a key
  that the report reads with \<open>[]\<close>. Sizes of files are left out. The figures feed the diagnosis and the comparison.
\<close>

section \<open>Evidence\<close>

record report_service =
  rs_dbWaiting :: "int option"
  rs_heapUsed :: "int option"
  rs_active :: "int option"
  rs_paused :: bool
  rs_instance :: string                               \<comment> \<open>empty when absent\<close>
  rs_cpuNanos :: "int option"
  rs_committedRemaining :: "int option"
  rs_producerLatency :: "rat option"                  \<comment> \<open>\<open>producer.request-latency-avg\<close> when it is a number\<close>
  rs_gcCount :: "int option"
  rs_gcMillis :: "int option"
  rs_retryLogEnd :: "int option"

record report_observation =
  ro_service :: "report_service option"
  ro_oldestMs :: "(string \<times> int) list"
  ro_processRssKiB :: "int option"
  ro_infra :: "(string \<times> int option) list"    \<comment> \<open>\<open>memoryWithoutInactiveFileBytes\<close> of each container\<close>
  ro_collectorPeakRssBytes :: "int option"
  ro_sampleMs :: rat

record report_trace =
  rt_stage :: string
  rt_time :: int
  rt_sellerId :: "string option"
  rt_waitMs :: "int option"
  rt_durationMs :: "int option"

record case_evidence =
  cv_effects :: "effect_row list"
  cv_attempts :: "attempt_row list"
  cv_expected :: nat
  cv_observations :: "report_observation list"
  cv_traces :: "report_trace list"
  cv_controller :: "(string \<times> int) list"      \<comment> \<open>action and time\<close>
  cv_before :: "report_service option"                \<comment> \<open>\<open>before-load-observe.json\<close>\<close>
  cv_final :: report_service                          \<comment> \<open>\<open>final-observe.json\<close>\<close>
  cv_usage :: "((string \<times> host_report option) list \<times> mysql_report) option"  \<comment> \<open>\<open>resource_usage\<close> entry\<close>
  cv_inputs :: "((int \<times> int) \<times> int) list option"  \<comment> \<open>\<open>input-times.json\<close>: order and sequence\<close>

section \<open>Pieces\<close>

definition service_samples :: "case_evidence \<Rightarrow> report_service list" where
  "service_samples ev = concat (map (\<lambda>x. case ro_service x of None \<Rightarrow> [] | Some s \<Rightarrow> [s]) (cv_observations ev))"

definition peak_of :: "(report_service \<Rightarrow> int option) \<Rightarrow> report_service list \<Rightarrow> int" where
  "peak_of f ss = max_default 0 (map (\<lambda>s. get_or 0 (f s)) ss)"

definition stage_traces :: "string \<Rightarrow> case_evidence \<Rightarrow> report_trace list" where
  "stage_traces stage ev = filter (\<lambda>t. rt_stage t = stage) (cv_traces ev)"

definition slow_finished :: "case_evidence \<Rightarrow> int" where
  "slow_finished ev = max_default (slow_done_at (cv_effects ev))
     (map rt_time (filter (\<lambda>t. rt_sellerId t = Some ''slow'') (stage_traces ''business_commit'' ev)))"

definition oldest_by_seller :: "report_observation list \<Rightarrow> int \<times> int" where
  "oldest_by_seller obs =
     (max_default 0 (map snd (filter (\<lambda>kv. fst kv \<noteq> ''slow'') (concat (map ro_oldestMs obs)))),
      max_default 0 (map (\<lambda>x. get_or 0 (map_of (ro_oldestMs x) ''slow'')) obs))"

definition cpu_step :: "report_service \<Rightarrow> (string \<times> int) list \<Rightarrow> (string \<times> int) list" where
  "cpu_step s d =
     (if rs_instance s = [] then d
      else AList.update (rs_instance s) (max (get_or 0 (map_of d (rs_instance s))) (get_or 0 (rs_cpuNanos s))) d)"

definition cpu_by_instance :: "case_evidence \<Rightarrow> (string \<times> int) list" where
  "cpu_by_instance ev = fold cpu_step (service_samples ev @ [cv_final ev]) []"

definition before_value :: "(report_service \<Rightarrow> int option) \<Rightarrow> case_evidence \<Rightarrow> int" where
  "before_value f ev = get_or 0 (Option.bind (cv_before ev) f)"

text \<open>Memory of the whole stack, when the processes and both containers were sampled.\<close>

definition stack_memory :: "report_observation \<Rightarrow> int option" where
  "stack_memory x =
     (if ro_processRssKiB x \<noteq> None \<and> length (ro_infra x) = 2 \<and> list_all (\<lambda>kv. snd kv \<noteq> None) (ro_infra x)
      then Some (get_or 0 (ro_processRssKiB x) * 1024 + get_or 0 (ro_collectorPeakRssBytes x) +
             sum_list (map (\<lambda>kv. get_or 0 (snd kv)) (ro_infra x)))
      else None)"

definition memory_samples :: "case_evidence \<Rightarrow> int list" where
  "memory_samples ev = concat (map (\<lambda>x. case stack_memory x of None \<Rightarrow> [] | Some m \<Rightarrow> [m]) (cv_observations ev))"

definition gc_delta :: "(report_service \<Rightarrow> int option) \<Rightarrow> case_evidence \<Rightarrow> int option" where
  "gc_delta f ev = map_option (\<lambda>v. v - before_value f ev) (f (cv_final ev))"

record source_latency =
  sx_slow :: bool
  sx_p95Ms :: "int option"
  sx_p99Ms :: "int option"

definition input_delays :: "bool \<Rightarrow> ((int \<times> int) \<times> int) list \<Rightarrow> effect_row list \<Rightarrow> int list result" where
  "input_delays slow inputs effs =
     mapR (\<lambda>x. bindR (need ''input'' (map_of inputs (er_order_id x, er_seq x))) (\<lambda>t. Inr (er_effect_at x - t)))
       (filter (\<lambda>x. (er_seller_id x = ''slow'') = slow) effs)"

definition source_latency_of :: "((int \<times> int) \<times> int) list \<Rightarrow> effect_row list \<Rightarrow> bool \<Rightarrow> source_latency result" where
  "source_latency_of inputs effs slow =
     bindR (input_delays slow inputs effs) (\<lambda>ts. bindR (percentile ts q95) (\<lambda>a. bindR (percentile ts q99) (\<lambda>b. Inr
       \<lparr>sx_slow = slow, sx_p95Ms = a, sx_p99Ms = b\<rparr>)))"

section \<open>The metrics\<close>

record run_metrics =
  rm_latency :: "latency_row list"
  rm_externalRecoveryMs :: "int option"
  rm_recoveryMs :: "int option"
  rm_oldestNormalMs :: int
  rm_oldestSlowMs :: int
  rm_peakDbWaiting :: int
  rm_peakHeapUsed :: int
  rm_peakActive :: int
  rm_dbAcquireP95Ms :: "int option"
  rm_externalP95Ms :: "int option"
  rm_externalErrors :: nat
  rm_pausedSamples :: nat
  rm_lastCpuNanos :: "int option"
  rm_peakProcessRssKiB :: int
  rm_observerSampleP95Ms :: "rat option"
  rm_measuredNormalSloPassed :: bool
  rm_sampledWorkloadCpuNanos :: int
  rm_workloadCpuNanos :: "int option"
  rm_cpuInstances :: nat
  rm_peakMeasuredStackMemoryBytes :: "int option"
  rm_infraMemorySamples :: nat
  rm_retryTopicRecords :: "int option"
  rm_parkedEvents :: nat
  rm_circuitOpenRejections :: nat
  rm_externalRequests :: nat
  rm_slowDrainAfterInputMs :: "int option"
  rm_inputEventsPerSecond :: "rat option"
  rm_deliveredEventsPerSecond :: "rat option"
  rm_peakCommittedRemaining :: "int option"
  rm_usage :: "((string \<times> host_report option) list \<times> mysql_report) option"
  rm_gcCount :: "int option"
  rm_gcMillis :: "int option"
  rm_producerLatencyPeak :: "rat option"
  rm_peakDbConnectionsWaiting :: "int option"
  rm_sourceApiLatency :: "source_latency list option"

definition max_or_none :: "'a::linorder list \<Rightarrow> 'a option" where
  "max_or_none xs = (if xs = [] then None else Some (Max (set xs)))"

definition report_case :: "case_evidence \<Rightarrow> run_metrics result" where
  "report_case ev =
     (let effs = cv_effects ev; ctl = cv_controller ev; ss = service_samples ev; obs = cv_observations ev;
          removed = first_time ''fault_removed'' ctl; input_done = first_time ''workload_input_done'' ctl;
          cpu = cpu_by_instance ev; sampled = sum_list (map snd cpu) - before_value rs_cpuNanos ev
      in bindR (latency_rows effs) (\<lambda>rows.
         bindR (percentile (map (\<lambda>t. get_or 0 (rt_waitMs t)) (stage_traces ''db_acquired'' ev)) q95) (\<lambda>dbwait.
         bindR (percentile (map (\<lambda>t. get_or 0 (rt_durationMs t)) (stage_traces ''external_result'' ev)) q95) (\<lambda>external.
         bindR (percentile (map ro_sampleMs obs) q95) (\<lambda>sampling.
         bindR (case cv_inputs ev of None \<Rightarrow> Inr None
            | Some ts \<Rightarrow> bindR (mapR (source_latency_of ts effs) [False, True]) (\<lambda>v. Inr (Some v))) (\<lambda>source. Inr
          \<lparr>rm_latency = rows, rm_externalRecoveryMs = since (slow_done_at effs) removed, rm_recoveryMs = since (slow_finished ev) removed,
           rm_oldestNormalMs = fst (oldest_by_seller obs), rm_oldestSlowMs = snd (oldest_by_seller obs),
           rm_peakDbWaiting = peak_of rs_dbWaiting ss, rm_peakHeapUsed = peak_of rs_heapUsed ss, rm_peakActive = peak_of rs_active ss,
           rm_dbAcquireP95Ms = dbwait, rm_externalP95Ms = external,
           rm_externalErrors = length (stage_traces ''external_error'' ev), rm_pausedSamples = length (filter rs_paused ss),
           rm_lastCpuNanos = rs_cpuNanos (cv_final ev),
           rm_peakProcessRssKiB = max_default 0 (map (\<lambda>x. get_or 0 (ro_processRssKiB x)) obs),
           rm_observerSampleP95Ms = sampling, rm_measuredNormalSloPassed = slo_passed (hd rows),
           rm_sampledWorkloadCpuNanos = sampled, rm_workloadCpuNanos = (if length cpu = 1 then Some sampled else None),
           rm_cpuInstances = length cpu, rm_peakMeasuredStackMemoryBytes = max_or_none (memory_samples ev),
           rm_infraMemorySamples = length (memory_samples ev), rm_retryTopicRecords = rs_retryLogEnd (cv_final ev),
           rm_parkedEvents = length (stage_traces ''retry_parked'' ev),
           rm_circuitOpenRejections = length (stage_traces ''circuit_open'' ev), rm_externalRequests = length (cv_attempts ev),
           rm_slowDrainAfterInputMs = since (slow_done_at effs) input_done,
           rm_inputEventsPerSecond = input_per_second (cv_expected ev) (first_time ''workload_started'' ctl) input_done,
           rm_deliveredEventsPerSecond = delivered_per_second effs,
           rm_peakCommittedRemaining = max_or_none (map (\<lambda>s. or_else (rs_committedRemaining s) 0) ss),
           rm_usage = cv_usage ev, rm_gcCount = gc_delta rs_gcCount ev, rm_gcMillis = gc_delta rs_gcMillis ev,
           rm_producerLatencyPeak = map_option (py_round 2)
             (max_or_none (concat (map (\<lambda>s. case rs_producerLatency s of None \<Rightarrow> [] | Some v \<Rightarrow> [v]) ss))),
           rm_peakDbConnectionsWaiting = max_or_none (map (\<lambda>s. get_or 0 (rs_dbWaiting s)) ss),
           rm_sourceApiLatency = source\<rparr>))))))"

section \<open>The files of a run directory\<close>

datatype log_line = OtherLine | TraceLine "report_trace result"    \<comment> \<open>a line that starts with \<open>TRACE \<close>\<close>

record case_files =
  kf_remote :: "(effect_row list \<times> attempt_row list) result"
  kf_observations :: "report_observation result list option"       \<comment> \<open>\<open>None\<close> when there is no such file\<close>
  kf_log :: "log_line list result"
  kf_controller :: "((string \<times> int) list \<times> ((string \<times> host_report option) list \<times> mysql_report) option) result"
  kf_final :: "report_service result"
  kf_before :: "report_service result option"
  kf_remotePartner :: bool
  kf_sqlite :: bool                                                 \<comment> \<open>\<open>external.sqlite\<close> exists\<close>
  kf_inputs :: "((int \<times> int) \<times> int) list result option"

definition log_traces :: "log_line list \<Rightarrow> report_trace result list" where
  "log_traces ls = concat (map (\<lambda>l. case l of OtherLine \<Rightarrow> [] | TraceLine t \<Rightarrow> [t]) ls)"

definition optional_file :: "'a result option \<Rightarrow> 'a option result" where
  "optional_file v = (case v of None \<Rightarrow> Inr None | Some r \<Rightarrow> bindR r (\<lambda>x. Inr (Some x)))"

definition read_case :: "nat \<Rightarrow> case_files \<Rightarrow> case_evidence result" where
  "read_case expected f =
     bindR (kf_remote f) (\<lambda>remote.
     bindR (case kf_observations f of None \<Rightarrow> Inr [] | Some ls \<Rightarrow> mapR (\<lambda>l. l) ls) (\<lambda>obs.
     bindR (kf_log f) (\<lambda>ls. bindR (mapR (\<lambda>l. l) (log_traces ls)) (\<lambda>traces.
     bindR (kf_controller f) (\<lambda>ctl.
     bindR (kf_final f) (\<lambda>final.
     bindR (optional_file (kf_before f)) (\<lambda>before.
     bindR (if kf_remotePartner f \<or> kf_sqlite f then Inr () else Inl FileNotFoundError) (\<lambda>_.
     bindR (optional_file (kf_inputs f)) (\<lambda>inputs. Inr
       \<lparr>cv_effects = fst remote, cv_attempts = snd remote, cv_expected = expected, cv_observations = obs, cv_traces = traces,
        cv_controller = fst ctl, cv_before = before, cv_final = final, cv_usage = snd ctl, cv_inputs = inputs\<rparr>)))))))))"

definition report_directory :: "nat \<Rightarrow> case_files \<Rightarrow> run_metrics result" where
  "report_directory expected f = bindR (read_case expected f) report_case"

section \<open>When the report returns\<close>

lemma percentile_pct: "percentile vs q = pct vs q"
  by (simp add: percentile_def pct_def pct_rank_def)

lemma percentile_total: "0 < q \<Longrightarrow> q \<le> 1 - 1 / 2 ^ 53 \<Longrightarrow> \<exists>v. percentile vs q = Inr v"
  using pct_nearest_rank [of vs q] by (cases "vs = []") (auto simp: percentile_pct pct_def)

lemmas percentiles_total = percentile_total [OF quantiles(1,2)] percentile_total [OF quantiles(3,4)] percentile_total [OF quantiles(5,6)]

lemma latency_rows_total: "\<exists>rows. latency_rows effs = Inr rows"
proof -
  have "\<exists>r. latency_row_of effs slow = Inr r" for slow
    unfolding latency_row_of_def Let_def by (intro bindR_exists percentiles_total) simp
  then show ?thesis unfolding latency_rows_def by (intro mapR_exists)
qed

lemma mapR_defined: "mapR f xs = Inr ys \<Longrightarrow> x \<in> set xs \<Longrightarrow> \<exists>y. f x = Inr y"
  by (induction xs arbitrary: ys) (auto simp: bindR_Inr_iff)

definition covers_inputs :: "((int \<times> int) \<times> int) list \<Rightarrow> effect_row list \<Rightarrow> bool" where
  "covers_inputs ts effs \<longleftrightarrow> list_all (\<lambda>x. (er_order_id x, er_seq x) \<in> fst ` set ts) effs"

lemma input_delays_total:
  "(\<exists>v. input_delays slow ts effs = Inr v) \<longleftrightarrow>
     (\<forall>x \<in> set effs. (er_seller_id x = ''slow'') = slow \<longrightarrow> (er_order_id x, er_seq x) \<in> fst ` set ts)"
proof
  assume "\<exists>v. input_delays slow ts effs = Inr v"
  then obtain v where v: "input_delays slow ts effs = Inr v" ..
  show "\<forall>x \<in> set effs. (er_seller_id x = ''slow'') = slow \<longrightarrow> (er_order_id x, er_seq x) \<in> fst ` set ts"
  proof (intro ballI impI)
    fix x
    assume "x \<in> set effs" "(er_seller_id x = ''slow'') = slow"
    then have "x \<in> set (filter (\<lambda>x. (er_seller_id x = ''slow'') = slow) effs)" by simp
    then have "\<exists>t. map_of ts (er_order_id x, er_seq x) = Some t"
      using mapR_defined [OF v [unfolded input_delays_def]] by (auto simp: bindR_Inr_iff)
    then show "(er_order_id x, er_seq x) \<in> fst ` set ts" by (auto dest: map_of_SomeD intro: rev_image_eqI)
  qed
next
  assume cover: "\<forall>x \<in> set effs. (er_seller_id x = ''slow'') = slow \<longrightarrow> (er_order_id x, er_seq x) \<in> fst ` set ts"
  have "\<exists>y. bindR (need ''input'' (map_of ts (er_order_id x, er_seq x))) (\<lambda>t. Inr (er_effect_at x - t)) = Inr y"
    if "x \<in> set (filter (\<lambda>x. (er_seller_id x = ''slow'') = slow) effs)" for x
  proof -
    have "(er_order_id x, er_seq x) \<in> fst ` set ts" using that cover by simp
    then obtain t where "map_of ts (er_order_id x, er_seq x) = Some t" by (metis map_of_eq_None_iff not_Some_eq)
    then show ?thesis by simp
  qed
  then show "\<exists>v. input_delays slow ts effs = Inr v" unfolding input_delays_def by (rule mapR_exists)
qed

lemma source_latency_total: "(\<exists>v. source_latency_of ts effs slow = Inr v) \<longleftrightarrow> (\<exists>v. input_delays slow ts effs = Inr v)"
proof
  assume "\<exists>v. input_delays slow ts effs = Inr v"
  then show "\<exists>v. source_latency_of ts effs slow = Inr v"
    unfolding source_latency_of_def by (rule bindR_exists) (intro bindR_exists percentiles_total, simp)
qed (auto simp: source_latency_of_def bindR_Inr_iff)

lemma source_latencies_total:
  "(\<exists>v. mapR (source_latency_of ts effs) [False, True] = Inr v) \<longleftrightarrow> covers_inputs ts effs"
proof -
  have "(\<exists>v. mapR (source_latency_of ts effs) [False, True] = Inr v) \<longleftrightarrow>
      (\<exists>v. source_latency_of ts effs False = Inr v) \<and> (\<exists>v. source_latency_of ts effs True = Inr v)"
    by (auto simp: bindR_Inr_iff)
  then show ?thesis unfolding source_latency_total input_delays_total covers_inputs_def list_all_iff by blast
qed

lemma report_case_total:
  "(\<exists>m. report_case ev = Inr m) \<longleftrightarrow> (case cv_inputs ev of None \<Rightarrow> True | Some ts \<Rightarrow> covers_inputs ts (cv_effects ev))"
proof (cases "cv_inputs ev")
  case None
  have "\<exists>m. report_case ev = Inr m"
    unfolding report_case_def Let_def None option.case by (intro bindR_exists latency_rows_total percentiles_total) auto
  then show ?thesis by (simp add: None)
next
  case (Some ts)
  have "covers_inputs ts (cv_effects ev)" if "report_case ev = Inr m" for m
  proof -
    have "\<exists>v. mapR (source_latency_of ts (cv_effects ev)) [False, True] = Inr v"
      using that unfolding report_case_def Let_def Some option.case bindR_Inr_iff by blast
    then show ?thesis unfolding source_latencies_total .
  qed
  moreover have "\<exists>m. report_case ev = Inr m" if c: "covers_inputs ts (cv_effects ev)"
  proof -
    have "\<exists>v. mapR (source_latency_of ts (cv_effects ev)) [False, True] = Inr v" using c unfolding source_latencies_total .
    then show ?thesis
      unfolding report_case_def Let_def Some option.case
      by (intro bindR_exists latency_rows_total percentiles_total) (assumption | simp)+
  qed
  ultimately show ?thesis by (auto simp: Some)
qed

definition decodes :: "'a result \<Rightarrow> bool" where
  "decodes r \<longleftrightarrow> (\<exists>v. r = Inr v)"

lemma decodes_lines: "(\<exists>vs. mapR (\<lambda>l. l) ls = Inr vs) \<longleftrightarrow> list_all decodes ls"
  by (induction ls) (auto simp: bindR_Inr_iff decodes_def)

lemma decodes_optional: "(\<exists>v. optional_file r = Inr v) \<longleftrightarrow> (case r of None \<Rightarrow> True | Some x \<Rightarrow> decodes x)"
  by (auto simp: optional_file_def decodes_def bindR_Inr_iff split: option.splits)

lemma bindR_returns: "(\<exists>m. bindR r g = Inr m) \<longleftrightarrow> (\<exists>v. r = Inr v \<and> (\<exists>m. g v = Inr m))"
  unfolding bindR_Inr_iff by blast

lemma report_directory_total:
  "(\<exists>m. report_directory expected f = Inr m) \<longleftrightarrow> (\<exists>remote. kf_remote f = Inr remote \<and>
     (\<exists>obs. (case kf_observations f of None \<Rightarrow> Inr [] | Some ls \<Rightarrow> mapR (\<lambda>l. l) ls) = Inr obs \<and>
     (\<exists>ls. kf_log f = Inr ls \<and> (\<exists>traces. mapR (\<lambda>l. l) (log_traces ls) = Inr traces \<and> (\<exists>ctl. kf_controller f = Inr ctl \<and>
     (\<exists>final. kf_final f = Inr final \<and> (\<exists>before. optional_file (kf_before f) = Inr before \<and>
     (\<exists>u. (if kf_remotePartner f \<or> kf_sqlite f then Inr () else Inl FileNotFoundError) = Inr u \<and>
     (\<exists>inputs. optional_file (kf_inputs f) = Inr inputs \<and>
     (case inputs of None \<Rightarrow> True | Some ts \<Rightarrow> covers_inputs ts (fst remote)))))))))))"
  unfolding report_directory_def read_case_def bindR_assoc bindR_simps
  unfolding bindR_returns report_case_total by (simp only: case_evidence.simps)

text \<open>C35: Which run directories can be reported. The report returns exactly when \<open>remote.json\<close>, the service log,
  \<open>controller.json\<close> and \<open>final-observe.json\<close> can be read, every TRACE line and every observation decodes (one truncated
  line is enough to raise), the files that may be missing decode where they exist, the ledger of a local seller
  exists, and, if input times were recorded, every effect has one. Nothing else raises: samples, traces, effects and logs may
  be empty, and no percentile is read out of range.\<close>

theorem report_returns_iff:
  "(\<exists>m. report_directory expected f = Inr m) \<longleftrightarrow>
     (\<exists>effs atts ls. kf_remote f = Inr (effs, atts) \<and> kf_log f = Inr ls \<and> list_all decodes (log_traces ls) \<and>
       (case kf_observations f of None \<Rightarrow> True | Some os \<Rightarrow> list_all decodes os) \<and>
       decodes (kf_controller f) \<and> decodes (kf_final f) \<and>
       (case kf_before f of None \<Rightarrow> True | Some x \<Rightarrow> decodes x) \<and> (kf_remotePartner f \<or> kf_sqlite f) \<and>
       (case kf_inputs f of None \<Rightarrow> True
        | Some x \<Rightarrow> \<exists>ts. x = Inr ts \<and> list_all (\<lambda>e. (er_order_id e, er_seq e) \<in> fst ` set ts) effs))"
proof -
  have obs: "(\<exists>v. (case kf_observations f of None \<Rightarrow> Inr [] | Some ls \<Rightarrow> mapR (\<lambda>l. l) ls) = Inr v) \<longleftrightarrow>
      (case kf_observations f of None \<Rightarrow> True | Some os \<Rightarrow> list_all decodes os)"
    by (simp add: decodes_lines split: option.splits)
  have inp: "(\<exists>v. optional_file (kf_inputs f) = Inr v \<and> (case v of None \<Rightarrow> True | Some ts \<Rightarrow> covers_inputs ts effs)) \<longleftrightarrow>
      (case kf_inputs f of None \<Rightarrow> True | Some x \<Rightarrow> \<exists>ts. x = Inr ts \<and> list_all (\<lambda>e. (er_order_id e, er_seq e) \<in> fst ` set ts) effs)" for effs
    by (auto simp: optional_file_def bindR_Inr_iff covers_inputs_def split: option.splits)
  have seller: "(\<exists>u. (if kf_remotePartner f \<or> kf_sqlite f then Inr () else Inl FileNotFoundError) = Inr u \<and> P) \<longleftrightarrow>
      (kf_remotePartner f \<or> kf_sqlite f) \<and> P" for P by simp
  show ?thesis
    unfolding report_directory_total
    unfolding obs [symmetric] inp [symmetric] decodes_optional [symmetric]
    unfolding decodes_lines [symmetric] unfolding decodes_def split_paired_Ex fst_conv seller by blast
qed

section \<open>What the figures say\<close>

lemma Max_insert_second: "finite A \<Longrightarrow> Max (insert a (insert c A)) = max (Max (insert a A)) c" for a :: "'a::linorder"
  by (subst insert_commute) (simp del: Max_insert add: Max.insert [of "insert a A" c] max.commute)

lemma cpu_lookup:
  "map_of (fold cpu_step ss []) n =
     (if n \<noteq> [] \<and> n \<in> rs_instance ` set ss
      then Some (Max (insert 0 ((\<lambda>s. get_or 0 (rs_cpuNanos s)) ` {s \<in> set ss. rs_instance s = n}))) else None)"
proof (induction ss rule: rev_induct)
  case (snoc s ss)
  let ?A = "(\<lambda>s. get_or 0 (rs_cpuNanos s)) ` {s \<in> set ss. rs_instance s = n}"
  show ?case
  proof (cases "rs_instance s = n \<and> n \<noteq> []")
    case False
    have same: "map_of (fold cpu_step (ss @ [s]) []) n = map_of (fold cpu_step ss []) n"
      using False by (cases "rs_instance s = n") (simp_all add: cpu_step_def update_conv')
    show ?thesis
    proof (cases "n = []")
      case True
      show ?thesis unfolding same snoc using True by simp
    next
      case nonempty: False
      with False have other: "rs_instance s \<noteq> n" by simp
      then have "{x \<in> set (ss @ [s]). rs_instance x = n} = {x \<in> set ss. rs_instance x = n}"
        "n \<in> rs_instance ` set (ss @ [s]) \<longleftrightarrow> n \<in> rs_instance ` set ss" by auto
      then show ?thesis by (simp only: same snoc)
    qed
  next
    case True
    then have eq: "(\<lambda>s. get_or 0 (rs_cpuNanos s)) ` {x \<in> set (ss @ [s]). rs_instance x = n} = insert (get_or 0 (rs_cpuNanos s)) ?A" by auto
    have empty: "?A = {}" if "n \<notin> rs_instance ` set ss" using that by auto
    have "Max (insert 0 (insert (get_or 0 (rs_cpuNanos s)) ?A)) = max (Max (insert 0 ?A)) (get_or 0 (rs_cpuNanos s))"
      by (rule Max_insert_second) simp
    moreover have "map_of (fold cpu_step (ss @ [s]) []) n =
        Some (max (get_or 0 (map_of (fold cpu_step ss []) n)) (get_or 0 (rs_cpuNanos s)))"
      using True by (simp add: cpu_step_def update_conv')
    moreover have "get_or 0 (map_of (fold cpu_step ss []) n) = Max (insert 0 ?A)"
    proof (cases "n \<in> rs_instance ` set ss")
      case False
      then show ?thesis unfolding empty [OF False] snoc by simp
    qed (use snoc True in simp)
    ultimately show ?thesis unfolding eq using True by simp
  qed
qed simp

lemma cpu_distinct: "distinct (map fst d) \<Longrightarrow> distinct (map fst (fold cpu_step ss d))"
  by (induction ss arbitrary: d) (simp_all add: cpu_step_def distinct_update)

text \<open>The sampled CPU time is the sum of the largest counter of each instance, less the counter before the load: a
  restarted instance has a new name and counts on its own.\<close>

lemma report_cpu:
  assumes "report_case ev = Inr m"
  defines "ss \<equiv> service_samples ev @ [cv_final ev]"
  shows "rm_sampledWorkloadCpuNanos m + before_value rs_cpuNanos ev =
    (\<Sum>n \<in> rs_instance ` set ss - {[]}. Max (insert 0 ((\<lambda>s. get_or 0 (rs_cpuNanos s)) ` {s \<in> set ss. rs_instance s = n})))"
proof -
  let ?d = "cpu_by_instance ev"
  have m: "rm_sampledWorkloadCpuNanos m = sum_list (map snd ?d) - before_value rs_cpuNanos ev"
    using assms(1) by (auto simp: report_case_def Let_def bindR_Inr_iff)
  have dis: "distinct (map fst ?d)" unfolding cpu_by_instance_def by (rule cpu_distinct) simp
  have look: "map_of ?d n = (if n \<noteq> [] \<and> n \<in> rs_instance ` set ss
      then Some (Max (insert 0 ((\<lambda>s. get_or 0 (rs_cpuNanos s)) ` {s \<in> set ss. rs_instance s = n}))) else None)" for n
    unfolding cpu_by_instance_def ss_def by (rule cpu_lookup)
  have "n \<in> fst ` set ?d \<longleftrightarrow> n \<noteq> [] \<and> n \<in> rs_instance ` set ss" for n
    using map_of_eq_None_iff [of ?d n] unfolding look by (simp split: if_splits)
  then have "fst ` set ?d = rs_instance ` set ss - {[]}" by blast
  moreover have "sum_list (map snd ?d) = (\<Sum>n \<in> fst ` set ?d. the (map_of ?d n))"
  proof -
    have "map snd ?d = map (\<lambda>n. the (map_of ?d n)) (map fst ?d)" using dis by (auto simp: map_of_is_SomeI)
    then show ?thesis using dis by (metis image_set sum_list_distinct_conv_sum_set)
  qed
  ultimately have "sum_list (map snd ?d) = (\<Sum>n \<in> rs_instance ` set ss - {[]}. the (map_of ?d n))" by simp
  also have "\<dots> = (\<Sum>n \<in> rs_instance ` set ss - {[]}. Max (insert 0 ((\<lambda>s. get_or 0 (rs_cpuNanos s)) ` {s \<in> set ss. rs_instance s = n})))"
    by (intro sum.cong refl) (simp only: look Diff_iff singleton_iff simp_thms if_True option.sel)
  finally show ?thesis using m by simp
qed

text \<open>The shared pool is accepted by the diagnosis exactly when a sample of the run showed a waiting thread.\<close>

lemma report_pool_diagnosis:
  assumes "report_case ev = Inr m"
  shows "dg_shared_db_pool (diagnose traces samples (rm_peakDbWaiting m)) = Accepted \<longleftrightarrow>
    (\<exists>s \<in> set (service_samples ev). 0 < get_or 0 (rs_dbWaiting s))"
proof -
  have "rm_peakDbWaiting m = peak_of rs_dbWaiting (service_samples ev)"
    using assms by (auto simp: report_case_def Let_def bindR_Inr_iff)
  moreover have "0 < max_default 0 xs \<longleftrightarrow> (\<exists>x \<in> set xs. 0 < x)" for xs :: "int list"
    using max_default_in [of xs 0] max_default_ge [of _ xs 0] by (cases "xs = []") (force simp: max_default_def)+
  ultimately show ?thesis by (auto simp: diagnose_def judge_db_pool_def Let_def peak_of_def)
qed

end
