(* ===== verification/Migration.thy ===== *)
theory Migration
  imports Legacy_Run
begin

text \<open>
  The schema migration, \<open>experiments/migrate.py\<close>, and the guard of the evidence directory,
  \<open>experiments/evidence_paths.py\<close>. The database client is an argument \<open>run_sql\<close>: from its state, a database
  and a statement to the printed lines or an exception, and its next state; \<open>git\<close> is an argument too. Every
  statement goes into the log \<open>migration-executed.json\<close> before it is executed.
\<close>

section \<open>Evidence paths\<close>

text \<open>Paths as their parts. \<open>ignored\<close> and \<open>tracked\<close> are the answers of \<open>git check-ignore\<close> and \<open>git ls-files\<close>.\<close>

definition validate_evidence_path ::
    "string list \<Rightarrow> (string list \<Rightarrow> bool) \<Rightarrow> (string list \<Rightarrow> bool) \<Rightarrow> string list \<Rightarrow> string list result" where
  "validate_evidence_path repo ignored tracked path =
     (if path = repo then Inl SystemExit
      else if take (length repo) path = repo
      then (let relative = drop (length repo) path
            in if \<not> ignored relative \<or> tracked relative then Inl SystemExit else Inr path)
      else Inr path)"

section \<open>Statements with a log\<close>

record 's mig =
  mg_log :: "(string \<times> string) list"
  mg_db :: 's

type_synonym 's client = "'s \<Rightarrow> string \<Rightarrow> string \<Rightarrow> string list result \<times> 's"
type_synonym ('s, 'a) migration = "'s mig \<Rightarrow> 'a result \<times> 's mig"

definition returnM :: "'a \<Rightarrow> ('s, 'a) migration" where
  "returnM x m = (Inr x, m)"

definition raiseM :: "py_error \<Rightarrow> ('s, 'a) migration" where
  "raiseM e m = (Inl e, m)"

definition bindM :: "('s, 'a) migration \<Rightarrow> ('a \<Rightarrow> ('s, 'b) migration) \<Rightarrow> ('s, 'b) migration" where
  "bindM f g m = (case f m of (Inl e, m') \<Rightarrow> (Inl e, m') | (Inr x, m') \<Rightarrow> g x m')"

definition query :: "'s client \<Rightarrow> string \<Rightarrow> string \<Rightarrow> ('s, string list) migration" where
  "query run_sql d statement m =
     (let (out, s) = run_sql (mg_db m) d statement in (out, \<lparr>mg_log = mg_log m @ [(d, statement)], mg_db = s\<rparr>))"

fun each :: "('a \<Rightarrow> ('s, unit) migration) \<Rightarrow> 'a list \<Rightarrow> ('s, unit) migration" where
  "each f [] = returnM ()"
| "each f (x # xs) = bindM (f x) (\<lambda>_. each f xs)"

section \<open>The migration\<close>

definition db_identifier :: "string \<Rightarrow> bool" where
  "db_identifier s \<longleftrightarrow> s \<noteq> [] \<and> list_all (\<lambda>c. let n = of_char c :: nat
     in (97 \<le> n \<and> n \<le> 122) \<or> (65 \<le> n \<and> n \<le> 90) \<or> (48 \<le> n \<and> n \<le> 57) \<or> n = 95) s"

text \<open>\<open>p in text\<close> for a text given as its lines and a pattern without line breaks.\<close>

fun occurs :: "string \<Rightarrow> string \<Rightarrow> bool" where
  "occurs p [] = (p = [])"
| "occurs p (c # cs) = (take (length p) (c # cs) = p \<or> occurs p cs)"

definition quoted :: "string \<Rightarrow> string" where
  "quoted s = [CHR 0x27] @ s @ [CHR 0x27]"

definition COLUMNS :: "(string \<times> string) list" where
  "COLUMNS = [(''seller_id'', ''VARCHAR(255) NOT NULL DEFAULT '' @ quoted ''legacy''), (''run_id'', ''VARCHAR(255) DEFAULT '' @ quoted ''api''),
     (''partner_sequence'', ''INT NOT NULL DEFAULT 0''), (''version'', ''BIGINT'')]"

definition add_column :: "string \<times> string \<Rightarrow> string" where
  "add_column cd = ''ALTER TABLE orders ADD COLUMN '' @ fst cd @ '' '' @ snd cd"

definition VERSION_UPDATE :: string where
  "VERSION_UPDATE = ''UPDATE orders SET version=0 WHERE version IS NULL''"

definition duplicates_query :: "string \<Rightarrow> string" where
  "duplicates_query table = ''SELECT event_id,COUNT(*) n FROM '' @ table @ '' GROUP BY event_id HAVING n>1''"

definition index_query :: "string \<Rightarrow> string" where
  "index_query table = ''SHOW INDEX FROM '' @ table"

definition add_unique :: "string \<Rightarrow> string" where
  "add_unique table = ''ALTER TABLE '' @ table @ '' ADD CONSTRAINT uq_'' @ table @ ''_event UNIQUE(event_id)''"

definition ensure_column :: "'s client \<Rightarrow> string \<Rightarrow> string list \<Rightarrow> string \<times> string \<Rightarrow> ('s, unit) migration" where
  "ensure_column run_sql order_db existing cd =
     (if list_ex (occurs (fst cd @ [TAB])) existing then returnM ()
      else bindM (query run_sql order_db (add_column cd)) (\<lambda>_. returnM ()))"

text \<open>\<open>any(...)\<close> over the rows: a missing column raises when it is read. The header line is read once per row, so
  empty output gives no rows and no exception.\<close>

fun unique_event :: "(string \<times> string) list list \<Rightarrow> bool result" where
  "unique_event [] = Inr False"
| "unique_event (row # rows) =
     bindR (need ''Non_unique'' (map_of row ''Non_unique'')) (\<lambda>n.
       if n \<noteq> ''0'' then unique_event rows
       else bindR (need ''Column_name'' (map_of row ''Column_name'')) (\<lambda>c.
         if c = ''event_id'' then Inr True else unique_event rows))"

fun index_rows :: "string list \<Rightarrow> (string \<times> string) list list" where
  "index_rows [] = []"
| "index_rows (header # rows) = map (\<lambda>line. dict_of fst snd (zip (split_on TAB header) (split_on TAB line))) rows"

definition ensure_unique :: "'s client \<Rightarrow> string \<times> string \<Rightarrow> ('s, unit) migration" where
  "ensure_unique run_sql = (\<lambda>(d, table).
     bindM (query run_sql d (duplicates_query table)) (\<lambda>dups.
       if 1 < length dups then raiseM SystemExit
       else bindM (query run_sql d (index_query table)) (\<lambda>out.
         case unique_event (index_rows out) of
           Inl e \<Rightarrow> raiseM e
         | Inr unique \<Rightarrow> if unique then returnM () else bindM (query run_sql d (add_unique table)) (\<lambda>_. returnM ()))))"

definition UNIQUE_TABLES :: "string \<Rightarrow> string \<Rightarrow> (string \<times> string) list" where
  "UNIQUE_TABLES order_db inventory_db = [(order_db, ''outbox_event''), (inventory_db, ''stock_history''), (inventory_db, ''outbox_event'')]"

text \<open>\<open>evidence\<close> is the outcome of \<^const>\<open>validate_evidence_path\<close> on the evidence directory. \<open>schema\<close> applies the
  checked-in schema file (\<open>CREATE TABLE IF NOT EXISTS\<close>) and is not logged.\<close>

definition migrate :: "'s client \<Rightarrow> ('s \<Rightarrow> unit result \<times> 's) \<Rightarrow> string list result \<Rightarrow> string \<Rightarrow> string \<Rightarrow> ('s, unit) migration" where
  "migrate run_sql schema evidence order_db inventory_db m =
     (if \<not> (db_identifier order_db \<and> db_identifier inventory_db) then (Inl SystemExit, m)
      else case evidence of Inl e \<Rightarrow> (Inl e, m) | Inr _ \<Rightarrow> case schema (mg_db m) of
        (Inl e, s) \<Rightarrow> (Inl e, m\<lparr>mg_db := s\<rparr>)
      | (Inr _, s) \<Rightarrow>
         bindM (query run_sql order_db ''SHOW COLUMNS FROM orders'') (\<lambda>existing.
         bindM (each (ensure_column run_sql order_db existing) COLUMNS) (\<lambda>_.
         bindM (query run_sql order_db VERSION_UPDATE) (\<lambda>_.
           each (ensure_unique run_sql) (UNIQUE_TABLES order_db inventory_db)))) (m\<lparr>mg_db := s\<rparr>))"

text \<open>The presence test looks for the name anywhere in the listing: a column whose name ends in \<open>version\<close> hides the
  missing one, and the next statement of the migration then updates a column that does not exist.\<close>

lemma longer_name_hides_column:
  "ensure_column run_sql d [''schema_version'' @ [TAB] @ ''int''] (''version'', ''BIGINT'') = returnM ()"
  by (simp add: ensure_column_def)

section \<open>What a step may log\<close>

definition logs_within :: "(string \<times> string) set \<Rightarrow> ('s, 'a) migration \<Rightarrow> bool" where
  "logs_within A f \<longleftrightarrow> (\<forall>m. \<exists>new. mg_log (snd (f m)) = mg_log m @ new \<and> set new \<subseteq> A)"

lemma logs_within_basic:
  "logs_within A (returnM x)" "logs_within A (raiseM e)" "(d, q) \<in> A \<Longrightarrow> logs_within A (query run_sql d q)"
  by (auto simp: logs_within_def returnM_def raiseM_def query_def split: prod.splits)

lemma logs_within_bind:
  assumes "logs_within A f" "\<And>x. logs_within A (g x)"
  shows "logs_within A (bindM f g)"
proof -
  have "\<exists>new. mg_log (snd (bindM f g m)) = mg_log m @ new \<and> set new \<subseteq> A" for m
  proof -
    obtain n1 where n1: "mg_log (snd (f m)) = mg_log m @ n1" "set n1 \<subseteq> A" using assms(1) by (auto simp: logs_within_def)
    show ?thesis
    proof (cases "f m")
      case (Pair r m')
      show ?thesis
      proof (cases r)
        case (Inl e)
        then show ?thesis using n1 Pair by (simp add: bindM_def)
      next
        case (Inr x)
        obtain n2 where "mg_log (snd (g x m')) = mg_log m' @ n2" "set n2 \<subseteq> A"
          using assms(2) [of x, unfolded logs_within_def] by blast
        then show ?thesis using n1 Pair Inr by (intro exI [of _ "n1 @ n2"]) (simp add: bindM_def)
      qed
    qed
  qed
  then show ?thesis by (simp add: logs_within_def)
qed

lemma logs_within_each: "(\<And>x. x \<in> set xs \<Longrightarrow> logs_within A (f x)) \<Longrightarrow> logs_within A (each f xs)"
  by (induction xs) (auto intro: logs_within_basic logs_within_bind)

lemma logs_within_mono: "logs_within A f \<Longrightarrow> A \<subseteq> B \<Longrightarrow> logs_within B f"
  unfolding logs_within_def by blast

definition table_statements :: "string \<times> string \<Rightarrow> (string \<times> string) set" where
  "table_statements = (\<lambda>(d, table). {(d, duplicates_query table), (d, index_query table), (d, add_unique table)})"

lemma ensure_column_logs: "logs_within {(d, add_column cd)} (ensure_column run_sql d existing cd)"
  by (auto simp: ensure_column_def intro: logs_within_basic logs_within_bind)

lemma ensure_unique_logs: "logs_within (table_statements dt) (ensure_unique run_sql dt)"
  by (cases dt) (auto simp: ensure_unique_def table_statements_def split: sum.splits
      intro!: logs_within_basic logs_within_bind)

definition allowed_statements :: "string \<Rightarrow> string \<Rightarrow> (string \<times> string) set" where
  "allowed_statements order_db inventory_db =
     {(order_db, ''SHOW COLUMNS FROM orders''), (order_db, VERSION_UPDATE)} \<union> (\<lambda>cd. (order_db, add_column cd)) ` set COLUMNS \<union>
     (\<Union>dt \<in> set (UNIQUE_TABLES order_db inventory_db). table_statements dt)"

definition migration_start :: "'s \<Rightarrow> 's mig" where
  "migration_start s = \<lparr>mg_log = [], mg_db = s\<rparr>"

definition after_schema :: "'s client \<Rightarrow> string \<Rightarrow> string \<Rightarrow> ('s, unit) migration" where
  "after_schema run_sql order_db inventory_db =
     bindM (query run_sql order_db ''SHOW COLUMNS FROM orders'') (\<lambda>existing.
     bindM (each (ensure_column run_sql order_db existing) COLUMNS) (\<lambda>_.
     bindM (query run_sql order_db VERSION_UPDATE) (\<lambda>_.
       each (ensure_unique run_sql) (UNIQUE_TABLES order_db inventory_db))))"

lemma migrate_cases:
  "(\<exists>e s'. migrate run_sql schema evidence order_db inventory_db (migration_start s) = (Inl e, migration_start s')) \<or>
   (\<exists>s'. migrate run_sql schema evidence order_db inventory_db (migration_start s) = after_schema run_sql order_db inventory_db (migration_start s'))"
  by (auto simp: migrate_def after_schema_def migration_start_def split: sum.splits prod.splits)

lemma columns_logs:
  "logs_within ((\<lambda>cd. (order_db, add_column cd)) ` set COLUMNS) (each (ensure_column run_sql order_db existing) COLUMNS)"
  by (intro logs_within_each logs_within_mono [OF ensure_column_logs]) auto

lemma after_schema_logs: "logs_within (allowed_statements order_db inventory_db) (after_schema run_sql order_db inventory_db)"
  unfolding after_schema_def
  by (intro logs_within_bind logs_within_basic logs_within_each logs_within_mono [OF columns_logs]
      logs_within_mono [OF ensure_unique_logs]) (auto simp: allowed_statements_def)

lemma logs_from_start: "logs_within A f \<Longrightarrow> set (mg_log (snd (f (migration_start s)))) \<subseteq> A"
proof -
  assume "logs_within A f"
  then obtain new where "mg_log (snd (f (migration_start s))) = mg_log (migration_start s) @ new" "set new \<subseteq> A"
    unfolding logs_within_def by blast
  then show "set (mg_log (snd (f (migration_start s)))) \<subseteq> A" by (simp add: migration_start_def)
qed

text \<open>Whatever the database answers, the migration only reads, adds columns and constraints and fills the new
  version column: every statement of its log is one of fifteen fixed ones, none of which removes a table, a
  column or a row.\<close>

lemma migration_only_adds:
  "set (mg_log (snd (migrate run_sql schema evidence order_db inventory_db (migration_start s)))) \<subseteq>
     {(order_db, ''SHOW COLUMNS FROM orders''), (order_db, ''UPDATE orders SET version=0 WHERE version IS NULL'')} \<union>
     (\<lambda>(c, ty). (order_db, ''ALTER TABLE orders ADD COLUMN '' @ c @ '' '' @ ty)) ` set COLUMNS \<union>
     (\<Union>(d, t) \<in> {(order_db, ''outbox_event''), (inventory_db, ''stock_history''), (inventory_db, ''outbox_event'')}.
        {(d, ''SELECT event_id,COUNT(*) n FROM '' @ t @ '' GROUP BY event_id HAVING n>1''), (d, ''SHOW INDEX FROM '' @ t),
         (d, ''ALTER TABLE '' @ t @ '' ADD CONSTRAINT uq_'' @ t @ ''_event UNIQUE(event_id)'')})"
proof -
  have "set (mg_log (snd (migrate run_sql schema evidence order_db inventory_db (migration_start s)))) \<subseteq> allowed_statements order_db inventory_db"
    using migrate_cases [of run_sql schema evidence order_db inventory_db s]
  proof
    assume "\<exists>e s'. migrate run_sql schema evidence order_db inventory_db (migration_start s) = (Inl e, migration_start s')"
    then show ?thesis by (auto simp: migration_start_def)
  next
    assume "\<exists>s'. migrate run_sql schema evidence order_db inventory_db (migration_start s) = after_schema run_sql order_db inventory_db (migration_start s')"
    then obtain s' where "migrate run_sql schema evidence order_db inventory_db (migration_start s) = after_schema run_sql order_db inventory_db (migration_start s')" ..
    then show ?thesis by (simp only: logs_from_start [OF after_schema_logs])
  qed
  then show ?thesis
    by (simp add: allowed_statements_def VERSION_UPDATE_def add_column_def [abs_def] case_prod_unfold UNIQUE_TABLES_def
        table_statements_def duplicates_query_def index_query_def add_unique_def)
qed

section \<open>Duplicates\<close>

definition has_duplicates :: "'s client \<Rightarrow> string \<times> string \<Rightarrow> bool" where
  "has_duplicates run_sql = (\<lambda>(d, t). \<forall>s. \<exists>out. fst (run_sql s d (duplicates_query t)) = Inr out \<and> 1 < length out)"

definition refuses :: "string \<times> string \<Rightarrow> ('s, 'a) migration \<Rightarrow> bool" where
  "refuses q f \<longleftrightarrow> (\<forall>m. (\<exists>e. fst (f m) = Inl e) \<and> (q \<notin> set (mg_log m) \<longrightarrow> q \<notin> set (mg_log (snd (f m)))))"

lemma refuses_bind:
  assumes "logs_within A f" "q \<notin> A" "\<And>x. refuses q (g x)"
  shows "refuses q (bindM f g)"
proof -
  have "(\<exists>e. fst (bindM f g m) = Inl e) \<and> (q \<notin> set (mg_log m) \<longrightarrow> q \<notin> set (mg_log (snd (bindM f g m))))" for m
  proof -
    obtain r m' where f: "f m = (r, m')" by (cases "f m")
    obtain new where "mg_log (snd (f m)) = mg_log m @ new" "set new \<subseteq> A" using assms(1) unfolding logs_within_def by blast
    then have "q \<notin> set (mg_log m) \<longrightarrow> q \<notin> set (mg_log m')" using f assms(2) by auto
    then show ?thesis using f assms(3) by (cases r) (auto simp: bindM_def refuses_def)
  qed
  then show ?thesis by (simp add: refuses_def)
qed

lemma bindM_raised: "f m = (Inl e, m') \<Longrightarrow> bindM f g m = (Inl e, m')"
  by (simp add: bindM_def)

lemma refuses_first:
  assumes "refuses q f"
  shows "refuses q (bindM f g)"
  unfolding refuses_def
proof
  fix m
  obtain e m' where f: "f m = (Inl e, m')" using assms unfolding refuses_def by (metis prod.collapse)
  show "(\<exists>e. fst (bindM f g m) = Inl e) \<and> (q \<notin> set (mg_log m) \<longrightarrow> q \<notin> set (mg_log (snd (bindM f g m))))"
    using spec [OF assms [unfolded refuses_def], of m] by (simp add: f bindM_raised [of f m e m' g, OF f])
qed

lemma ensure_unique_refuses:
  fixes run_sql :: "'a client"
  assumes "has_duplicates run_sql (d, t)" "q \<noteq> (d, duplicates_query t)"
  shows "refuses q (ensure_unique run_sql (d, t))"
  unfolding refuses_def
proof
  fix m :: "'a mig"
  obtain out where "fst (run_sql (mg_db m) d (duplicates_query t)) = Inr out" "1 < length out"
    using assms(1) unfolding has_duplicates_def by auto
  then obtain s where "run_sql (mg_db m) d (duplicates_query t) = (Inr out, s)" "1 < length out"
    by (cases "run_sql (mg_db m) d (duplicates_query t)") simp
  then have "ensure_unique run_sql (d, t) m = (Inl SystemExit, \<lparr>mg_log = mg_log m @ [(d, duplicates_query t)], mg_db = s\<rparr>)"
    by (simp add: ensure_unique_def bindM_def query_def raiseM_def)
  then show "(\<exists>e. fst (ensure_unique run_sql (d, t) m) = Inl e) \<and>
      (q \<notin> set (mg_log m) \<longrightarrow> q \<notin> set (mg_log (snd (ensure_unique run_sql (d, t) m))))"
    using assms(2) by auto
qed

lemma each_refuses:
  assumes "dt \<in> set dts" "has_duplicates run_sql dt" "\<And>x. x \<in> set dts \<Longrightarrow> x \<noteq> dt \<Longrightarrow> q \<notin> table_statements x"
    and "q \<noteq> (fst dt, duplicates_query (snd dt))"
  shows "refuses q (each (ensure_unique run_sql) dts)"
  using assms(1,3)
proof (induction dts)
  case (Cons x dts)
  show ?case
  proof (cases "x = dt")
    case True
    then show ?thesis
      using ensure_unique_refuses [of run_sql "fst dt" "snd dt" q] assms(2,4) by (auto intro: refuses_first)
  next
    case False
    have "q \<notin> table_statements x" by (rule Cons.prems(2) [OF list.set_intros(1) False])
    moreover have "refuses q (each (ensure_unique run_sql) dts)"
      by (rule Cons.IH) (use Cons.prems(1) False in simp, rule Cons.prems(2), auto)
    ultimately show ?thesis unfolding each.simps by (rule refuses_bind [OF ensure_unique_logs])
  qed
qed simp

lemma add_unique_distinct:
  "add_unique t \<noteq> ''SHOW COLUMNS FROM orders''" "add_unique t \<noteq> VERSION_UPDATE" "add_unique t \<noteq> duplicates_query t'"
  "add_unique t \<noteq> index_query t'"
  by (simp_all add: add_unique_def VERSION_UPDATE_def duplicates_query_def index_query_def)

lemma add_unique_no_column:
  "add_unique ''outbox_event'' \<noteq> add_column cd" "add_unique ''stock_history'' \<noteq> add_column cd"
  by (simp_all add: add_unique_def add_column_def)

lemma add_unique_tables: "add_unique ''outbox_event'' \<noteq> add_unique ''stock_history''"
  by (simp add: add_unique_def)

lemma unique_tables_cases:
  assumes "dt \<in> set (UNIQUE_TABLES order_db inventory_db)"
  obtains "dt = (order_db, ''outbox_event'')" | "dt = (inventory_db, ''stock_history'')" | "dt = (inventory_db, ''outbox_event'')"
  using assms unfolding UNIQUE_TABLES_def by (simp only: list.set insert_iff empty_iff) blast

lemma add_unique_other:
  assumes "dt \<in> set (UNIQUE_TABLES order_db inventory_db)" "x \<in> set (UNIQUE_TABLES order_db inventory_db)" "x \<noteq> dt"
  shows "(fst dt, add_unique (snd dt)) \<notin> table_statements x"
  using assms
  by (elim unique_tables_cases)
    (simp_all only: table_statements_def split fst_conv snd_conv insert_iff empty_iff prod.inject add_unique_distinct add_unique_tables
      add_unique_tables [symmetric] simp_thms)

lemma after_schema_refuses:
  assumes "dt \<in> set (UNIQUE_TABLES order_db inventory_db)" "has_duplicates run_sql dt"
  shows "refuses (fst dt, add_unique (snd dt)) (after_schema run_sql order_db inventory_db)"
proof -
  let ?q = "(fst dt, add_unique (snd dt))"
  have column: "?q \<notin> (\<lambda>cd. (order_db, add_column cd)) ` set COLUMNS"
    using assms(1) by (elim unique_tables_cases) (auto simp: add_unique_no_column)
  have "refuses ?q (each (ensure_unique run_sql) (UNIQUE_TABLES order_db inventory_db))"
    by (rule each_refuses [OF assms add_unique_other [OF assms(1)]]) (simp_all add: add_unique_distinct)
  then show ?thesis
    unfolding after_schema_def
    by (intro refuses_bind [OF logs_within_basic(3) [OF insertI1, of _ _ "{}"]] refuses_bind [OF columns_logs column])
      (simp_all add: add_unique_distinct)
qed

lemma refuses_from_start:
  "refuses q f \<Longrightarrow> (\<exists>e. fst (f (migration_start s)) = Inl e) \<and> q \<notin> set (mg_log (snd (f (migration_start s))))"
  unfolding refuses_def by (simp add: migration_start_def)

text \<open>C37: Existing duplicates stop the migration before it constrains their table: as long as the client reports
  duplicate event IDs in one of the three tables, the migration ends with an exception and the log has no
  statement that adds the constraint to that table.\<close>

theorem migration_fails_closed:
  assumes "(d, t) \<in> set (UNIQUE_TABLES order_db inventory_db)" and "has_duplicates run_sql (d, t)"
  shows "(\<exists>e. fst (migrate run_sql schema evidence order_db inventory_db (migration_start s)) = Inl e) \<and>
    (d, add_unique t) \<notin> set (mg_log (snd (migrate run_sql schema evidence order_db inventory_db (migration_start s))))"
  using migrate_cases [of run_sql schema evidence order_db inventory_db s]
proof
  assume "\<exists>e s'. migrate run_sql schema evidence order_db inventory_db (migration_start s) = (Inl e, migration_start s')"
  then show ?thesis by (auto simp: migration_start_def)
next
  assume "\<exists>s'. migrate run_sql schema evidence order_db inventory_db (migration_start s) = after_schema run_sql order_db inventory_db (migration_start s')"
  then obtain s' where *: "migrate run_sql schema evidence order_db inventory_db (migration_start s) = after_schema run_sql order_db inventory_db (migration_start s')" ..
  show ?thesis
    unfolding * using refuses_from_start [OF after_schema_refuses [OF assms], of s'] by simp
qed

text \<open>A client that answers every query with a header and one row: duplicates in every table.\<close>

definition duplicated_client :: "unit client" where
  "duplicated_client s d statement = (Inr [''event_id'', ''e1''], s)"

theorem migration_fails_closed_witness:
  "(\<exists>e. fst (migrate duplicated_client (\<lambda>s. (Inr (), s)) (Inr [''tmp'']) ''order_db'' ''inventory_db'' (migration_start ())) = Inl e) \<and>
   (''inventory_db'', add_unique ''stock_history'') \<notin>
     set (mg_log (snd (migrate duplicated_client (\<lambda>s. (Inr (), s)) (Inr [''tmp'']) ''order_db'' ''inventory_db'' (migration_start ()))))"
proof (rule migration_fails_closed)
  show "(''inventory_db'', ''stock_history'') \<in> set (UNIQUE_TABLES ''order_db'' ''inventory_db'')" by (simp add: UNIQUE_TABLES_def)
  show "has_duplicates duplicated_client (''inventory_db'', ''stock_history'')"
    by (simp add: has_duplicates_def duplicated_client_def)
qed

end
