(* ===== verification/Comparison.thy ===== *)
theory Comparison
  imports Completion_Audit Run_Report Suite Migration
begin

text \<open>
  The reports over the indexed runs of the older runner: \<open>experiments/comparison_report.py\<close>,
  \<open>experiments/sweep_report.py\<close> and the rows of \<open>experiments/ops_report.py\<close>. The figures that go into
  \<open>comparison.json\<close>, \<open>sweep.json\<close> and \<open>ops.json\<close> are modelled; the tables printed from them are text.
\<close>

section \<open>Indexed runs\<close>

record case_metrics =
  cm_passed :: bool                                   \<comment> \<open>\<open>checker.passed\<close>\<close>
  cm_latency :: "latency_row list"                    \<comment> \<open>the normal sellers, then the slow one\<close>
  cm_slowDrainAfterInputMs :: "int option"
  cm_externalRequests :: "int option"
  cm_retryTopicRecords :: "int option"
  cm_workloadCpuNanos :: "int option"
  cm_deliveredEventsPerSecond :: "rat option"
  cm_peakCommittedRemaining :: "int option"
  cm_gcMillis :: "int option"
  cm_producerLatencyPeak :: "rat option"
  cm_hosts :: "(string \<times> host_report option) list"   \<comment> \<open>\<open>hosts or {}\<close>\<close>
  cm_mysql :: "mysql_report option"

text \<open>The part of \<open>summary.json\<close> that the reports read; \<open>passed\<close> is the checker's verdict stored with it.\<close>

definition case_metrics_of :: "run_metrics \<Rightarrow> bool \<Rightarrow> case_metrics" where
  "case_metrics_of m passed = \<lparr>cm_passed = passed, cm_latency = rm_latency m, cm_slowDrainAfterInputMs = rm_slowDrainAfterInputMs m,
     cm_externalRequests = Some (int (rm_externalRequests m)), cm_retryTopicRecords = rm_retryTopicRecords m,
     cm_workloadCpuNanos = rm_workloadCpuNanos m, cm_deliveredEventsPerSecond = rm_deliveredEventsPerSecond m,
     cm_peakCommittedRemaining = rm_peakCommittedRemaining m, cm_gcMillis = rm_gcMillis m,
     cm_producerLatencyPeak = rm_producerLatencyPeak m,
     cm_hosts = get_or [] (map_option fst (rm_usage m)), cm_mysql = map_option snd (rm_usage m)\<rparr>"

record indexed_run =
  ix_run :: string
  ix_settings :: settings
  ix_metrics :: case_metrics
  ix_attempts :: "attempt_row list"                        \<comment> \<open>\<open>remote.json\<close>\<close>
  ix_writes :: "(string list \<times> string list) option"  \<comment> \<open>\<open>COUNT_WRITE\<close> before and after, \<open>None\<close> without the file\<close>

definition has_setting :: "indexed_run \<Rightarrow> string \<Rightarrow> setting \<Rightarrow> bool" where
  "has_setting x k v \<longleftrightarrow> map_of (ix_settings x) k = Some v"

definition setting_or :: "setting \<Rightarrow> indexed_run \<Rightarrow> string \<Rightarrow> setting" where
  "setting_or d x k = get_or d (map_of (ix_settings x) k)"

section \<open>The comparison\<close>

definition COMPARISON_MODES :: "string list" where
  "COMPARISON_MODES = [''sequential'', ''async'', ''circuit-breaker'', ''parallel-consumer'', ''retry-topic'', ''inbox'',
     ''inbox-batch'', ''inbox-lean'']"

definition SLO_MS :: int where
  "SLO_MS = 1500"

definition comparison_runs :: "indexed_run list \<Rightarrow> string \<Rightarrow> string \<Rightarrow> string \<Rightarrow> nat \<Rightarrow> indexed_run list" where
  "comparison_runs items mode scenario workload partitions =
     last_three (filter (\<lambda>x. has_setting x ''mode'' (SText mode) \<and> has_setting x ''scenario'' (SText scenario) \<and>
       setting_or (SText ''pair'') x ''workload'' = SText workload \<and> setting_or (SNumber 1) x ''partitions'' = SNumber partitions \<and>
       setting_or (SFlag True) x ''observe'' = SFlag True \<and> cm_passed (ix_metrics x)) items)"

text \<open>The values that are there; \<open>statistics.median\<close> of them, which does not raise as there is one.\<close>

definition known :: "'a option list \<Rightarrow> 'a list" where
  "known vs = List.map_filter (\<lambda>v. v) vs"

definition known_median :: "rat option list \<Rightarrow> rat option result" where
  "known_median vs = (if known vs = [] then Inr None else bindR (median (known vs)) (\<lambda>m. Inr (Some m)))"

definition int_median :: "int option list \<Rightarrow> rat option result" where
  "int_median vs = known_median (map (map_option of_int) vs)"

text \<open>One sweep over the calls of both groups, the slow seller and the others.\<close>

type_synonym group_change = "int \<times> int \<times> bool"

definition group_changes :: "attempt_row list \<Rightarrow> group_change list" where
  "group_changes rows = concat (map (\<lambda>r. let slow = (ar_seller_id r = ''slow'')
     in [(ar_start_at r, 1, slow), (or_else (ar_end_at r) (ar_start_at r), -1, slow)]) rows)"

fun group_sweep :: "int \<times> int \<Rightarrow> int \<times> int \<Rightarrow> group_change list \<Rightarrow> int \<times> int" where
  "group_sweep current peak [] = peak"
| "group_sweep (s, n) (ps, pn) ((_, delta, slow) # cs) =
     (if slow then group_sweep (s + delta, n) (max ps (s + delta), pn) cs
      else group_sweep (s, n + delta) (ps, max pn (n + delta)) cs)"

definition peak_concurrency :: "attempt_row list \<Rightarrow> int \<times> int" where
  "peak_concurrency rows = group_sweep (0, 0) (0, 0) (sort_key (\<lambda>c. (fst c, fst (snd c))) (group_changes rows))"

definition db_writes :: "indexed_run \<Rightarrow> int option result" where
  "db_writes x =
     (case ix_writes x of
        None \<Rightarrow> Inr None
      | Some (before, after) \<Rightarrow>
          bindR (mapR parse_int after) (\<lambda>a. bindR (mapR parse_int before) (\<lambda>b. Inr (Some (sum_list a - sum_list b)))))"

record case_summary =
  cs_runs :: "string list"
  cs_normalP99 :: "int option list"
  cs_normalP99Median :: "rat option"
  cs_normalSamples :: nat
  cs_sloPassed :: nat
  cs_slowP99Median :: "rat option"
  cs_slowDrainAfterInputMsMedian :: "rat option"
  cs_peakSlowCalls :: int
  cs_externalRequestsMedian :: "rat option"
  cs_retryTopicRecordsMedian :: "rat option"
  cs_partnerDbWritesMedian :: "rat option"
  cs_cpuSecondsMedian :: "rat option"

definition latency_p99 :: "nat \<Rightarrow> indexed_run \<Rightarrow> int option result" where
  "latency_p99 i x = bindR (py_get (cm_latency (ix_metrics x)) i) (\<lambda>r. Inr (lr_p99Ms r))"

text \<open>\<open>v <= SLO_MS\<close> raises when there is no percentile.\<close>

definition slo_count :: "int option list \<Rightarrow> nat result" where
  "slo_count vs =
     bindR (mapR (\<lambda>v. case v of None \<Rightarrow> Inl TypeError | Some p \<Rightarrow> Inr p) vs) (\<lambda>ps.
       Inr (length (filter (\<lambda>p. p \<le> SLO_MS) ps)))"

definition cpu_seconds :: "indexed_run \<Rightarrow> rat option" where
  "cpu_seconds x = (let n = cm_workloadCpuNanos (ix_metrics x)
     in if truthy n then Some (fl (of_int (get_or 0 n) / 1000000000)) else None)"

definition summarize_cases :: "indexed_run list \<Rightarrow> case_summary option result" where
  "summarize_cases cases =
     (case cases of [] \<Rightarrow> Inr None | c0 # _ \<Rightarrow>
        bindR (mapR (latency_p99 0) cases) (\<lambda>normal.
        bindR (int_median normal) (\<lambda>normal_median.
        bindR (py_get (cm_latency (ix_metrics c0)) 0) (\<lambda>row0.
        bindR (slo_count normal) (\<lambda>passed.
        bindR (mapR (latency_p99 1) cases) (\<lambda>slow.
        bindR (int_median slow) (\<lambda>slow_median.
        bindR (int_median (map (\<lambda>c. cm_slowDrainAfterInputMs (ix_metrics c)) cases)) (\<lambda>drain.
        bindR (int_median (map (\<lambda>c. cm_externalRequests (ix_metrics c)) cases)) (\<lambda>requests.
        bindR (int_median (map (\<lambda>c. cm_retryTopicRecords (ix_metrics c)) cases)) (\<lambda>records.
        bindR (mapR db_writes cases) (\<lambda>writes.
        bindR (int_median writes) (\<lambda>writes_median.
        bindR (known_median (map cpu_seconds cases)) (\<lambda>cpu.
          Inr (Some \<lparr>cs_runs = map ix_run cases, cs_normalP99 = normal, cs_normalP99Median = normal_median,
            cs_normalSamples = lr_samples row0, cs_sloPassed = passed, cs_slowP99Median = slow_median,
            cs_slowDrainAfterInputMsMedian = drain,
            cs_peakSlowCalls = max_default 0 (map (\<lambda>c. fst (peak_concurrency (ix_attempts c))) cases),
            cs_externalRequestsMedian = requests, cs_retryTopicRecordsMedian = records,
            cs_partnerDbWritesMedian = writes_median, cs_cpuSecondsMedian = cpu\<rparr>))))))))))))))"

record correctness =
  cr_runs :: nat
  cr_passed :: nat
  cr_scenarios :: "string list"

text \<open>The scenario, with the boundary of an end-to-end run. Both are texts where they are set.\<close>

definition scenario_label :: "indexed_run \<Rightarrow> string result" where
  "scenario_label x =
     (case map_of (ix_settings x) ''scenario'' of
        Some (SText sc) \<Rightarrow> Inr (case map_of (ix_settings x) ''boundary'' of
            Some (SText b) \<Rightarrow> if b = [] then sc else sc @ ''/'' @ b
          | _ \<Rightarrow> sc)
      | _ \<Rightarrow> Inl TypeError)"

definition correctness_of :: "indexed_run list \<Rightarrow> string \<Rightarrow> correctness result" where
  "correctness_of items mode =
     (let checks = filter (\<lambda>x. has_setting x ''mode'' (SText mode) \<and>
            map_of (ix_settings x) ''scenario'' \<notin> {Some (SText ''api''), Some (SText ''clean''), Some (SText ''hang'')}) items
      in bindR (mapR scenario_label checks) (\<lambda>labels. Inr
        \<lparr>cr_runs = length checks, cr_passed = length (filter (\<lambda>x. cm_passed (ix_metrics x)) checks),
         cr_scenarios = sort (remdups labels)\<rparr>))"

record comparison_row =
  cw_mode :: string
  cw_pair :: "case_summary option"
  cw_market1 :: "case_summary option"
  cw_market4 :: "case_summary option"
  cw_hang :: "case_summary option"
  cw_correctness :: correctness

definition comparison_row_of :: "indexed_run list \<Rightarrow> string \<Rightarrow> comparison_row result" where
  "comparison_row_of items mode =
     bindR (summarize_cases (comparison_runs items mode ''api'' ''pair'' 1)) (\<lambda>pair.
     bindR (summarize_cases (comparison_runs items mode ''api'' ''market'' 1)) (\<lambda>m1.
     bindR (summarize_cases (comparison_runs items mode ''api'' ''market'' 4)) (\<lambda>m4.
     bindR (summarize_cases (comparison_runs items mode ''hang'' ''market'' 4)) (\<lambda>hang.
     bindR (correctness_of items mode) (\<lambda>cr. Inr
       \<lparr>cw_mode = mode, cw_pair = pair, cw_market1 = m1, cw_market4 = m4, cw_hang = hang, cw_correctness = cr\<rparr>)))))"

definition comparison :: "indexed_run list \<Rightarrow> comparison_row list result" where
  "comparison items = mapR (comparison_row_of items) COMPARISON_MODES"

section \<open>What the comparison's figures mean\<close>

definition change_point :: "group_change \<Rightarrow> point" where
  "change_point c = (fst c, fst (snd c))"

lemma group_sweep_split:
  "group_sweep (s, n) (ps, pn) cs =
     (sweep_peak s ps (map change_point (filter (\<lambda>c. snd (snd c)) cs)),
      sweep_peak n pn (map change_point (filter (\<lambda>c. \<not> snd (snd c)) cs)))"
  by (induction cs arbitrary: s n ps pn) (auto simp: change_point_def)

lemma group_changes_filter:
  "filter (\<lambda>c. snd (snd c) = v) (group_changes rows) = group_changes (filter (\<lambda>r. (ar_seller_id r = ''slow'') = v) rows)"
  by (induction rows) (auto simp: group_changes_def Let_def)

lemma group_changes_points:
  "map change_point (sort_key (\<lambda>c. (fst c, fst (snd c))) (group_changes rows)) = overlap_points (map closed_interval rows)"
proof (rule sorted_points_unique)
  have "map change_point (group_changes rows) = concat (map (\<lambda>(s, e). [(s, 1), (e, -1)]) (map closed_interval rows))"
    by (induction rows) (auto simp: group_changes_def closed_interval_def change_point_def Let_def)
  then show "mset (map change_point (sort_key (\<lambda>c. (fst c, fst (snd c))) (group_changes rows))) =
      mset (overlap_points (map closed_interval rows))"
    unfolding overlap_points_def mset_sort mset_map by (metis mset_map)
qed (simp_all add: change_point_def [abs_def] check_overlap.points_sorted)

lemma peak_concurrency_overlap:
  "peak_concurrency rows =
     (max_overlap (map closed_interval (filter (\<lambda>r. ar_seller_id r = ''slow'') rows)),
      max_overlap (map closed_interval (filter (\<lambda>r. ar_seller_id r \<noteq> ''slow'') rows)))"
proof -
  let ?cs = "sort_key (\<lambda>c. (fst c, fst (snd c))) (group_changes rows)"
  have "map change_point (filter (\<lambda>c. snd (snd c) = v) ?cs) =
      overlap_points (map closed_interval (filter (\<lambda>r. (ar_seller_id r = ''slow'') = v) rows))" for v
    by (simp only: filter_sort group_changes_filter group_changes_points)
  from this [of True] this [of False] show ?thesis
    unfolding peak_concurrency_def group_sweep_split max_overlap_def by simp
qed

lemma slow_peak: "get_or 0 (map_of (peak_per_seller attempts) ''slow'') = fst (peak_concurrency attempts)"
proof -
  have "map_of (peak_per_seller attempts) ''slow'' =
      map_option max_overlap (map_of (group_by ar_seller_id closed_interval attempts) ''slow'')"
    unfolding peak_per_seller_overlap peaks_def by (simp add: map_of_map)
  also have "\<dots> = (if requests_of ''slow'' attempts = [] then None
      else Some (max_overlap (map closed_interval (requests_of ''slow'' attempts))))"
  proof (cases "''slow'' \<in> ar_seller_id ` set attempts")
    case True
    then show ?thesis by (auto simp: group_by_lookup requests_of_def filter_empty_conv)
  next
    case False
    then have "requests_of ''slow'' attempts = []" by (force simp: requests_of_def filter_empty_conv)
    then show ?thesis using False by (simp add: group_by_lookup)
  qed
  finally show ?thesis
    by (simp add: peak_concurrency_overlap requests_of_def max_overlap_def overlap_points_def)
qed

text \<open>C24: The four scripts that report concurrent calls agree. The peak of the slow seller in the comparison, the
  peak that \<open>verify_budgets.py\<close> judges and the entry of \<open>ops_report.py\<close> are one number, for any calls, and the
  other group's figure is the largest number of calls to normal sellers open at once, as the sweep of
  \<open>isolation/check.py\<close> finds it.\<close>

theorem peak_concurrency_agrees:
  "fst (peak_concurrency attempts) = external_peak (requests_of ''slow'' attempts) \<and>
   fst (peak_concurrency attempts) = get_or 0 (map_of (peak_per_seller attempts) ''slow'') \<and>
   snd (peak_concurrency attempts) = max_overlap (map closed_interval (filter (\<lambda>a. ar_seller_id a \<noteq> ''slow'') attempts))"
  by (simp add: slow_peak peak_concurrency_overlap external_peak_overlap requests_of_def)

lemma known_Some [simp]: "known (map Some xs) = xs"
  by (induction xs) (simp_all add: known_def map_filter_simps)

lemma slo_count_value:
  assumes "slo_count vs = Inr n"
  obtains ps where "vs = map Some ps" "n = length (filter (\<lambda>p. p \<le> SLO_MS) ps)"
proof -
  obtain ps where ps: "mapR (\<lambda>v. case v of None \<Rightarrow> Inl TypeError | Some p \<Rightarrow> Inr p) vs = Inr ps"
      "n = length (filter (\<lambda>p. p \<le> SLO_MS) ps)"
    using assms by (auto simp: slo_count_def bindR_Inr_iff)
  have "vs = map Some ps" using ps(1)
    by (induction vs arbitrary: ps) (auto simp: bindR_Inr_iff split: option.splits)
  then show ?thesis using ps(2) by (rule that)
qed

lemma median_of_three:
  "median [of_int a, of_int b, of_int c] = Inr m \<Longrightarrow>
     m \<le> of_int t \<longleftrightarrow> 2 \<le> length (filter (\<lambda>p. p \<le> t) [a, b, c])"
  by (auto simp: median_def Let_def insort_key.simps split: if_splits)

text \<open>The median column and the count of passed runs of the comparison never contradict each other: for the three
  runs of a cell, the median p99 of the normal sellers keeps the 1500 ms exactly when at least two runs do.\<close>

lemma comparison_median_consistent:
  assumes "summarize_cases cases = Inr (Some s)" and "length cases = 3"
  shows "\<exists>m. cs_normalP99Median s = Some m \<and> (m \<le> 1500) = (2 \<le> cs_sloPassed s) \<and> cs_sloPassed s \<le> 3 \<and>
    cs_runs s = map ix_run cases"
proof -
  obtain normal where n: "mapR (latency_p99 0) cases = Inr normal" "int_median normal = Inr (cs_normalP99Median s)"
      "slo_count normal = Inr (cs_sloPassed s)" "cs_runs s = map ix_run cases"
    using assms(1) by (auto simp: summarize_cases_def bindR_Inr_iff split: list.splits)
  obtain ps where ps: "normal = map Some ps" "cs_sloPassed s = length (filter (\<lambda>p. p \<le> SLO_MS) ps)"
    by (rule slo_count_value [OF n(3)])
  have "length ps = 3" using n(1) ps(1) assms(2) by (auto simp: mapR_Inr_iff dest: list_all2_lengthD)
  then obtain a b c where abc: "ps = [a, b, c]" by (auto simp: numeral_3_eq_3 length_Suc_conv)
  have "known (map (map_option of_int) normal) = [of_int a, of_int b, of_int c :: rat]"
    unfolding ps(1) abc by (simp add: known_def map_filter_simps)
  then obtain m where m: "median [of_int a, of_int b, of_int c] = Inr m" "cs_normalP99Median s = Some m"
    using n(2) by (auto simp: int_median_def known_median_def bindR_Inr_iff)
  have "m \<le> of_int SLO_MS \<longleftrightarrow> 2 \<le> cs_sloPassed s" using median_of_three [OF m(1)] by (simp add: ps(2) abc)
  moreover have "cs_sloPassed s \<le> 3" using length_filter_le [of _ ps] \<open>length ps = 3\<close> by (simp add: ps(2))
  ultimately show ?thesis using m(2) n(4) by (simp add: SLO_MS_def)
qed

definition sample_metrics :: "int \<Rightarrow> case_metrics" where
  "sample_metrics p = \<lparr>cm_passed = True,
     cm_latency = [\<lparr>lr_slow = False, lr_p50Ms = Some 10, lr_p95Ms = Some 20, lr_p99Ms = Some p, lr_maxMs = p, lr_samples = 720\<rparr>,
       \<lparr>lr_slow = True, lr_p50Ms = Some 900, lr_p95Ms = Some 5000, lr_p99Ms = Some 6000, lr_maxMs = 6100, lr_samples = 180\<rparr>],
     cm_slowDrainAfterInputMs = None, cm_externalRequests = Some 900, cm_retryTopicRecords = None, cm_workloadCpuNanos = Some 0,
     cm_deliveredEventsPerSecond = None, cm_peakCommittedRemaining = None, cm_gcMillis = None, cm_producerLatencyPeak = None,
     cm_hosts = [], cm_mysql = None\<rparr>"

definition sample_run :: "string \<Rightarrow> int \<Rightarrow> indexed_run" where
  "sample_run name p = \<lparr>ix_run = name, ix_settings = case_dict ((case_of ''inbox'' ''api'' 1)\<lparr>ca_workload := ''market'', ca_partitions := 4\<rparr>),
     ix_metrics = sample_metrics p, ix_attempts = [attempt_row_of 1 10 20 first_event], ix_writes = None\<rparr>"

lemma comparison_median_consistent_witness:
  "\<exists>s m. summarize_cases [sample_run ''r1'' 900, sample_run ''r2'' 1700, sample_run ''r3'' 1200] = Inr (Some s) \<and>
     cs_normalP99Median s = Some m \<and> (m \<le> 1500) = (2 \<le> cs_sloPassed s) \<and> cs_runs s = [''r1'', ''r2'', ''r3'']"
proof -
  let ?cs = "[sample_run ''r1'' 900, sample_run ''r2'' 1700, sample_run ''r3'' 1200]"
  have "case summarize_cases ?cs of Inr (Some _) \<Rightarrow> True | _ \<Rightarrow> False" by code_simp
  then obtain s where s: "summarize_cases ?cs = Inr (Some s)" by (auto split: sum.splits option.splits)
  from comparison_median_consistent [OF this] have "\<exists>m. cs_normalP99Median s = Some m \<and> (m \<le> 1500) = (2 \<le> cs_sloPassed s) \<and>
      cs_runs s = map ix_run ?cs" by auto
  then show ?thesis using s by (auto simp: sample_run_def)
qed

text \<open>The comparison counts a run whose p99 is 0 as passed; \<open>measuredNormalSloPassed\<close> of the run itself does not.\<close>

lemma slo_verdicts_differ_at_zero:
  "slo_passed r \<longleftrightarrow> slo_count [lr_p99Ms r] = Inr 1 \<and> lr_p99Ms r \<noteq> Some 0"
  by (auto simp: slo_passed_def slo_count_def SLO_MS_def split: option.splits)

section \<open>From a run's report to the comparison\<close>

lemma known_median_total: "\<exists>m. known_median vs = Inr m"
  by (simp add: known_median_def median_def Let_def)

lemma slo_count_total: "list_all (\<lambda>v. v \<noteq> None) vs \<Longrightarrow> \<exists>n. slo_count vs = Inr n"
  unfolding slo_count_def by (intro bindR_exists mapR_exists) (auto simp: list_all_iff split: option.splits)

lemma normal_p99_known:
  assumes "latency_rows effs = Inr rows" "\<exists>e \<in> set effs. er_seller_id e \<noteq> ''slow''"
  shows "length rows = 2 \<and> lr_p99Ms (rows ! 0) \<noteq> None"
proof -
  obtain r0 r1 where r: "latency_row_of effs False = Inr r0" "rows = [r0, r1]"
    using assms(1) by (auto simp: latency_rows_def bindR_Inr_iff)
  have "effect_latencies False effs \<noteq> []" using assms(2) by (auto simp: effect_latencies_def filter_empty_conv)
  moreover obtain v where "percentile (effect_latencies False effs) q99 = Inr v" "lr_p99Ms r0 = v"
    using r(1) by (auto simp: latency_row_of_def Let_def bindR_Inr_iff)
  ultimately have "lr_p99Ms r0 \<noteq> None" by (auto simp: percentile_def bindR_Inr_iff dest: sym)
  then show ?thesis using r(2) by simp
qed

lemma report_latency: "report_case ev = Inr m \<Longrightarrow> latency_rows (cv_effects ev) = Inr (rm_latency m)"
  by (auto simp: report_case_def Let_def bindR_Inr_iff)

definition reported :: "indexed_run \<Rightarrow> bool" where
  "reported x \<longleftrightarrow> (\<exists>ev m. report_case ev = Inr m \<and> ix_metrics x = case_metrics_of m True \<and>
     (\<exists>e \<in> set (cv_effects ev). er_seller_id e \<noteq> ''slow''))"

lemma reported_latency:
  assumes "reported x"
  shows "\<exists>p. latency_p99 0 x = Inr (Some p)" "\<exists>v. latency_p99 1 x = Inr v" "\<exists>r. py_get (cm_latency (ix_metrics x)) 0 = Inr r"
proof -
  obtain ev m where m: "report_case ev = Inr m" "ix_metrics x = case_metrics_of m True"
      "\<exists>e \<in> set (cv_effects ev). er_seller_id e \<noteq> ''slow''"
    using assms by (auto simp: reported_def)
  have "length (rm_latency m) = 2" "lr_p99Ms (rm_latency m ! 0) \<noteq> None"
    using normal_p99_known [OF report_latency [OF m(1)] m(3)] by auto
  then show "\<exists>p. latency_p99 0 x = Inr (Some p)" "\<exists>v. latency_p99 1 x = Inr v" "\<exists>r. py_get (cm_latency (ix_metrics x)) 0 = Inr r"
    by (auto simp: latency_p99_def m(2) case_metrics_of_def py_get_def)
qed

text \<open>Cases that ran through the runner's own report, with at least one effect of a normal seller, are summarized
  without an exception: the missing percentile that would raise cannot occur there.\<close>

lemma reported_cases_summarized:
  assumes "\<forall>x \<in> set cases. reported x \<and> (\<exists>v. db_writes x = Inr v)"
  shows "\<exists>r. summarize_cases cases = Inr r"
proof (cases cases)
  case (Cons c0 rest)
  have med: "\<exists>m. int_median vs = Inr m" for vs unfolding int_median_def by (rule known_median_total)
  have "\<exists>v. mapR (latency_p99 0) cases = Inr v" using assms reported_latency(1) by (intro mapR_exists) blast
  then obtain normal where normal: "mapR (latency_p99 0) cases = Inr normal" ..
  have "list_all (\<lambda>v. v \<noteq> None) normal"
    unfolding list_all_iff
  proof
    fix v
    assume "v \<in> set normal"
    then obtain x where x: "x \<in> set cases" "latency_p99 0 x = Inr v" using mapR_range [OF normal] by blast
    obtain p where "latency_p99 0 x = Inr (Some p)" using assms x(1) reported_latency(1) by blast
    then show "v \<noteq> None" using x(2) by simp
  qed
  then have slo: "\<exists>n. slo_count normal = Inr n" by (rule slo_count_total)
  have row0: "\<exists>r. py_get (cm_latency (ix_metrics c0)) 0 = Inr r" using assms Cons reported_latency(3) by simp
  have slow: "\<exists>v. mapR (latency_p99 1) cases = Inr v" using assms reported_latency(2) by (intro mapR_exists) blast
  have writes: "\<exists>v. mapR db_writes cases = Inr v" using assms by (intro mapR_exists) blast
  show ?thesis
    unfolding summarize_cases_def Cons list.case unfolding Cons [symmetric] normal bindR_simps
    by (intro bindR_exists med slo row0 slow writes known_median_total) simp
qed (simp add: summarize_cases_def)

end
