(* ===== verification/Sweep_Report.thy ===== *)
theory Sweep_Report
  imports Comparison
begin

text \<open>
  The throughput sweep, \<open>experiments/sweep_report.py\<close>: one cell per structure and input rate, with the raw values
  of its runs and the medians of the resources. And the rows of \<open>experiments/ops_report.py\<close>: restarts and
  scale-outs, and the inbox's own backlog signal against the truth. Printed tables are text.
\<close>

section \<open>Cells\<close>

definition SWEEP_MODES :: "string list" where
  "SWEEP_MODES = [''sequential'', ''async'', ''parallel-consumer'', ''retry-topic'', ''inbox'', ''inbox-batch'', ''inbox-lean'']"

definition rate_of :: "indexed_run \<Rightarrow> setting option" where
  "rate_of x = map_of (ix_settings x) ''targetEventsPerSecond''"

text \<open>\<open>cases(mode, scenario, rate)\<close>: no rate selects every rate.\<close>

definition sweep_cases :: "indexed_run list \<Rightarrow> string \<Rightarrow> string \<Rightarrow> setting option \<Rightarrow> indexed_run list" where
  "sweep_cases items mode scenario rate =
     filter (\<lambda>x. has_setting x ''mode'' (SText mode) \<and> has_setting x ''scenario'' (SText scenario) \<and>
       has_setting x ''workload'' (SText ''sweep'') \<and> (rate = None \<or> rate_of x = rate)) items"

definition clean_sweeps :: "indexed_run list \<Rightarrow> indexed_run list" where
  "clean_sweeps items = filter (\<lambda>x. has_setting x ''workload'' (SText ''sweep'') \<and> has_setting x ''scenario'' (SText ''clean'')) items"

text \<open>\<open>sorted({...})\<close> of the rates: numbers are ordered, one value of any kind needs no comparison, other mixtures raise.\<close>

definition number_of :: "setting option \<Rightarrow> nat result" where
  "number_of v = (case v of Some (SNumber n) \<Rightarrow> Inr n | _ \<Rightarrow> Inl TypeError)"

definition sweep_rates :: "indexed_run list \<Rightarrow> setting option list result" where
  "sweep_rates items =
     (let vs = remdups (map rate_of (clean_sweeps items))
      in if length vs \<le> 1 then Inr vs
         else bindR (mapR number_of vs) (\<lambda>ns. Inr (map (\<lambda>n. Some (SNumber n)) (sort ns))))"

definition host_figure :: "string \<Rightarrow> (host_report \<Rightarrow> 'a option) \<Rightarrow> indexed_run \<Rightarrow> 'a option" where
  "host_figure name f x = Option.bind (Option.bind (map_of (cm_hosts (ix_metrics x)) name) (\<lambda>r. r)) f"

definition disk_figure :: "(rat option \<times> rat option \<times> rat option \<Rightarrow> rat option) \<Rightarrow> host_report \<Rightarrow> rat option" where
  "disk_figure f r = Option.bind (ho_disk r) f"

definition kafka_cpu :: "indexed_run \<Rightarrow> rat option" where
  "kafka_cpu x =
     (let vs = map ho_cpuBusy (known (map snd (filter (\<lambda>kv. take 5 (fst kv) = ''kafka'') (cm_hosts (ix_metrics x)))))
      in if vs = [] then None else Some (Max (set vs)))"

definition mysql_figure :: "(mysql_report \<Rightarrow> 'a option) \<Rightarrow> indexed_run \<Rightarrow> 'a option" where
  "mysql_figure f x = Option.bind (cm_mysql (ix_metrics x)) f"

definition statement_us :: "string \<Rightarrow> mysql_report \<Rightarrow> rat option" where
  "statement_us name r = Option.bind (map_of (mr_statements r) name) snd"

record sweep_cell =
  sc_mode :: string
  sc_rate :: "setting option"
  sc_runs :: "string list"
  sc_delivered :: "rat option list"
  sc_p50 :: "int option list"
  sc_p99 :: "int option list"
  sc_peakLag :: "int option list"
  sc_partnerCpu :: "rat option"
  sc_mysqlCpu :: "rat option"
  sc_kafkaCpuMax :: "rat option"
  sc_stealMax :: rat
  sc_mysqlDiskWriteLatencyMs :: "rat option"
  sc_mysqlDiskWritesPerSecond :: "rat option"
  sc_commitsPerSecond :: "rat option"
  sc_questionsPerSecond :: "rat option"
  sc_insertAvgUs :: "rat option"
  sc_updateAvgUs :: "rat option"
  sc_commitAvgUs :: "rat option"
  sc_redoFsyncs :: "rat option"
  sc_redoMiscAvgUs :: "rat option"
  sc_gcMillis :: "rat option"
  sc_producerLatencyPeakMs :: "rat option"

definition latency_p50 :: "nat \<Rightarrow> indexed_run \<Rightarrow> int option result" where
  "latency_p50 i x = bindR (py_get (cm_latency (ix_metrics x)) i) (\<lambda>r. Inr (lr_p50Ms r))"

text \<open>The medians of a cell raise nothing (\<open>known_median_total\<close> below), so they are read with \<open>median_or_none\<close>.\<close>

definition median_or_none :: "rat option list \<Rightarrow> rat option" where
  "median_or_none vs = (case known_median vs of Inl _ \<Rightarrow> None | Inr m \<Rightarrow> m)"

definition sweep_cell_of :: "string \<Rightarrow> setting option \<Rightarrow> indexed_run list \<Rightarrow> sweep_cell result" where
  "sweep_cell_of mode rate cs =
     (let host = (\<lambda>name f. median_or_none (map (host_figure name f) cs));
          mysql = (\<lambda>f. median_or_none (map (mysql_figure f) cs))
      in bindR (mapR (latency_p50 0) cs) (\<lambda>p50. bindR (mapR (latency_p99 0) cs) (\<lambda>p99. Inr
        \<lparr>sc_mode = mode, sc_rate = rate, sc_runs = map ix_run cs,
         sc_delivered = map (\<lambda>c. cm_deliveredEventsPerSecond (ix_metrics c)) cs, sc_p50 = p50, sc_p99 = p99,
         sc_peakLag = map (\<lambda>c. cm_peakCommittedRemaining (ix_metrics c)) cs,
         sc_partnerCpu = host ''partner'' (\<lambda>r. Some (ho_cpuBusy r)), sc_mysqlCpu = host ''mysql'' (\<lambda>r. Some (ho_cpuBusy r)),
         sc_kafkaCpuMax = median_or_none (map kafka_cpu cs),
         sc_stealMax = max_default 0 (concat (map (\<lambda>c. map ho_cpuSteal (known (map snd (cm_hosts (ix_metrics c))))) cs)),
         sc_mysqlDiskWriteLatencyMs = host ''mysql'' (disk_figure (\<lambda>d. fst (snd d))),
         sc_mysqlDiskWritesPerSecond = host ''mysql'' (disk_figure fst),
         sc_commitsPerSecond = mysql (\<lambda>r. Some (mr_commitsPerSecond r)), sc_questionsPerSecond = mysql (\<lambda>r. Some (mr_questionsPerSecond r)),
         sc_insertAvgUs = mysql (statement_us ''insert''), sc_updateAvgUs = mysql (statement_us ''update''),
         sc_commitAvgUs = mysql (statement_us ''commit''), sc_redoFsyncs = mysql (\<lambda>r. Some (of_int (mr_redoFsyncs r))),
         sc_redoMiscAvgUs = mysql mr_redoMiscAvgUs,
         sc_gcMillis = median_or_none (map (\<lambda>c. map_option of_int (cm_gcMillis (ix_metrics c))) cs),
         sc_producerLatencyPeakMs = median_or_none (map (\<lambda>c. cm_producerLatencyPeak (ix_metrics c)) cs)\<rparr>)))"

definition sweep_cells :: "indexed_run list \<Rightarrow> sweep_cell list result" where
  "sweep_cells items =
     bindR (sweep_rates items) (\<lambda>rates.
       bindR (mapR (\<lambda>mode. mapR (\<lambda>rate. sweep_cell_of mode rate (sweep_cases items mode ''clean'' rate))
           (filter (\<lambda>rate. sweep_cases items mode ''clean'' rate \<noteq> []) rates)) SWEEP_MODES) (\<lambda>cells. Inr (concat cells)))"

record failover_row =
  fo_mode :: string
  fo_runs :: "string list"
  fo_p99 :: "int option list"
  fo_passed :: "bool list"

definition failover_rows :: "indexed_run list \<Rightarrow> failover_row list result" where
  "failover_rows items =
     (let failover = filter (\<lambda>x. has_setting x ''scenario'' (SText ''broker-failover'')) items;
          of_mode = (\<lambda>mode. filter (\<lambda>x. has_setting x ''mode'' (SText mode)) failover)
      in mapR (\<lambda>mode. bindR (mapR (latency_p99 0) (of_mode mode)) (\<lambda>p99. Inr
           \<lparr>fo_mode = mode, fo_runs = map ix_run (of_mode mode), fo_p99 = p99,
            fo_passed = map (\<lambda>x. cm_passed (ix_metrics x)) (of_mode mode)\<rparr>))
         (filter (\<lambda>mode. of_mode mode \<noteq> []) SWEEP_MODES))"

section \<open>Every run is in one cell\<close>

lemma sweep_rates_set:
  assumes "sweep_rates items = Inr rates"
  shows "distinct rates \<and> set rates = set (map rate_of (clean_sweeps items))"
proof -
  define vs where "vs = remdups (map rate_of (clean_sweeps items))"
  show ?thesis
  proof (cases "length vs \<le> 1")
    case True
    then have "rates = vs" using assms by (simp add: sweep_rates_def vs_def Let_def)
    then show ?thesis by (simp add: vs_def)
  next
    case False
    then obtain ns where ns: "mapR number_of vs = Inr ns" "rates = map (\<lambda>n. Some (SNumber n)) (sort ns)"
      using assms by (auto simp: sweep_rates_def vs_def Let_def bindR_Inr_iff)
    have "vs = map (\<lambda>n. Some (SNumber n)) ns" using ns(1)
      by (induction vs arbitrary: ns) (auto simp: bindR_Inr_iff number_of_def split: option.splits setting.splits)
    then have "mset rates = mset vs" by (simp add: ns(2))
    then have "distinct rates \<longleftrightarrow> distinct vs" "set rates = set vs" by (metis mset_eq_imp_distinct_iff mset_eq_setD)+
    then show ?thesis by (simp add: vs_def)
  qed
qed

lemma mset_keyed_parts:
  "distinct ks \<Longrightarrow> mset (concat (map (\<lambda>k. filter (\<lambda>x. f x = k) xs) ks)) = mset (filter (\<lambda>x. f x \<in> set ks) xs)"
proof (induction ks)
  case (Cons k ks)
  have "mset (filter (\<lambda>x. f x = k) xs) + mset (filter (\<lambda>x. f x \<in> set ks) xs) = mset (filter (\<lambda>x. f x \<in> set (k # ks)) xs)"
    using Cons.prems by (induction xs) auto
  then show ?case using Cons by simp
qed simp

lemma concat_filter_Nil: "concat (map f (filter (\<lambda>x. f x \<noteq> []) xs)) = concat (map f xs)"
  by (induction xs) auto

lemma sweep_cases_rate:
  assumes "sweep_rates items = Inr rates" "rate \<in> set rates"
  shows "sweep_cases items mode ''clean'' rate =
    filter (\<lambda>x. rate_of x = rate) (filter (\<lambda>x. has_setting x ''mode'' (SText mode)) (clean_sweeps items))"
proof (cases "rate = None")
  case False
  then show ?thesis by (auto simp: sweep_cases_def clean_sweeps_def intro: filter_cong)
next
  case True
  have "rate_of x = None" if "x \<in> set (clean_sweeps items)" for x
  proof -
    define vs where "vs = remdups (map rate_of (clean_sweeps items))"
    have "None \<in> set vs" using sweep_rates_set [OF assms(1)] assms(2) True by (simp add: vs_def)
    then have "\<exists>e. mapR number_of vs = Inl e"
      by (induction vs) (auto simp: number_of_def bindR_def split: sum.splits)
    then have "length vs \<le> 1" using assms(1) by (auto simp: sweep_rates_def vs_def [symmetric] Let_def split: if_splits)
    then have "vs = [None]" using \<open>None \<in> set vs\<close> by (cases vs) auto
    moreover have "rate_of x \<in> set vs" using that by (simp add: vs_def)
    ultimately show ?thesis by simp
  qed
  then show ?thesis using True by (auto simp: sweep_cases_def clean_sweeps_def intro!: filter_cong)
qed

lemma cell_runs: "sweep_cell_of mode rate cs = Inr c \<Longrightarrow> sc_runs c = map ix_run cs"
  by (auto simp: sweep_cell_of_def Let_def bindR_Inr_iff)

lemma mapR_runs:
  assumes "mapR (\<lambda>k. sweep_cell_of mode k (g k)) ks = Inr cells"
  shows "concat (map sc_runs cells) = map ix_run (concat (map g ks))"
  using assms by (induction ks arbitrary: cells) (auto simp: bindR_Inr_iff cell_runs)

lemma mode_cells:
  assumes "sweep_rates items = Inr rates"
    and "mapR (\<lambda>rate. sweep_cell_of mode rate (sweep_cases items mode ''clean'' rate))
      (filter (\<lambda>rate. sweep_cases items mode ''clean'' rate \<noteq> []) rates) = Inr cells"
  shows "mset (concat (map sc_runs cells)) = image_mset ix_run (mset (filter (\<lambda>x. map_of (ix_settings x) ''mode'' = Some (SText mode)) (clean_sweeps items)))"
proof -
  let ?xs = "filter (\<lambda>x. map_of (ix_settings x) ''mode'' = Some (SText mode)) (clean_sweeps items)"
  have "concat (map sc_runs cells) = map ix_run (concat (map (sweep_cases items mode ''clean'') rates))"
    using mapR_runs [OF assms(2)] by (simp only: concat_filter_Nil)
  also have "map (sweep_cases items mode ''clean'') rates = map (\<lambda>k. filter (\<lambda>x. rate_of x = k) ?xs) rates"
    by (intro map_cong refl) (simp add: sweep_cases_rate [OF assms(1)] has_setting_def)
  finally have "mset (concat (map sc_runs cells)) = image_mset ix_run (mset (concat (map (\<lambda>k. filter (\<lambda>x. rate_of x = k) ?xs) rates)))"
    by simp
  also have "\<dots> = image_mset ix_run (mset (filter (\<lambda>x. rate_of x \<in> set rates) ?xs))"
    using sweep_rates_set [OF assms(1)] mset_keyed_parts [of rates rate_of ?xs] by simp
  also have "filter (\<lambda>x. rate_of x \<in> set rates) ?xs = ?xs"
    using sweep_rates_set [OF assms(1)] by (intro filter_True) simp
  finally show ?thesis .
qed

lemma modes_cells:
  assumes "sweep_rates items = Inr rates"
    and "mapR (\<lambda>mode. mapR (\<lambda>rate. sweep_cell_of mode rate (sweep_cases items mode ''clean'' rate))
      (filter (\<lambda>rate. sweep_cases items mode ''clean'' rate \<noteq> []) rates)) modes = Inr cells"
  shows "mset (concat (map sc_runs (concat cells))) =
    image_mset ix_run (mset (concat (map (\<lambda>m. filter (\<lambda>x. map_of (ix_settings x) ''mode'' = m) (clean_sweeps items)) (map (\<lambda>m. Some (SText m)) modes))))"
  using assms(2)
proof (induction modes arbitrary: cells)
  case (Cons m ms)
  then obtain c cs where c: "mapR (\<lambda>rate. sweep_cell_of m rate (sweep_cases items m ''clean'' rate))
      (filter (\<lambda>rate. sweep_cases items m ''clean'' rate \<noteq> []) rates) = Inr c" "cells = c # cs"
    and cs: "mapR (\<lambda>mode. mapR (\<lambda>rate. sweep_cell_of mode rate (sweep_cases items mode ''clean'' rate))
      (filter (\<lambda>rate. sweep_cases items mode ''clean'' rate \<noteq> []) rates)) ms = Inr cs"
    by (auto simp: bindR_Inr_iff)
  show ?case using mode_cells [OF assms(1) c(1)] Cons.IH [OF cs] by (simp add: c(2))
qed simp

text \<open>The sweep loses no run and counts none twice: the runs listed in its cells are, with multiplicity, the clean
  sweep runs of the index whose structure is one of the seven reported.\<close>

lemma sweep_cells_partition:
  assumes "sweep_cells items = Inr cells"
  shows "mset (concat (map sc_runs cells)) =
    mset (map ix_run (filter (\<lambda>x. has_setting x ''workload'' (SText ''sweep'') \<and> has_setting x ''scenario'' (SText ''clean'') \<and>
      map_of (ix_settings x) ''mode'' \<in> (\<lambda>m. Some (SText m)) ` set SWEEP_MODES) items))"
proof -
  let ?ks = "map (\<lambda>m. Some (SText m)) SWEEP_MODES" and ?mode = "\<lambda>x. map_of (ix_settings x) ''mode''"
  obtain rates css where r: "sweep_rates items = Inr rates" "cells = concat css"
    and css: "mapR (\<lambda>mode. mapR (\<lambda>rate. sweep_cell_of mode rate (sweep_cases items mode ''clean'' rate))
      (filter (\<lambda>rate. sweep_cases items mode ''clean'' rate \<noteq> []) rates)) SWEEP_MODES = Inr css"
    using assms by (auto simp: sweep_cells_def bindR_Inr_iff)
  have "distinct ?ks" by (simp add: SWEEP_MODES_def)
  then have "mset (concat (map (\<lambda>m. filter (\<lambda>x. ?mode x = m) (clean_sweeps items)) ?ks)) = mset (filter (\<lambda>x. ?mode x \<in> set ?ks) (clean_sweeps items))"
    by (rule mset_keyed_parts)
  then have "mset (concat (map sc_runs cells)) = image_mset ix_run (mset (filter (\<lambda>x. ?mode x \<in> set ?ks) (clean_sweeps items)))"
    using modes_cells [OF r(1) css] by (simp only: r(2))
  then show ?thesis by (simp add: clean_sweeps_def conj_ac)
qed

definition sweep_run :: "string \<Rightarrow> string \<Rightarrow> nat \<Rightarrow> indexed_run" where
  "sweep_run name mode rate = (sample_run name 900)\<lparr>ix_settings := [(''mode'', SText mode), (''scenario'', SText ''clean''),
     (''workload'', SText ''sweep''), (''targetEventsPerSecond'', SNumber rate)]\<rparr>"

lemma sweep_cells_partition_witness:
  "\<exists>cells. sweep_cells [sweep_run ''a'' ''inbox'' 160, sweep_run ''b'' ''async'' 80, sweep_run ''c'' ''inbox'' 80] = Inr cells \<and>
     mset (concat (map sc_runs cells)) = {# ''a'', ''b'', ''c'' #}"
proof -
  let ?is = "[sweep_run ''a'' ''inbox'' 160, sweep_run ''b'' ''async'' 80, sweep_run ''c'' ''inbox'' 80]"
  have "case sweep_cells ?is of Inr _ \<Rightarrow> True | _ \<Rightarrow> False" by code_simp
  then obtain cells where c: "sweep_cells ?is = Inr cells" by (auto split: sum.splits)
  have "mset (concat (map sc_runs cells)) = {# ''a'', ''b'', ''c'' #}"
    unfolding sweep_cells_partition [OF c]
    by (simp add: sweep_run_def sample_run_def has_setting_def SWEEP_MODES_def)
  with c show ?thesis by blast
qed

section \<open>Operational scenarios\<close>

record ops_observation =
  oo_lag :: "int option"                              \<comment> \<open>\<open>service.committedRemaining\<close>\<close>
  oo_signal :: "(string \<times> int) list option"    \<comment> \<open>\<open>service.inboxOldestPendingMsBySeller\<close>\<close>
  oo_oldestMs :: "(string \<times> int) list"         \<comment> \<open>\<open>oldestMs or {}\<close>\<close>

text \<open>A run directory with manifest and summary. \<open>op_stopped\<close>: graceful, milliseconds and exit code of the first
  \<open>partner_stopped\<close> entry.\<close>

record ops_run =
  op_run :: string
  op_mode :: string
  op_scenario :: string
  op_passed :: bool
  op_normalP99 :: "int option"
  op_stopped :: "(bool option \<times> int option \<times> int option) option"
  op_attempts :: "attempt_row list"
  op_effects :: nat
  op_logs :: "string list list"                       \<comment> \<open>lines of the partner logs\<close>
  op_observations :: "ops_observation list"

definition count_traces :: "string \<Rightarrow> string list list \<Rightarrow> nat" where
  "count_traces stage logs =
     length (filter (\<lambda>line. take 6 line = ''TRACE '' \<and> occurs (json_string ''stage'' @ '':'' @ [CHR 0x22] @ stage @ [CHR 0x22]) line)
       (concat logs))"

record ops_row =
  ow_run :: string
  ow_mode :: string
  ow_scenario :: string
  ow_passed :: bool
  ow_normalP99 :: "int option"
  ow_graceful :: "bool option"
  ow_shutdownMs :: "int option"
  ow_exitCode :: "int option"
  ow_extraPartnerCalls :: int
  ow_peakSellerCalls :: int
  ow_peakSlowSellerCalls :: int
  ow_duplicateBusiness :: nat

definition ops_row_of :: "ops_run \<Rightarrow> ops_row" where
  "ops_row_of d =
     (let pks = peak_per_seller (op_attempts d); stopped = get_or (None, None, None) (op_stopped d)
      in \<lparr>ow_run = op_run d, ow_mode = op_mode d, ow_scenario = op_scenario d, ow_passed = op_passed d, ow_normalP99 = op_normalP99 d,
          ow_graceful = fst stopped, ow_shutdownMs = fst (snd stopped), ow_exitCode = snd (snd stopped),
          ow_extraPartnerCalls = int (length (op_attempts d)) - int (op_effects d),
          ow_peakSellerCalls = max_default 0 (map snd pks), ow_peakSlowSellerCalls = get_or 0 (map_of pks ''slow''),
          ow_duplicateBusiness = count_traces ''duplicate_business'' (op_logs d)\<rparr>)"

definition ops_rows :: "ops_run list \<Rightarrow> ops_row list" where
  "ops_rows ds = map ops_row_of (filter (\<lambda>d. op_scenario d \<in> {''graceful-restart'', ''scale-out''}) ds)"

text \<open>Lag, signal and truth of one observation that has both.\<close>

fun signal_sample :: "ops_observation \<Rightarrow> (int option \<times> int \<times> int) option" where
  "signal_sample ob =
     (case (oo_signal ob, map_of (oo_oldestMs ob) ''slow'') of
        (Some signal, Some truth) \<Rightarrow> Some (oo_lag ob, get_or 0 (map_of signal ''slow''), truth)
      | _ \<Rightarrow> None)"

record sli_row =
  sl_run :: string
  sl_mode :: string
  sl_scenario :: string
  sl_samples :: nat
  sl_peakLag :: int
  sl_peakSignalMs :: int
  sl_peakTruthMs :: int
  sl_medianAbsErrorMs :: rat

definition sli_row_of :: "ops_run \<Rightarrow> sli_row option result" where
  "sli_row_of d =
     (let samples = known (map signal_sample (op_observations d))
      in if samples = [] \<or> op_mode d \<notin> {''inbox'', ''inbox-batch'', ''inbox-lean''} then Inr None
         else bindR (median (map (\<lambda>(_, signal, truth). of_int \<bar>signal - truth\<bar>) samples)) (\<lambda>m. Inr (Some
           \<lparr>sl_run = op_run d, sl_mode = op_mode d, sl_scenario = op_scenario d, sl_samples = length samples,
            sl_peakLag = Max (set (map (\<lambda>x. or_else (fst x) 0) samples)), sl_peakSignalMs = Max (set (map (\<lambda>x. fst (snd x)) samples)),
            sl_peakTruthMs = Max (set (map (\<lambda>x. snd (snd x)) samples)), sl_medianAbsErrorMs = m\<rparr>)))"

text \<open>The figures raise nothing, and the slow seller's peak is the one of the comparison.\<close>

lemma sli_row_total: "\<exists>r. sli_row_of d = Inr r"
  by (simp add: sli_row_of_def median_def Let_def)

lemma ops_peak_slow:
  "ow_peakSlowSellerCalls (ops_row_of d) = fst (peak_concurrency (op_attempts d))"
  by (simp add: ops_row_of_def Let_def slow_peak)

end
