(* ===== verification/Isolation_Report.thy ===== *)
theory Isolation_Report
  imports Legacy_Run Suite
begin

text \<open>
  The report of a suite directory, \<open>experiments/isolation/report.py\<close>: when the buffer filled and when normal
  sellers started to miss, what happened after a stopped owner, and the row of each run. The files of a run are
  arguments; the Markdown made from the rows is text.
\<close>

section \<open>The buffer during a fault\<close>

record partner_sample =
  pv_inboxPending :: "(string \<times> int) list"     \<comment> \<open>\<open>inboxPendingBySeller or {}\<close>\<close>
  pv_pcWorkRemaining :: "int option"
  pv_retryRemaining :: "int option"

record buffer_sample =
  bs_time :: int
  bs_partner :: partner_sample                        \<comment> \<open>the first partner, or an empty one\<close>

record due_row =
  dr_event_id :: string
  dr_created_at :: "int option"                       \<comment> \<open>\<open>int(v) if v is not None else None\<close>; the column is declared \<open>NOT NULL\<close>\<close>

record report_files =
  rf_samples :: "buffer_sample list"
  rf_obligations :: "due_row list"
  rf_effects :: "effect_row list"
  rf_attempts :: "attempt_row list"
  rf_trace :: "plan_entry list"

record buffer_report =
  bu_bufferFilledAfterMs :: "int option"
  bu_firstNormalMissAfterMs :: "int option"
  bu_peakInboxPending :: int
  bu_peakPcHeld :: int
  bu_peakRetryTopicBacklog :: int

definition inbox_pending :: "partner_sample \<Rightarrow> int" where
  "inbox_pending p = sum_list (map snd (pv_inboxPending p))"

definition held_by :: "string \<Rightarrow> partner_sample \<Rightarrow> int" where
  "held_by candidate p = (if candidate = ''db-inbox'' then inbox_pending p else or_else (pv_pcWorkRemaining p) 0)"

definition buffer_full :: "string \<Rightarrow> int \<Rightarrow> partner_sample \<Rightarrow> bool" where
  "buffer_full candidate limit p \<longleftrightarrow> fl (q95 * of_int limit) \<le> of_int (held_by candidate p)"

record buffer_state =
  bf_filled :: "int option"
  bf_inbox :: int
  bf_pc :: int
  bf_retry :: int

definition buffer_step :: "int \<Rightarrow> string \<Rightarrow> int \<Rightarrow> buffer_sample \<Rightarrow> buffer_state \<Rightarrow> buffer_state" where
  "buffer_step begun candidate limit s st =
     (let p = bs_partner s
      in \<lparr>bf_filled = (if bf_filled st = None \<and> begun \<le> bs_time s \<and> buffer_full candidate limit p
              then Some (bs_time s - begun) else bf_filled st),
          bf_inbox = max (bf_inbox st) (inbox_pending p), bf_pc = max (bf_pc st) (or_else (pv_pcWorkRemaining p) 0),
          bf_retry = max (bf_retry st) (or_else (pv_retryRemaining p) 0)\<rparr>)"

text \<open>One obligation of the loop. The creation time is looked at only for an event of the trace that goes to another
  seller: comparing \<open>None\<close> with the start of the fault raises there.\<close>

definition miss_step ::
    "int \<Rightarrow> string \<Rightarrow> (string \<rightharpoonup> int) \<Rightarrow> (string \<rightharpoonup> string) \<Rightarrow> string \<times> int option \<Rightarrow> int option \<Rightarrow> int option result" where
  "miss_step begun target eff_at seller_at x first =
     (case seller_at (fst x) of
        None \<Rightarrow> Inr first
      | Some seller \<Rightarrow>
          if seller = target then Inr first
          else case snd x of
            None \<Rightarrow> Inl TypeError
          | Some created \<Rightarrow>
              if created < begun then Inr first
              else if late_by (eff_at (fst x)) created
              then (let moment = created - begun in Inr (Some (case first of None \<Rightarrow> moment | Some m \<Rightarrow> min m moment)))
              else Inr first)"

primrec first_miss ::
    "int \<Rightarrow> string \<Rightarrow> (string \<rightharpoonup> int) \<Rightarrow> (string \<rightharpoonup> string) \<Rightarrow> (string \<times> int option) list \<Rightarrow> int option \<Rightarrow> int option result" where
  "first_miss begun target eff_at seller_at [] first = Inr first"
| "first_miss begun target eff_at seller_at (x # xs) first =
     bindR (miss_step begun target eff_at seller_at x first) (first_miss begun target eff_at seller_at xs)"

definition due_times :: "report_files \<Rightarrow> (string \<times> int option) list" where
  "due_times f = dict_of dr_event_id dr_created_at (rf_obligations f)"

definition done_times :: "report_files \<Rightarrow> string \<rightharpoonup> int" where
  "done_times f = map_of (dict_of er_event_id er_effect_at (rf_effects f))"

definition trace_sellers :: "report_files \<Rightarrow> string \<rightharpoonup> string" where
  "trace_sellers f = map_of (dict_of (\<lambda>e. ev_eventId (pe_event e)) (\<lambda>e. ev_sellerId (pe_event e)) (rf_trace f))"

definition buffer_timeline :: "run_spec \<Rightarrow> int option \<Rightarrow> string option \<Rightarrow> report_files \<Rightarrow> buffer_report option result" where
  "buffer_timeline spec fault_from fault_seller f =
     (case fault_from of None \<Rightarrow> Inr None | Some begun \<Rightarrow>
        let st = fold (buffer_step begun (sp_candidate spec) (get_or 200 (sp_backlogLimit spec))) (rf_samples f)
                   \<lparr>bf_filled = None, bf_inbox = 0, bf_pc = 0, bf_retry = 0\<rparr>
        in bindR (first_miss begun (get_or ''slow'' fault_seller) (done_times f) (trace_sellers f) (due_times f) None) (\<lambda>first. Inr (Some
             \<lparr>bu_bufferFilledAfterMs = bf_filled st, bu_firstNormalMissAfterMs = first, bu_peakInboxPending = bf_inbox st,
              bu_peakPcHeld = bf_pc st, bu_peakRetryTopicBacklog = bf_retry st\<rparr>)))"

section \<open>After a stopped owner\<close>

record stale_event =
  sv_action :: string
  sv_reason :: "string option"
  sv_afterStopMs :: "int option"

datatype stale_report =
    NotInjected "string option"
  | Injected "int option" "int option" nat nat
    \<comment> \<open>takeover and second call after the stop, calls for the held event, instances that made them\<close>

definition stale_timeline :: "(string \<times> int) option \<Rightarrow> stale_event list \<Rightarrow> attempt_row list \<Rightarrow> stale_report" where
  "stale_timeline stale evs attempts =
     (let events = map_of (dict_of sv_action (\<lambda>e. e) evs)
      in case stale of
           None \<Rightarrow> NotInjected (Option.bind (events ''injection_invalid'') sv_reason)
         | Some (event, stopped_at) \<Rightarrow>
             let calls = sort_key ar_start_at (filter (\<lambda>a. ar_event_id a = event) attempts)
             in Injected (Option.bind (events ''takeover_committed'') sv_afterStopMs)
                  (map_option (\<lambda>a. ar_start_at a - stopped_at) (find (\<lambda>a. stopped_at < ar_start_at a) calls))
                  (length calls) (card (set (map ar_instance calls))))"

section \<open>The row of a run\<close>

record run_evidence =
  re_name :: string
  re_spec :: run_spec
  re_fault_from :: "int option"
  re_faultSeller :: "string option"
  re_stale :: "(string \<times> int) option"
  re_events :: "stale_event list"
  re_checks :: run_report
  re_files :: report_files

record cohort_excerpt =
  ce_n :: nat
  ce_p50Ms :: "int option"
  ce_p99Ms :: "int option"
  ce_maxMs :: "int option"
  ce_missRate :: "rat option"
  ce_censored :: nat
  ce_internalMissRate :: "rat option"

record suite_row =
  sr_run :: string
  sr_stage :: string
  sr_candidate :: string
  sr_seed :: int
  sr_scenario :: "string option"
  sr_backlogLimit :: int
  sr_safety :: bool
  sr_liveness :: bool
  sr_budget :: bool
  sr_undelivered :: nat
  sr_sellerPeak :: int
  sr_sellerOverLimitMs :: int
  sr_globalPeak :: int
  sr_extraRequests :: int
  sr_retryPerSecondPeak :: int
  sr_requests :: nat
  sr_evidence :: evidence_report
  sr_cohorts :: "((string \<times> string) \<times> cohort_excerpt) list"
  sr_observability :: "obs_report option"
  sr_buffer :: "buffer_report option"
  sr_stale :: "stale_report option"
  sr_requestsByInstance :: "nat list option"

datatype report_line = FailedRun string "string option" | SuiteRow suite_row

definition excerpt_of :: "cohort_report \<Rightarrow> cohort_excerpt" where
  "excerpt_of c = \<lparr>ce_n = co_n c, ce_p50Ms = co_p50Ms c, ce_p99Ms = co_p99Ms c, ce_maxMs = co_maxMs c,
     ce_missRate = co_missRate c, ce_censored = co_censored c, ce_internalMissRate = co_internalMissRate c\<rparr>"

definition report_cohort :: "run_report \<Rightarrow> string \<Rightarrow> string \<Rightarrow> cohort_report option" where
  "report_cohort rep phase grp = map_of (get_or [] (map_of (la_cohorts (rr_latency rep)) phase)) grp"

definition cohort_cells :: "run_report \<Rightarrow> ((string \<times> string) \<times> cohort_excerpt) list" where
  "cohort_cells rep =
     concat (map (\<lambda>phase. concat (map (\<lambda>grp. case report_cohort rep phase grp of
         None \<Rightarrow> [] | Some c \<Rightarrow> [((phase, grp), excerpt_of c)]) [''normal'', ''fault'']))
       (filter (\<lambda>phase. take 1 phase \<noteq> ''_'') (map fst (la_cohorts (rr_latency rep)))))"

definition suite_row_of :: "run_evidence \<Rightarrow> suite_row result" where
  "suite_row_of r =
     (let spec = re_spec r; checks = re_checks r; bg = rr_budget checks
      in bindR (buffer_timeline spec (re_fault_from r) (re_faultSeller r) (re_files r)) (\<lambda>buffer. Inr
         \<lparr>sr_run = re_name r, sr_stage = get_or (hd (split_on (CHR ''-'') (sp_label spec))) (sp_stage spec),
          sr_candidate = sp_candidate spec, sr_seed = sp_seed spec, sr_scenario = sp_scenario spec,
          sr_backlogLimit = get_or 200 (sp_backlogLimit spec),
          sr_safety = sf_passed (rr_safety checks), sr_liveness = lv_passed (rr_liveness checks), sr_budget = bg_passed bg,
          sr_undelivered = lv_undelivered (rr_liveness checks), sr_sellerPeak = bg_sellerPeak bg,
          sr_sellerOverLimitMs = sum_list (map snd (bg_sellerOverLimitMs bg)), sr_globalPeak = bg_globalPeak bg,
          sr_extraRequests = bg_extraRequests bg, sr_retryPerSecondPeak = bg_retryPerSecondPeak bg, sr_requests = bg_requests bg,
          sr_evidence = rr_evidence checks, sr_cohorts = cohort_cells checks, sr_observability = rr_observability checks,
          sr_buffer = buffer,
          sr_stale = (if sp_scenario spec = Some ''stale''
              then Some (stale_timeline (re_stale r) (re_events r) (rf_attempts (re_files r))) else None),
          sr_requestsByInstance = (if sp_scenario spec = Some ''scale''
              then Some (map snd (bg_requestsByInstance bg)) else None)\<rparr>))"

text \<open>A directory without \<open>run.json\<close> or \<open>checks.json\<close> is listed with the error of its summary. A row that raises ends
  the report.\<close>

definition summarize_runs :: "(string \<times> string option \<times> run_evidence option) list \<Rightarrow> report_line list result" where
  "summarize_runs dirs = mapR (\<lambda>(name, err, r). case r of
      None \<Rightarrow> Inr (FailedRun name err) | Some e \<Rightarrow> bindR (suite_row_of e) (\<lambda>row. Inr (SuiteRow row))) dirs"

section \<open>What the timelines say\<close>

lemma buffer_fold_filled:
  "bf_filled (fold (buffer_step begun candidate limit) samples st) =
     (case bf_filled st of
        Some d \<Rightarrow> Some d
      | None \<Rightarrow> map_option (\<lambda>s. bs_time s - begun) (find (\<lambda>s. begun \<le> bs_time s \<and> buffer_full candidate limit (bs_partner s)) samples))"
  by (induction samples arbitrary: st) (auto simp: buffer_step_def Let_def split: option.splits)

lemma buffer_fold_peaks:
  "bf_inbox (fold (buffer_step begun candidate limit) samples st) = fold max (map (\<lambda>s. inbox_pending (bs_partner s)) samples) (bf_inbox st)"
  "bf_pc (fold (buffer_step begun candidate limit) samples st) =
     fold max (map (\<lambda>s. or_else (pv_pcWorkRemaining (bs_partner s)) 0) samples) (bf_pc st)"
  "bf_retry (fold (buffer_step begun candidate limit) samples st) =
     fold max (map (\<lambda>s. or_else (pv_retryRemaining (bs_partner s)) 0) samples) (bf_retry st)"
  by (induction samples arbitrary: st) (simp_all add: buffer_step_def Let_def max.commute)

lemma fold_max_Max: "fold max xs a = Max (insert a (set xs))" for a :: "'a::linorder"
  using Max.set_eq_fold [of a xs] by simp

lemma earliest_fold:
  "fold (\<lambda>t first. Some (case first of None \<Rightarrow> t | Some m \<Rightarrow> min m t)) ts first =
     (if ts = [] then first else Some (Min (set ts \<union> set_option first)))" for ts :: "'a::linorder list"
proof (induction ts arbitrary: first)
  case (Cons t ts)
  show ?case
  proof (cases first)
    case None
    then show ?thesis by (simp add: Cons.IH)
  next
    case (Some m)
    have "Min (insert (min m t) (set ts)) = Min (insert t (insert m (set ts)))"
      by (cases "ts = []") (simp_all add: min.left_commute min.commute min.assoc)
    then show ?thesis using Some by (auto simp: Cons.IH insert_commute min.commute)
  qed
qed simp

lemma first_miss_value:
  "first_miss begun target eff_at seller_at xs first =
     (if \<exists>x \<in> set xs. snd x = None \<and> (\<exists>s. seller_at (fst x) = Some s \<and> s \<noteq> target) then Inl TypeError
      else Inr (fold (\<lambda>t first. Some (case first of None \<Rightarrow> t | Some m \<Rightarrow> min m t))
        (map (\<lambda>x. the (snd x) - begun) (filter (\<lambda>x. snd x \<noteq> None \<and> (\<exists>s. seller_at (fst x) = Some s \<and> s \<noteq> target) \<and>
           begun \<le> the (snd x) \<and> late_by (eff_at (fst x)) (the (snd x))) xs)) first))"
proof (induction xs arbitrary: first)
  case (Cons x xs)
  then show ?case
    by (cases "seller_at (fst x)"; cases "snd x") (auto simp: miss_step_def Let_def)
qed simp

lemma dict_of_member: "(k, v) \<in> set (dict_of f g xs) \<longleftrightarrow> map_of (rev (map (\<lambda>x. (f x, g x)) xs)) k = Some v"
  unfolding dict_of_lookup [symmetric] by (simp add: map_of_eq_Some_iff)

lemma late_by_case: "late_by v c \<longleftrightarrow> (case v of None \<Rightarrow> True | Some t \<Rightarrow> c + 1500 < t)"
  by (auto simp: late_by_def TARGET_MS_def split: option.splits)

lemma get_or_case: "get_or d v = (case v of None \<Rightarrow> d | Some x \<Rightarrow> x)"
  by (cases v) simp_all

lemma or_else_case: "or_else v 0 = (case v of None \<Rightarrow> 0 | Some x \<Rightarrow> x)"
  by (simp add: or_else_def split: option.splits)

lemma first_miss_dict:
  assumes mem: "\<And>k v. (k, v) \<in> set d \<longleftrightarrow> created k = Some v"
  shows "first_miss begun target eff_at seller_at d None =
     (let misses = {c. \<exists>k. k \<in> {k. \<exists>s. seller_at k = Some s \<and> s \<noteq> target} \<and> created k = Some (Some c) \<and> begun \<le> c \<and>
              (case eff_at k of None \<Rightarrow> True | Some t \<Rightarrow> c + 1500 < t)}
      in if \<exists>k. k \<in> {k. \<exists>s. seller_at k = Some s \<and> s \<noteq> target} \<and> created k = Some None then Inl TypeError
         else Inr (if misses = {} then None else Some (Min misses - begun)))"
proof -
  let ?misses = "{c. \<exists>k. k \<in> {k. \<exists>s. seller_at k = Some s \<and> s \<noteq> target} \<and> created k = Some (Some c) \<and> begun \<le> c \<and>
      late_by (eff_at k) c}"
  let ?P = "\<lambda>x. snd x \<noteq> None \<and> (\<exists>s. seller_at (fst x) = Some s \<and> s \<noteq> target) \<and> begun \<le> the (snd x) \<and>
      late_by (eff_at (fst x)) (the (snd x))"
  let ?ts = "map (\<lambda>x. the (snd x) - begun) (filter ?P d)"
  have raises: "(\<exists>x \<in> set d. snd x = None \<and> (\<exists>s. seller_at (fst x) = Some s \<and> s \<noteq> target)) \<longleftrightarrow>
      (\<exists>k. k \<in> {k. \<exists>s. seller_at k = Some s \<and> s \<noteq> target} \<and> created k = Some None)"
    unfolding mem [symmetric] by force
  have all: "?misses = (\<lambda>x. the (snd x)) ` set (filter ?P d)"
  proof (intro equalityI subsetI)
    fix c
    assume "c \<in> ?misses"
    then obtain k where "(k, Some c) \<in> set (filter ?P d)" by (auto simp: mem)
    then show "c \<in> (\<lambda>x. the (snd x)) ` set (filter ?P d)" by (rule rev_image_eqI) simp
  qed (auto simp: mem)
  have ts: "set ?ts = (\<lambda>c. c - begun) ` ?misses" unfolding all by (simp add: image_image)
  have fin: "finite ?misses" unfolding all by simp
  have "Min ((\<lambda>c. c - begun) ` ?misses) = Min ?misses - begun" if "?misses \<noteq> {}"
    using mono_Min_commute [OF _ fin that, of "\<lambda>c. c - begun"] by (simp add: mono_def)
  then have least: "(if ?ts = [] then None else Some (Min (set ?ts \<union> set_option None))) =
      (if ?misses = {} then None else Some (Min ?misses - begun))"
    unfolding set_empty [symmetric] ts option.set Un_empty_right image_is_empty by simp
  show ?thesis unfolding first_miss_value raises earliest_fold Let_def unfolding least unfolding late_by_case ..
qed

text \<open>C34: The buffer timeline of a run with a fault. The report raises exactly when an event of the trace that goes to
  another seller than the faulty one has an obligation without a creation time. Otherwise the buffer filled at the
  first sample of the fault that holds at least 95 % of the limit (the double 0.95 times the limit, 200 when the spec
  names none), counting the pending inbox rows of the inbox candidate and the work kept by the parallel consumer of
  the others; the first normal miss is the earliest creation, counted from the start of the fault, of an event of another
  seller created in the fault and effected later than 1500 ms or never, and there is none exactly when no such event
  exists; the three peaks are the largest values sampled. Where a file names an event twice its last row counts.\<close>

theorem buffer_timeline_exact:
  "buffer_timeline spec (Some begun) fault_seller f =
     (let created = map_of (rev (map (\<lambda>x. (dr_event_id x, dr_created_at x)) (rf_obligations f)));
          effected = map_of (rev (map (\<lambda>x. (er_event_id x, er_effect_at x)) (rf_effects f)));
          seller = map_of (rev (map (\<lambda>x. (ev_eventId (pe_event x), ev_sellerId (pe_event x))) (rf_trace f)));
          healthy = {k. \<exists>s. seller k = Some s \<and> s \<noteq> (case fault_seller of None \<Rightarrow> ''slow'' | Some t \<Rightarrow> t)};
          misses = {c. \<exists>k. k \<in> healthy \<and> created k = Some (Some c) \<and> begun \<le> c \<and>
              (case effected k of None \<Rightarrow> True | Some t \<Rightarrow> c + 1500 < t)};
          pending = (\<lambda>s. sum_list (map snd (pv_inboxPending (bs_partner s))));
          work = (\<lambda>s. case pv_pcWorkRemaining (bs_partner s) of None \<Rightarrow> 0 | Some n \<Rightarrow> n);
          retries = (\<lambda>s. case pv_retryRemaining (bs_partner s) of None \<Rightarrow> 0 | Some n \<Rightarrow> n);
          limit = (case sp_backlogLimit spec of None \<Rightarrow> 200 | Some l \<Rightarrow> l)
      in if \<exists>k. k \<in> healthy \<and> created k = Some None then Inl TypeError
         else Inr (Some \<lparr>
           bu_bufferFilledAfterMs = map_option (\<lambda>s. bs_time s - begun) (find (\<lambda>s. begun \<le> bs_time s \<and>
             fl (fl (95 / 100) * of_int limit) \<le> of_int (if sp_candidate spec = ''db-inbox'' then pending s else work s)) (rf_samples f)),
           bu_firstNormalMissAfterMs = (if misses = {} then None else Some (Min misses - begun)),
           bu_peakInboxPending = Max (insert 0 (pending ` set (rf_samples f))),
           bu_peakPcHeld = Max (insert 0 (work ` set (rf_samples f))),
           bu_peakRetryTopicBacklog = Max (insert 0 (retries ` set (rf_samples f)))\<rparr>))"
proof -
  let ?created = "map_of (rev (map (\<lambda>x. (dr_event_id x, dr_created_at x)) (rf_obligations f)))"
  let ?effected = "map_of (rev (map (\<lambda>x. (er_event_id x, er_effect_at x)) (rf_effects f)))"
  let ?seller = "map_of (rev (map (\<lambda>x. (ev_eventId (pe_event x), ev_sellerId (pe_event x))) (rf_trace f)))"
  let ?healthy = "{k. \<exists>s. ?seller k = Some s \<and> s \<noteq> (case fault_seller of None \<Rightarrow> ''slow'' | Some t \<Rightarrow> t)}"
  have first: "first_miss begun (get_or ''slow'' fault_seller) (done_times f) (trace_sellers f) (due_times f) None =
      (let misses = {c. \<exists>k. k \<in> ?healthy \<and> ?created k = Some (Some c) \<and> begun \<le> c \<and>
              (case ?effected k of None \<Rightarrow> True | Some t \<Rightarrow> c + 1500 < t)}
       in if \<exists>k. k \<in> ?healthy \<and> ?created k = Some None then Inl TypeError
          else Inr (if misses = {} then None else Some (Min misses - begun)))"
    unfolding due_times_def done_times_def trace_sellers_def get_or_case
    unfolding dict_of_lookup by (rule first_miss_dict) (rule dict_of_member)
  show ?thesis
    unfolding buffer_timeline_def option.case Let_def first [unfolded Let_def]
    by (simp add: buffer_fold_filled buffer_fold_peaks fold_max_Max image_image or_else_case get_or_case buffer_full_def held_by_def
        inbox_pending_def q95_def if_distrib [of of_int])
qed

lemma find_sorted_first:
  assumes "sorted (map f xs)"
  shows "map_option f (find (\<lambda>x. t < f x) xs) = (let A = {f x | x. x \<in> set xs \<and> t < f x} in if A = {} then None else Some (Min A))"
  using assms
proof (induction xs)
  case (Cons x xs)
  let ?A = "{f y | y. y \<in> set xs \<and> t < f y}"
  show ?case
  proof (cases "t < f x")
    case True
    have "{f y | y. y \<in> set (x # xs) \<and> t < f y} = insert (f x) ?A" using True by auto
    moreover have "Min (insert (f x) ?A) = f x" using Cons.prems by (intro Min_insert2) auto
    ultimately show ?thesis using True by (simp add: Let_def)
  next
    case False
    have "{f y | y. y \<in> set (x # xs) \<and> t < f y} = ?A" using False by auto
    then show ?thesis using Cons False by (simp add: Let_def)
  qed
qed simp

text \<open>The second call is the earliest one after the stop, whatever the order of the ledger.\<close>

lemma stale_second_call:
  "\<exists>takeover calls instances. stale_timeline (Some (event, t)) evs attempts =
     Injected takeover (let A = {ar_start_at a | a. a \<in> set attempts \<and> ar_event_id a = event \<and> t < ar_start_at a}
       in if A = {} then None else Some (Min A - t)) calls instances"
proof -
  let ?cs = "sort_key ar_start_at (filter (\<lambda>a. ar_event_id a = event) attempts)"
  have A: "{ar_start_at a | a. a \<in> set ?cs \<and> t < ar_start_at a} = {ar_start_at a | a. a \<in> set attempts \<and> ar_event_id a = event \<and> t < ar_start_at a}"
    by auto
  have "map_option (\<lambda>a. ar_start_at a - t) (find (\<lambda>a. t < ar_start_at a) ?cs) =
      map_option (\<lambda>v. v - t) (map_option ar_start_at (find (\<lambda>a. t < ar_start_at a) ?cs))"
    by (simp add: option.map_comp comp_def)
  also have "map_option ar_start_at (find (\<lambda>a. t < ar_start_at a) ?cs) =
      (let A = {ar_start_at a | a. a \<in> set attempts \<and> ar_event_id a = event \<and> t < ar_start_at a} in if A = {} then None else Some (Min A))"
    using find_sorted_first [of ar_start_at ?cs t] unfolding A by simp
  finally show ?thesis by (auto simp: stale_timeline_def Let_def)
qed

end
