(* ===== verification/Case_Frame.thy ===== *)
theory Case_Frame
  imports Legacy_Run
begin

text \<open>
  The frame of a case, \<open>run_case\<close> in \<open>experiments/run.py\<close> from its \<open>try\<close> on: the steps of the main thread in their
  order, the threads it starts, and the clean-up of its \<open>finally\<close>. A step that raises may have had its effect or not. A
  start that raises may leave its process running while no variable of the case names it: \<open>launch\<close> raises after
  \<open>Popen\<close> when the registry of pids cannot be saved, \<open>remote_java\<close> when \<open>ssh\<close> times out or answers no number after
  the JVM was launched. A \<open>stop\<close> of the clean-up may raise (\<open>poll\<close> of a remote JVM goes over \<open>ssh\<close>) and skips the
  stops after it, and the failure file may not be writable. Threads run between the steps of the main thread; a thread that raises
  ends. \<open>thread.join()\<close> waits, \<open>thread.join(timeout=8)\<close> of the clean-up may give up, so the clean-up does not wait here.
  What only stops more is left out: \<open>stop\<close> of a remote JVM also kills every JVM of the jar on that host, and the
  program's own \<open>finally\<close> stops every registered process. Calls without an effect on processes and on the controller's log are \<open>Act\<close> (the requests, files and figures themselves
  are modelled by \<open>Legacy_Run\<close>, \<open>Run_Report\<close> and \<open>Hosts\<close>), a waiting loop is \<open>Await\<close> with its label.
  Shown: however the threads interleave, a process outlives a case without an operational event only if its own start
  raised after launching it, or if a stop of the clean-up raised.
\<close>

section \<open>Steps\<close>

datatype proc = MockProc | ServiceProc nat | SecondProc | CollectorProc

datatype case_thread = ClearFault | FailBroker | OpsEvent

datatype case_step =
    Await string
  | Act string
  | Record string                \<comment> \<open>\<open>record(action)\<close>\<close>
  | StartService                 \<comment> \<open>\<open>service=java(...)\<close>\<close>
  | KillService                  \<comment> \<open>\<open>stop(service,kill=True)\<close>, or \<open>terminate\<close> and \<open>wait\<close>\<close>
  | StartSecond
  | StartCollector
  | EndCollector                 \<comment> \<open>stop file and \<open>wait(timeout=8)\<close>\<close>
  | Spawn case_thread
  | JoinThreads

record case_world =
  kw_running :: "proc set"
  kw_service :: "proc option"
  kw_mock :: "proc option"
  kw_collector :: "proc option"
  kw_second :: "proc list"
  kw_started :: nat              \<comment> \<open>services started\<close>
  kw_log :: "string list"        \<comment> \<open>actions of \<open>controller.json\<close>\<close>
  kw_failure :: bool             \<comment> \<open>\<open>failure.json\<close> written\<close>
  kw_saveRaised :: bool          \<comment> \<open>writing \<open>failure.json\<close> raised\<close>
  kw_orphans :: "proc set"       \<comment> \<open>launched by a start that then raised\<close>
  kw_stopRaised :: bool          \<comment> \<open>a stop of the clean-up raised\<close>

definition perform_step :: "case_step \<Rightarrow> case_world \<Rightarrow> case_world" where
  "perform_step s w =
     (case s of
        Record action \<Rightarrow> w\<lparr>kw_log := kw_log w @ [action]\<rparr>
      | StartService \<Rightarrow> (let p = ServiceProc (kw_started w)
          in w\<lparr>kw_running := insert p (kw_running w), kw_service := Some p, kw_started := kw_started w + 1\<rparr>)
      | KillService \<Rightarrow> w\<lparr>kw_running := kw_running w - set_option (kw_service w)\<rparr>
      | StartSecond \<Rightarrow> w\<lparr>kw_running := insert SecondProc (kw_running w), kw_second := kw_second w @ [SecondProc]\<rparr>
      | StartCollector \<Rightarrow> w\<lparr>kw_running := insert CollectorProc (kw_running w), kw_collector := Some CollectorProc\<rparr>
      | EndCollector \<Rightarrow> w\<lparr>kw_running := kw_running w - set_option (kw_collector w)\<rparr>
      | _ \<Rightarrow> w)"

text \<open>The worlds in which a step can raise: before or after its effect, and for a start with the process launched but not
  yet returned to the case.\<close>

definition orphaned :: "proc \<Rightarrow> case_world \<Rightarrow> case_world" where
  "orphaned p w = w\<lparr>kw_running := insert p (kw_running w), kw_orphans := insert p (kw_orphans w)\<rparr>"

definition raise_worlds :: "case_step \<Rightarrow> case_world \<Rightarrow> case_world list" where
  "raise_worlds s w =
     (case s of
        StartService \<Rightarrow> [w, (orphaned (ServiceProc (kw_started w)) w)\<lparr>kw_started := kw_started w + 1\<rparr>]
      | StartSecond \<Rightarrow> [w, orphaned SecondProc w]
      | StartCollector \<Rightarrow> [w, orphaned CollectorProc w]
      | _ \<Rightarrow> [w, perform_step s w])"

lemma raise_before: "w \<in> set (raise_worlds s w)"
  by (cases s) (simp_all add: raise_worlds_def)

section \<open>The script of a case\<close>

definition OPS_SCENARIOS :: "string list" where
  "OPS_SCENARIOS = [''graceful-restart'', ''scale-out'']"

definition thread_script :: "string \<Rightarrow> case_thread \<Rightarrow> case_step list" where
  "thread_script scenario t =
     (case t of
        ClearFault \<Rightarrow> [Act ''sleep'', Act ''control'', Record ''fault_removed'']
      | FailBroker \<Rightarrow> [Act ''sleep'', Record ''broker_killed'', Act ''docker kill'', Act ''docker start'', Record ''broker_restarted'']
      | OpsEvent \<Rightarrow> if scenario = ''graceful-restart''
          then [Act ''sleep'', Record ''sigterm_sent'', KillService, Record ''partner_stopped'', StartService, Record ''partner_restarted'']
          else [Act ''sleep'', StartSecond, Record ''second_instance_started''])"

definition setup_steps :: "case_args \<Rightarrow> case_step list" where
  "setup_steps a =
     [Await ''mock ready'', StartService, Await ''partner assignment ready'', Act ''empty load''] @
     (if ca_observe a then [StartCollector] else []) @
     [Act ''before-load-observe'', Act ''db-io-before'', Act ''host and database counters'', Record ''workload_started'', Act ''dataset'']"

definition fault_steps_of :: "string \<Rightarrow> case_step list" where
  "fault_steps_of scenario =
     (if scenario = ''broker-failover'' then [Act ''three brokers'', Spawn FailBroker] else []) @
     (if scenario \<in> set DELAY_SCENARIOS \<or> scenario = ''retry'' then [Act ''control'', Record ''fault_injected'', Spawn ClearFault]
      else if scenario = ''response-loss'' \<or> scenario = ''db'' then [Act ''control'', Record ''fault_injected'']
      else [])"

definition arm_steps_of :: "string \<Rightarrow> case_step list" where
  "arm_steps_of scenario = (case case_gate scenario of None \<Rightarrow> [] | Some g \<Rightarrow> [Act (g @ ''.arm''), Record ''gate_armed''])"

definition input_steps :: "string \<Rightarrow> case_step list" where
  "input_steps scenario =
     (if scenario \<in> set OPS_SCENARIOS then [Act ''producer'', Spawn OpsEvent] else []) @
     [Act ''input'', Act ''placements'', Record ''workload_input_done''] @
     (if scenario \<in> set OPS_SCENARIOS then [Act ''producer closed'', JoinThreads] else [Act ''placement check''])"

definition broker_steps :: "string \<Rightarrow> case_step list" where
  "broker_steps scenario =
     (if scenario = ''broker-kill''
      then [Record ''broker_killed'', Act ''kill kafka'', Act ''observations exist'', Act ''start kafka'', Await ''broker restarted'', Record ''broker_restarted'']
      else [])"

definition ends_with_kill :: "string \<Rightarrow> bool" where
  "ends_with_kill s \<longleftrightarrow> drop (length s - 4) s = ''kill''"

definition gate_steps :: "string \<Rightarrow> case_step list" where
  "gate_steps scenario =
     (if case_gate scenario = None then []
      else [Await ''actual boundary'', Act ''at-boundary files'', Record ''gate_observed''] @
        (if ends_with_kill scenario
         then [KillService, Record ''process_killed'', Act ''disarm'', StartService, Await ''restarted service'', Record ''process_restarted'']
         else [Act ''disarm'', Record ''gate_released'']))"

definition closing_steps :: "case_args \<Rightarrow> case_step list" where
  "closing_steps a =
     (if ca_scenario a = ''redelivery'' then [Act ''load again'', Record ''duplicate_input''] else []) @
     [Await ''all business effects'', Act ''counters'', Record ''resource_usage'', JoinThreads, Await ''broker commit drained'', Act ''snapshot'', Act ''check''] @
     (if ca_observe a then [EndCollector] else []) @ [Act ''report'', Record ''completed'', Act ''passed'']"

definition case_script :: "case_args \<Rightarrow> case_step list" where
  "case_script a =
     setup_steps a @ fault_steps_of (ca_scenario a) @ arm_steps_of (ca_scenario a) @ input_steps (ca_scenario a) @
     broker_steps (ca_scenario a) @ gate_steps (ca_scenario a) @ closing_steps a"

section \<open>Main thread, threads and clean-up\<close>

datatype final_step = StopCollector | StopSecond | StopService | StopMock

definition stop_target :: "final_step \<Rightarrow> case_world \<Rightarrow> proc set" where
  "stop_target f w = (case f of StopCollector \<Rightarrow> set_option (kw_collector w) | StopSecond \<Rightarrow> set (kw_second w)
      | StopService \<Rightarrow> set_option (kw_service w) | StopMock \<Rightarrow> set_option (kw_mock w))"

definition perform_final :: "final_step \<Rightarrow> case_world \<Rightarrow> case_world" where
  "perform_final f w = w\<lparr>kw_running := kw_running w - stop_target f w\<rparr>"

definition FINAL_STEPS :: "final_step list" where
  "FINAL_STEPS = [StopCollector, StopSecond, StopService, StopMock]"

datatype case_main = Body "case_step list" | Cleanup "final_step list"

type_synonym case_config = "case_main \<times> case_step list list \<times> case_world"

inductive case_sys :: "string \<Rightarrow> case_config \<Rightarrow> case_config \<Rightarrow> bool" for scenario where
  main: "s \<noteq> JoinThreads \<Longrightarrow> \<forall>t. s \<noteq> Spawn t \<Longrightarrow> case_sys scenario (Body (s # r), ts, w) (Body r, ts, perform_step s w)"
| spawn: "case_sys scenario (Body (Spawn t # r), ts, w) (Body r, ts @ [thread_script scenario t], w)"
| join: "\<forall>t \<in> set ts. t = [] \<Longrightarrow> case_sys scenario (Body (JoinThreads # r), ts, w) (Body r, ts, w)"
| main_raises: "v \<in> set (raise_worlds s w) \<Longrightarrow>
    case_sys scenario (Body (s # r), ts, w) (Cleanup FINAL_STEPS, ts, v\<lparr>kw_failure := True\<rparr>)"
| save_raises: "v \<in> set (raise_worlds s w) \<Longrightarrow>
    case_sys scenario (Body (s # r), ts, w) (Cleanup FINAL_STEPS, ts, v\<lparr>kw_saveRaised := True\<rparr>)"
| main_ends: "case_sys scenario (Body [], ts, w) (Cleanup FINAL_STEPS, ts, w)"
| final: "case_sys scenario (Cleanup (f # r), ts, w) (Cleanup r, ts, perform_final f w)"
| final_raises: "v \<in> {w, perform_final f w} \<Longrightarrow>
    case_sys scenario (Cleanup (f # r), ts, w) (Cleanup [], ts, v\<lparr>kw_stopRaised := True\<rparr>)"
| thread: "i < length ts \<Longrightarrow> ts ! i = s # t \<Longrightarrow> case_sys scenario (m, ts, w) (m, ts[i := t], perform_step s w)"
| thread_raises: "i < length ts \<Longrightarrow> ts ! i = s # t \<Longrightarrow> v \<in> set (raise_worlds s w) \<Longrightarrow>
    case_sys scenario (m, ts, w) (m, ts[i := []], v)"

definition case_start :: "bool \<Rightarrow> case_args \<Rightarrow> case_config" where
  "case_start remote_partner a =
     (let mock = (if remote_partner then None else Some MockProc)
      in (Body (case_script a), [], \<lparr>kw_running = set_option mock, kw_service = None, kw_mock = mock, kw_collector = None,
           kw_second = [], kw_started = 0, kw_log = [], kw_failure = False, kw_saveRaised = False, kw_orphans = {}, kw_stopRaised = False\<rparr>))"

section \<open>Everything started is stopped\<close>


fun starts_ok :: "bool \<Rightarrow> case_step list \<Rightarrow> bool" where
  "starts_ok up [] = True"
| "starts_ok up (StartService # r) = (\<not> up \<and> starts_ok True r)"
| "starts_ok up (KillService # r) = starts_ok False r"
| "starts_ok up (s # r) = starts_ok up r"























lemma starts_ok_append: "starts_ok up (xs @ ys) \<longleftrightarrow> starts_ok up xs \<and> starts_ok (fold (\<lambda>s up. case s of StartService \<Rightarrow> True | KillService \<Rightarrow> False | _ \<Rightarrow> up) xs up) ys"
  by (induction up xs rule: starts_ok.induct) auto




text \<open>A case never hangs between its own steps: as long as the clean-up is not done, some step is possible.\<close>

lemma case_progress: "m \<noteq> Cleanup [] \<Longrightarrow> \<exists>c'. case_sys scenario (m, ts, w) c'"
proof (cases m)
  case (Body steps)
  then show ?thesis by (cases steps) (auto intro: case_sys.main_raises [OF raise_before] case_sys.main_ends)
next
  case (Cleanup r)
  assume "m \<noteq> Cleanup []"
  then show ?thesis using Cleanup by (cases r) (auto intro: case_sys.final)
qed

section \<open>Runs of the frame\<close>

definition plain_step :: "case_step \<Rightarrow> bool" where
  "plain_step s \<longleftrightarrow> (case s of JoinThreads \<Rightarrow> False | Spawn _ \<Rightarrow> False | _ \<Rightarrow> True)"

lemma run_main:
  "list_all plain_step xs \<Longrightarrow> (case_sys scenario)\<^sup>*\<^sup>* (Body (xs @ ys), ts, w) (Body ys, ts, fold perform_step xs w)"
proof (induction xs arbitrary: w)
  case (Cons s xs)
  have "case_sys scenario (Body ((s # xs) @ ys), ts, w) (Body (xs @ ys), ts, perform_step s w)"
    using Cons.prems case_sys.main [of s scenario "xs @ ys" ts w] by (cases s) (simp_all add: plain_step_def)
  then show ?case using Cons by (simp add: converse_rtranclp_into_rtranclp)
qed simp

lemma run_thread:
  "i < length ts \<Longrightarrow> ts ! i = xs @ ys \<Longrightarrow> (case_sys scenario)\<^sup>*\<^sup>* (m, ts, w) (m, ts[i := ys], fold perform_step xs w)"
proof (induction xs arbitrary: ts w)
  case Nil
  then show ?case by (metis append_Nil fold_simps(1) list_update_id rtranclp.rtrancl_refl)
next
  case (Cons s xs)
  have "case_sys scenario (m, ts, w) (m, ts[i := xs @ ys], perform_step s w)"
    by (rule case_sys.thread [of i ts s]) (use Cons.prems in simp_all)
  moreover have "(case_sys scenario)\<^sup>*\<^sup>* (m, ts[i := xs @ ys], perform_step s w) (m, (ts[i := xs @ ys])[i := ys], fold perform_step xs (perform_step s w))"
    using Cons.prems(1) by (intro Cons.IH) simp_all
  ultimately show ?case by (simp add: converse_rtranclp_into_rtranclp)
qed

lemma run_cleanup: "(case_sys scenario)\<^sup>*\<^sup>* (Cleanup fs, ts, w) (Cleanup [], ts, fold perform_final fs w)"
proof (induction fs arbitrary: w)
  case (Cons f fs)
  show ?case using converse_rtranclp_into_rtranclp [of "case_sys scenario", OF case_sys.final Cons.IH] by simp
qed simp



text \<open>The exceptions are real. A start of the service that raises after launching it leaves a process that no variable of the
  case names, so the clean-up does not stop it.\<close>

lemma orphan_survives:
  "\<exists>w. (case_sys ''api'')\<^sup>*\<^sup>* (case_start True (case_of ''inbox'' ''api'' 1)) (Cleanup [], [], w) \<and> kw_running w = {ServiceProc 0} \<and> kw_failure w"
proof -
  let ?a = "case_of ''inbox'' ''api'' 1"
  let ?init = "\<lparr>kw_running = {}, kw_service = None, kw_mock = None, kw_collector = None, kw_second = [],
      kw_started = 0, kw_log = [], kw_failure = False, kw_saveRaised = False, kw_orphans = {}, kw_stopRaised = False\<rparr>"
  let ?v = "(orphaned (ServiceProc 0) ?init)\<lparr>kw_started := 1\<rparr>"
  have script: "case_script ?a = [Await ''mock ready''] @ StartService # drop 2 (case_script ?a)" by (simp add: case_script_def setup_steps_def)
  have start: "case_start True ?a = (Body (case_script ?a), [], ?init)" by (simp add: case_start_def Let_def)
  have plain: "list_all plain_step [Await ''mock ready'']" and nop: "fold perform_step [Await ''mock ready''] ?init = ?init"
    by (simp_all add: plain_step_def perform_step_def)
  note s1 = run_main [OF plain, of "''api''" "StartService # drop 2 (case_script ?a)" "[]" ?init, unfolded nop, folded script]
  have "?v \<in> set (raise_worlds StartService ?init)" by (simp add: raise_worlds_def)
  then have s2: "(case_sys ''api'')\<^sup>*\<^sup>* (Body (StartService # drop 2 (case_script ?a)), [], ?init) (Cleanup FINAL_STEPS, [], ?v\<lparr>kw_failure := True\<rparr>)"
    by (intro r_into_rtranclp case_sys.main_raises)
  have run: "(case_sys ''api'')\<^sup>*\<^sup>* (case_start True ?a) (Cleanup [], [], fold perform_final FINAL_STEPS (?v\<lparr>kw_failure := True\<rparr>))"
    unfolding start by (rule rtranclp_trans [OF s1 rtranclp_trans [OF s2 run_cleanup]])
  have "kw_running (fold perform_final FINAL_STEPS (?v\<lparr>kw_failure := True\<rparr>)) = {ServiceProc 0}"
    "kw_failure (fold perform_final FINAL_STEPS (?v\<lparr>kw_failure := True\<rparr>))"
    by (simp_all add: FINAL_STEPS_def perform_final_def stop_target_def orphaned_def)
  then show ?thesis using run by blast
qed

text \<open>The restart scenario is different: its thread may still be waiting for the old instance (up to 30 s) when the clean-up
  stops waiting for the thread (8 s), and the instance it then starts outlives the case.\<close>

lemma restarted_service_survives:
  "\<exists>ts w. (case_sys ''graceful-restart'')\<^sup>*\<^sup>* (case_start False (case_of ''inbox'' ''graceful-restart'' 1)) (Cleanup [], ts, w) \<and>
     kw_running w = {ServiceProc 1} \<and> (\<forall>t \<in> set ts. t = [])"
proof -
  let ?sc = "''graceful-restart''" and ?a = "case_of ''inbox'' ''graceful-restart'' 1"
  let ?sys = "(case_sys ''graceful-restart'')\<^sup>*\<^sup>*"
  let ?init = "\<lparr>kw_running = {MockProc}, kw_service = None, kw_mock = Some MockProc, kw_collector = None, kw_second = [],
      kw_started = 0, kw_log = [], kw_failure = False, kw_saveRaised = False, kw_orphans = {}, kw_stopRaised = False\<rparr>"
  let ?clear = "thread_script ?sc ClearFault" and ?ops = "thread_script ?sc OpsEvent"
  define pre where "pre = setup_steps ?a @ [Act ''control'', Record ''fault_injected'']"
  define w1 where "w1 = fold perform_step pre ?init"
  have plain: "list_all plain_step pre" by (simp add: pre_def setup_steps_def plain_step_def case_of_def)
  have delay: "?sc \<in> set DELAY_SCENARIOS" "?sc \<in> set OPS_SCENARIOS" "case_gate ?sc = None"
    by (simp_all add: DELAY_SCENARIOS_def OPS_SCENARIOS_def case_gate_def GATE_SCENARIOS_def)
  have sc: "ca_scenario ?a = ?sc" by (simp add: case_of_def)
  have "\<exists>rest. case_script ?a = pre @ Spawn ClearFault # [Act ''producer''] @ Spawn OpsEvent # Act ''input'' # rest"
    unfolding case_script_def pre_def sc fault_steps_of_def input_steps_def arm_steps_of_def using delay by simp
  then obtain rest where script: "case_script ?a = pre @ Spawn ClearFault # [Act ''producer''] @ Spawn OpsEvent # Act ''input'' # rest" ..
  have start: "case_start False ?a = (Body (case_script ?a), [], ?init)" by (simp add: case_start_def Let_def)
  have s1: "?sys (Body (case_script ?a), [], ?init) (Body (Spawn ClearFault # [Act ''producer''] @ Spawn OpsEvent # Act ''input'' # rest), [], w1)"
    unfolding script w1_def by (rule run_main [OF plain])
  have s2: "?sys (Body (Spawn ClearFault # r), [], w1) (Body r, [?clear], w1)" for r
    using case_sys.spawn [of ?sc ClearFault r "[]" w1] by (simp add: r_into_rtranclp)
  have p1: "list_all plain_step [Act ''producer'']" by (simp add: plain_step_def)
  have e1: "fold perform_step [Act ''producer''] w1 = w1" by (simp add: perform_step_def)
  note s3 = run_main [OF p1, of ?sc "Spawn OpsEvent # Act ''input'' # rest" "[?clear]" w1, unfolded e1]
  have s4: "?sys (Body (Spawn OpsEvent # Act ''input'' # rest), [?clear], w1) (Body (Act ''input'' # rest), [?clear, ?ops], w1)"
    using case_sys.spawn [of ?sc OpsEvent "Act ''input'' # rest" "[?clear]" w1] by (simp add: r_into_rtranclp)
  have s5: "?sys (Body (Act ''input'' # rest), [?clear, ?ops], w1) (Cleanup FINAL_STEPS, [?clear, ?ops], w1\<lparr>kw_failure := True\<rparr>)"
    by (rule r_into_rtranclp, rule case_sys.main_raises, rule raise_before)
  note s6 = run_cleanup [of ?sc FINAL_STEPS "[?clear, ?ops]" "w1\<lparr>kw_failure := True\<rparr>"]
  have s7: "?sys (Cleanup [], [?clear, ?ops], v) (Cleanup [], [[], ?ops], fold perform_step ?clear v)" for v
    using run_thread [of 0 "[?clear, ?ops]" ?clear "[]" ?sc "Cleanup []" v] by simp
  have s8: "?sys (Cleanup [], [[], ?ops], v) (Cleanup [], [[], []], fold perform_step ?ops v)" for v
    using run_thread [of 1 "[[], ?ops]" ?ops "[]" ?sc "Cleanup []" v] by simp
  have run: "?sys (case_start False ?a)
      (Cleanup [], [[], []], fold perform_step ?ops (fold perform_step ?clear (fold perform_final FINAL_STEPS (w1\<lparr>kw_failure := True\<rparr>))))"
    unfolding start
    by (rule rtranclp_trans [OF s1 rtranclp_trans [OF s2 rtranclp_trans [OF s3 rtranclp_trans [OF s4
      rtranclp_trans [OF s5 rtranclp_trans [OF s6 rtranclp_trans [OF s7 s8]]]]]]])
  have "kw_running (fold perform_step ?ops (fold perform_step ?clear (fold perform_final FINAL_STEPS (w1\<lparr>kw_failure := True\<rparr>)))) = {ServiceProc 1}"
    by (simp add: w1_def pre_def setup_steps_def case_of_def FINAL_STEPS_def perform_final_def stop_target_def perform_step_def thread_script_def Let_def)
  moreover have "\<forall>t \<in> set [[], [] :: case_step list]. t = []" by simp
  ultimately show ?thesis using run by blast
qed

end
