(* ===== verification/Spec2Isabelle.thy ===== *)
theory Spec2Isabelle
  imports Ledger_System Mock_Server Effect_Checker Run_Verdicts Observer Sender Workload Budgets Instruments Suite_Properties
    Collector Legacy_Properties Sweep_Report Isolation_Report Case_Frame
begin

text \<open>
  A verification development for the experiment tools of the event-driven order system
  (\<open>src/experiments\<close>, Python). The Java services of the repository deliver order operations to
  seller APIs; the Python tools generate the load, play the sellers, observe a run, judge it and choose
  between the candidate structures. Their judgements are what the project's conclusions rest on, so the
  development models the tools and proves what their verdicts mean.

  \<^bold>\<open>The parts and how they interact.\<close> \<open>isolation/suite.py\<close> plans the stages inside a time budget and
  starts each run through \<open>isolation/runner.py\<close>. A run builds a trace with \<open>isolation/trace.py\<close>, resets the
  seller mock (\<open>mock-partner-api/server.py\<close>), starts the services, lets \<open>isolation/load.py\<close> send the trace
  while \<open>isolation/observer.py\<close> samples the source and timed steps inject the fault and the scenario, then
  collects the evidence. \<open>isolation/check.py\<close> judges the collected files; \<open>checker.py\<close>,
  \<open>verify_budgets.py\<close> and \<open>ops_report.py\<close> judge the runs of the older runner over the same ledger.

  \<^bold>\<open>Theories and sources.\<close>
  \<^item> \<open>Prelude\<close>: exceptions as values (\<open>'a result\<close>, \<open>Inl\<close> the exception), dictionaries in insertion
    order as association lists, \<open>defaultdict\<close>, \<open>max(..., default)\<close>, and the shared list lemmas.
    \<open>Py_Float\<close>: doubles as exact rationals with \<open>fl\<close>, round to nearest even, and Python's \<open>round\<close>.
    \<open>Contract\<close>: the event and request body of the seller API.
  \<^item> \<open>Ledger\<close>, \<open>Ledger_System\<close>, \<open>Ledger_Recovery\<close>, \<open>Mock_Server\<close> model \<open>mock-partner-api/server.py\<close>. The
    record \<open>ledger\<close> is the memory of class \<open>Ledger\<close>, \<open>tables\<close> its SQLite file, \<open>server\<close> both with
    the queue of the group-committing writer. \<open>admit\<close>, \<open>decide\<close> and \<open>answer\<close> are the atomic sections of
    \<open>Handler.do_POST\<close>; the inductive \<open>sys_step\<close> interleaves them over request threads, controls and
    writer turns; \<open>serve\<close> and \<open>handle\<close> run one request at a time. Shown: orders are gapless, an
    event has at most one effect, an acknowledged fresh effect is durable, reset and reopen restore the state,
    lost responses and failures lead to one effect; and the orders in which the code does not keep its
    promise. The invariants go through the locale \<open>step_invariant\<close>.
  \<^item> \<open>Effect_Checker\<close> models \<open>checker.py\<close>: \<open>check_errors\<close> with every message, and that it passes exactly on
    consistent evidence.
  \<^item> \<open>Intervals\<close>, \<open>Run_Checker\<close>, \<open>Run_Verdicts\<close> model \<open>isolation/check.py\<close>: the sweep, window and
    percentile routines (the locale \<open>point_sweep\<close> and its interpretations), one definition per verdict,
    and for each verdict the condition it decides.
  \<^item> \<open>Observer\<close> models \<open>isolation/observer.py\<close> and its alert rule; \<open>Sender\<close> models the retry loop of
    \<open>isolation/load.py\<close> against any receiver (locale \<open>exactly_once_api\<close>, interpreted on the mock);
    \<open>Workload\<close> models \<open>isolation/trace.py\<close> with CRC-32 routing and JSON padding.
  \<^item> \<open>Budgets\<close> models \<open>verify_budgets.py\<close> and \<open>ops_report.peak_per_seller\<close>, and relates both to
    \<open>isolation/check.py\<close>.
  \<^item> \<open>Polling\<close> models the waiting loops (\<open>wait_for\<close> of both runners and \<open>Run._drain\<close>); \<open>Runner\<close> models
    \<open>isolation/runner.py\<close>: names, limits, process arguments, the timed steps, the takeover scenario, the
    collection and the frame of a run: which calls of its clean-up can raise, and what is then skipped.
  \<^item> \<open>Suite\<close>, \<open>Suite_Properties\<close>, \<open>Instruments\<close> model \<open>isolation/suite.py\<close>: the stage specifications, the
    budget guard, C0, the selection rules and the whole plan over the runs of \<open>Runner\<close>, the invariants of the
    plan (locale \<open>suite_invariant\<close>, interpreted for the budget and for the log), and the gates of G0.

  \<^item> \<open>Legacy_Run\<close>, \<open>Legacy_Properties\<close> model the older runner \<open>run.py\<close>: the generated workload, the settings,
    environment, fault, gate and input slices of a case, the suites of cases, \<open>sql\<close> from the client's
    text on and the figures of \<open>report\<close>. Shown: a case sends a complete plan, printed tables are read back exactly, and
    the effect checker is given the stored rows.
    \<open>Case_Frame\<close> models the frame of \<open>run_case\<close>: its steps, its threads, an exception at any step, before or after its
    effect, and the clean-up. A process outlives a case only if its own start raised after launching it or a stop of the
    clean-up raised; the first is shown to happen, and so is a restart that outlives the clean-up.
    \<open>Delivery\<close> composes the mock with \<open>checker.py\<close>: after any at-least-once delivery, served one request at a time
    with commits that succeed, the check depends on the business database alone.
  \<^item> \<open>Collector\<close> models \<open>collector.py\<close> and the rows of \<open>docker_metrics.py\<close>: the bounded file and ring, the
    detection and the two incident files. \<open>Diagnosis\<close> models the verdicts of \<open>analyze.py\<close>.
  \<^item> \<open>Source_Drivers\<close> models what \<open>end_to_end.py\<close> and \<open>admission.py\<close> expect and check; \<open>Completion_Audit\<close> models
    \<open>audit_local.py\<close> and the jobs of \<open>reproduce.sh\<close>, \<open>finish_local.py\<close>, \<open>extra_cases.py\<close> and
    \<open>final_measurements.py\<close>: what a passed audit shows of the index, and that the reproduction makes every run it asks for
    (locale \<open>job_plan\<close>, interpreted for both plans). \<open>Migration\<close> models \<open>migrate.py\<close> and
    \<open>evidence_paths.py\<close> over any database client.

  \<^item> \<open>Hosts\<close> models the host counters of \<open>topology.py\<close> (shares stay between 0 and 1, a failed sample has none), \<open>Run_Report\<close>
    the files and figures of \<open>report\<close> in \<open>run.py\<close> (which directories can be reported, what its CPU and pool figures mean),
    \<open>Comparison\<close> and \<open>Sweep_Report\<close> the figures of \<open>comparison_report.py\<close>, \<open>sweep_report.py\<close> and
    \<open>ops_report.py\<close> (the peaks of all scripts agree, no run is lost), \<open>Isolation_Report\<close> the rows of
    \<open>isolation/report.py\<close> (the buffer and takeover timelines).

  \<^bold>\<open>Conventions.\<close> A definition keeps the source's name where HOL allows it and stands in the source's order.
  Python integers are \<open>int\<close>, floats are rationals under \<open>fl\<close>; overflow and subnormal floats do not occur
  with the counts, milliseconds and shares used. Every raise is an \<open>Inl\<close>; a file that is read is
  an argument, as a result where the code can meet it missing or truncated. Clocks, random draws, HTTP and
  database answers are arguments, so that a theorem holds for all of them.

  \<^bold>\<open>Loops and bounds.\<close> Loops over data are structural recursion. The arrival loop of the trace consumes a list
  of draws and is \<open>None\<close> when the list is too short; enough draws give a trace. The waiting loops are a
  \<open>partial_function\<close>, and that they return is proved from looks that take non-negative time. The retry loop
  of the load generator has the source's five attempts.

  \<^bold>\<open>Not modelled.\<close> The Java services (another language; the tools only start and observe them); ssh, scp, docker,
  Kafka and MySQL command lines, HTTP framing and threads of the load generator (their answers are arguments);
  of \<open>run.py\<close>, \<open>end_to_end.py\<close> and \<open>admission.py\<close> the commands that start and kill processes and brokers (of a case of
  \<open>run.py\<close> their order is modelled) and the run directory; \<open>baseline\<close>; the tables and text
  printed by the reports, and \<open>verify_migration.py\<close>, a script of SQL statements.
\<close>

end
